(* ===== verification/VS_Prelude.thy ===== *)
theory VS_Prelude
  imports Main "HOL-Library.Word" "HOL-Library.AList"
begin

text \<open>
  Shared vocabulary of the development: machine-integer type names, the parts of Go's
  \<^verbatim>\<open>encoding/binary\<close> and slice operations the program uses, Go maps as association lists,
  and the contracts (locales) several components rely on: transition systems with an
  invariant, and scans that keep the best element seen so far.
\<close>

unbundle bit_operations_syntax

named_theorems go_slice \<open>lengths and elements of sliced and overwritten byte buffers\<close>
named_theorems go_map \<open>lookup and key laws of Go maps\<close>

type_synonym byte = "8 word"
type_synonym u16 = "16 word"
type_synonym u32 = "32 word"
type_synonym u64 = "64 word"
type_synonym time = int

section \<open>Byte order\<close>

text \<open>
  Unsigned values of a byte string, least significant byte first; the big-endian reading is
  the little-endian one of the reversed string.
\<close>

primrec get_le :: "byte list \<Rightarrow> nat" where
  "get_le [] = 0"
| "get_le (b # bs) = unat b + 256 * get_le bs"

primrec put_le :: "nat \<Rightarrow> nat \<Rightarrow> byte list" where
  "put_le 0 n = []"
| "put_le (Suc k) n = word_of_nat n # put_le k (n div 256)"

definition get_be :: "byte list \<Rightarrow> nat" where
  "get_be bs = get_le (rev bs)"

definition put_be :: "nat \<Rightarrow> nat \<Rightarrow> byte list" where
  "put_be k n = rev (put_le k n)"

text \<open>\<^verbatim>\<open>binary.BigEndian.UintN\<close> and \<^verbatim>\<open>PutUintN\<close>: they read and write the first bytes.\<close>

definition be16 :: "byte list \<Rightarrow> u16" where "be16 bs = word_of_nat (get_be (take 2 bs))"
definition be32 :: "byte list \<Rightarrow> u32" where "be32 bs = word_of_nat (get_be (take 4 bs))"
definition be64 :: "byte list \<Rightarrow> u64" where "be64 bs = word_of_nat (get_be (take 8 bs))"
definition le16 :: "byte list \<Rightarrow> u16" where "le16 bs = word_of_nat (get_le (take 2 bs))"
definition le32 :: "byte list \<Rightarrow> u32" where "le32 bs = word_of_nat (get_le (take 4 bs))"
definition le64 :: "byte list \<Rightarrow> u64" where "le64 bs = word_of_nat (get_le (take 8 bs))"

definition put_be16 :: "u16 \<Rightarrow> byte list" where "put_be16 w = put_be 2 (unat w)"
definition put_be32 :: "u32 \<Rightarrow> byte list" where "put_be32 w = put_be 4 (unat w)"
definition put_be64 :: "u64 \<Rightarrow> byte list" where "put_be64 w = put_be 8 (unat w)"
definition put_le16 :: "u16 \<Rightarrow> byte list" where "put_le16 w = put_le 2 (unat w)"
definition put_le32 :: "u32 \<Rightarrow> byte list" where "put_le32 w = put_le 4 (unat w)"
definition put_le64 :: "u64 \<Rightarrow> byte list" where "put_le64 w = put_le 8 (unat w)"

section \<open>Slices\<close>

text \<open>\<open>bslice i j xs\<close> is Go's \<^verbatim>\<open>xs[i:j]\<close> for bounds the caller has checked.\<close>

definition bslice :: "nat \<Rightarrow> nat \<Rightarrow> 'a list \<Rightarrow> 'a list" where
  "bslice i j xs = take (j - i) (drop i xs)"

text \<open>\<open>blit xs i ys\<close> is \<^verbatim>\<open>copy(xs[i:], ys)\<close>: it overwrites from index \<open>i\<close> and keeps the length.\<close>

definition blit :: "'a list \<Rightarrow> nat \<Rightarrow> 'a list \<Rightarrow> 'a list" where
  "blit xs i ys = take i xs @ take (length xs - i) ys @ drop (i + length ys) xs"

section \<open>Go maps\<close>

text \<open>
  A Go map is an association list with distinct keys. The order of the list is the order in
  which the next \<^verbatim>\<open>range\<close> visits the keys, which Go leaves open: theorems hold for every list.
\<close>

type_synonym ('k, 'v) gomap = "('k \<times> 'v) list"

definition mget :: "('k, 'v) gomap \<Rightarrow> 'k \<Rightarrow> 'v option" where
  "mget m k = map_of m k"

definition mput :: "'k \<Rightarrow> 'v \<Rightarrow> ('k, 'v) gomap \<Rightarrow> ('k, 'v) gomap" where
  "mput k v m = AList.update k v m"

definition mdel :: "'k \<Rightarrow> ('k, 'v) gomap \<Rightarrow> ('k, 'v) gomap" where
  "mdel k m = filter (\<lambda>(k', v). k' \<noteq> k) m"

text \<open>A \<^verbatim>\<open>range\<close> loop that deletes the entries not satisfying \<open>P\<close>.\<close>

definition mkeep :: "('k \<Rightarrow> 'v \<Rightarrow> bool) \<Rightarrow> ('k, 'v) gomap \<Rightarrow> ('k, 'v) gomap" where
  "mkeep P m = filter (\<lambda>(k, v). P k v) m"

definition mwf :: "('k, 'v) gomap \<Rightarrow> bool" where
  "mwf m \<longleftrightarrow> distinct (map fst m)"

section \<open>Byte streams\<close>

text \<open>
  A stream connection is the list of chunks its reads will return: a read takes at most the
  buffer's length from the first chunk, and fails when there is none left.
\<close>

type_synonym conn = "byte list list"

text \<open>\<^verbatim>\<open>conn.Read\<close> into a buffer of the given length.\<close>

fun conn_read :: "nat \<Rightarrow> conn \<Rightarrow> (byte list \<times> conn) option" where
  "conn_read n [] = None"
| "conn_read n (c # cs) = Some (take n c, if length c \<le> n then cs else drop n c # cs)"

text \<open>
  The loops that complete a partly read buffer: read until \<open>need\<close> more bytes have come. A chunk is
  never empty, so each read makes progress and \<open>need\<close> iterations suffice.
\<close>

fun read_rest :: "nat \<Rightarrow> nat \<Rightarrow> byte list \<Rightarrow> conn \<Rightarrow> (byte list \<times> conn) option" where
  "read_rest fuel 0 acc cs = Some (acc, cs)"
| "read_rest 0 (Suc need) acc cs = None"
| "read_rest (Suc fuel) (Suc need) acc cs =
    (case conn_read (Suc need) cs of
       None \<Rightarrow> None
     | Some (b, cs') \<Rightarrow> read_rest fuel (Suc need - length b) (acc @ b) cs')"

section \<open>Durations\<close>

text \<open>A \<^verbatim>\<open>time.Duration\<close> is a number of nanoseconds.\<close>

definition time_Second :: int where "time_Second = 10 ^ 9"

section \<open>Lemmas on bytes\<close>

lemma unat_bound:
  "unat (b :: byte) < 256" "unat (w :: u16) < 65536" "unat (x :: u32) < 4294967296"
  "unat (y :: u64) < 18446744073709551616"
  by (rule order_less_le_trans [OF unsigned_less], simp)+

lemma get_le_bound: "get_le bs < 256 ^ length bs"
proof (induction bs)
  case (Cons b bs)
  have "unat b < 256" by (rule unat_bound)
  then have "unat b + 256 * get_le bs < 256 * (get_le bs + 1)" by simp
  also have "\<dots> \<le> 256 * 256 ^ length bs"
    using Cons.IH by (intro mult_le_mono2) simp
  finally show ?case by simp
qed simp

lemma length_put_le [simp]: "length (put_le k n) = k"
  by (induction k arbitrary: n) auto

lemma length_put_be [simp]: "length (put_be k n) = k"
  by (simp add: put_be_def)

lemma get_put_le: "get_le (put_le k n) = n mod 256 ^ k"
proof (induction k arbitrary: n)
  case (Suc k)
  have "unat (word_of_nat n :: byte) = n mod 256" by (simp add: unat_of_nat)
  then show ?case using Suc.IH [of "n div 256"] by (simp add: mod_mult2_eq)
qed simp

lemma put_get_le: "put_le (length bs) (get_le bs) = bs"
proof (induction bs)
  case (Cons b bs)
  have b: "unat b < 256" by (rule unat_bound)
  have "(256 :: byte) = 0" by simp
  then have "(word_of_nat (unat b + 256 * get_le bs) :: byte) = b"
    by (simp only: of_nat_add of_nat_mult of_nat_numeral mult_zero_left add_0_right) simp
  moreover have "(unat b + 256 * get_le bs) div 256 = get_le bs"
    using b by simp
  ultimately show ?case using Cons.IH by simp
qed simp

lemma get_put_be: "get_be (put_be k n) = n mod 256 ^ k"
  by (simp add: get_be_def put_be_def get_put_le)

lemma put_get_be: "put_be (length bs) (get_be bs) = bs"
  using put_get_le [of "rev bs"] by (simp add: get_be_def put_be_def)

lemma length_put_word [simp]:
  "length (put_be16 a) = 2" "length (put_be32 b) = 4" "length (put_be64 c) = 8"
  "length (put_le16 a) = 2" "length (put_le32 b) = 4" "length (put_le64 c) = 8"
  by (simp_all add: put_be16_def put_be32_def put_be64_def put_le16_def put_le32_def put_le64_def)

lemma unat_pow256:
  "unat (a :: u16) mod 256 ^ 2 = unat a" "unat (b :: u32) mod 256 ^ 4 = unat b"
  "unat (c :: u64) mod 256 ^ 8 = unat c"
  using unat_bound(2) [of a] unat_bound(3) [of b] unat_bound(4) [of c] by simp_all

text \<open>What is written is what is read back, whatever follows in the buffer.\<close>

lemma be_put [simp]:
  "be16 (put_be16 a @ xs) = a" "be32 (put_be32 b @ xs) = b" "be64 (put_be64 c @ xs) = c"
  using unat_pow256(1) [of a] unat_pow256(2) [of b] unat_pow256(3) [of c]
  by (simp_all add: be16_def be32_def be64_def put_be16_def put_be32_def put_be64_def
      get_put_be del: One_nat_def power_Suc)

lemma le_put [simp]:
  "le16 (put_le16 a @ xs) = a" "le32 (put_le32 b @ xs) = b" "le64 (put_le64 c @ xs) = c"
  using unat_pow256(1) [of a] unat_pow256(2) [of b] unat_pow256(3) [of c]
  by (simp_all add: le16_def le32_def le64_def put_le16_def put_le32_def put_le64_def
      get_put_le del: One_nat_def power_Suc)

lemma put_le_word_exact [simp]:
  "le16 (put_le16 a) = a" "le32 (put_le32 b) = b" "le64 (put_le64 c) = c"
  using le_put(1) [of a "[]"] le_put(2) [of b "[]"] le_put(3) [of c "[]"] by simp_all

lemma put_be_word_exact [simp]:
  "be16 (put_be16 a) = a" "be32 (put_be32 b) = b" "be64 (put_be64 c) = c"
  using be_put(1) [of a "[]"] be_put(2) [of b "[]"] be_put(3) [of c "[]"] by simp_all

lemma put_be16_be16: "length bs = 2 \<Longrightarrow> put_be16 (be16 bs) = bs"
proof -
  assume l: "length bs = 2"
  then have "get_be bs < 2 ^ 16"
    using get_le_bound [of "rev bs"] by (simp add: get_be_def)
  then have "unat (word_of_nat (get_be bs) :: u16) = get_be bs" by (simp add: unat_of_nat)
  then show ?thesis using l put_get_be [of bs] by (simp add: put_be16_def be16_def)
qed

lemma and_0fff: "uint ((w :: u16) AND 0x0fff) < 4096"
proof -
  have "w AND 0x0fff \<le> 0x0fff" by (rule word_and_le1)
  then have "uint (w AND 0x0fff) \<le> uint (0x0fff :: u16)" by (simp add: word_le_def)
  then show ?thesis by simp
qed

lemma word_and_0fff:
  assumes "0 \<le> key" "key < 4096"
  shows "(word_of_int key :: u16) AND 0x0fff = word_of_int key"
proof (rule word_eq_iff_unsigned [THEN iffD2])
  have "key AND 4095 = take_bit 12 key"
    using take_bit_eq_mask [of 12 key] by (simp add: mask_eq_exp_minus_1)
  also have "\<dots> = key" using assms by (simp add: take_bit_int_eq_self)
  finally have "key AND 4095 = key" .
  moreover have "take_bit 16 key = key" using assms by (simp add: take_bit_int_eq_self)
  ultimately show "uint ((word_of_int key :: u16) AND 0x0fff) = uint (word_of_int key :: u16)"
    by (simp add: unsigned_and_eq unsigned_of_int)
qed

section \<open>Lemmas on slices\<close>

lemma length_bslice [go_slice]: "length (bslice i j xs) = min (j - i) (length xs - i)"
  by (simp add: bslice_def min.commute)

lemma length_blit [go_slice]: "i + length ys \<le> length xs \<Longrightarrow> length (blit xs i ys) = length xs"
  by (simp add: blit_def)

lemma nth_blit [go_slice]:
  "i + length ys \<le> length xs \<Longrightarrow> k < length xs \<Longrightarrow>
    blit xs i ys ! k = (if i \<le> k \<and> k < i + length ys then ys ! (k - i) else xs ! k)"
  by (auto simp: blit_def nth_append min_def)

text \<open>Successive fields written into a zeroed buffer concatenate.\<close>

lemma blit_zero: "blit zs 0 ys = take (length zs) ys @ drop (length ys) zs"
  by (simp add: blit_def)

lemma blit_skip: "length xs \<le> i \<Longrightarrow> blit (xs @ zs) i ys = xs @ blit zs (i - length xs) ys"
  by (simp add: blit_def add.commute)

lemma blit_Cons: "0 < i \<Longrightarrow> blit (x # zs) i ys = x # blit zs (i - 1) ys"
  by (cases i) (simp_all add: blit_def)

lemma update_Cons: "0 < i \<Longrightarrow> (x # zs)[i := v] = x # zs[i - 1 := v]"
  by (cases i) simp_all

lemma update_skip: "length xs \<le> i \<Longrightarrow> (xs @ zs)[i := v] = xs @ zs[i - length xs := v]"
  by (simp add: list_update_append)

lemmas blit_fields = blit_zero blit_skip blit_Cons update_Cons update_skip

lemma bslice_blit_same [go_slice]:
  "i + length ys \<le> length xs \<Longrightarrow> bslice i (i + length ys) (blit xs i ys) = ys"
  by (simp add: bslice_def blit_def)

lemma bslice_blit_other [go_slice]:
  assumes "i + length ys \<le> length xs" "b \<le> i \<or> i + length ys \<le> a" "b \<le> length xs"
  shows "bslice a b (blit xs i ys) = bslice a b xs"
proof (rule nth_equalityI)
  show l: "length (bslice a b (blit xs i ys)) = length (bslice a b xs)"
    using assms(1) by (simp add: go_slice)
  fix k assume "k < length (bslice a b (blit xs i ys))"
  then have "a + k < b" "a + k < length xs"
    using assms(1) by (auto simp: go_slice)
  then show "bslice a b (blit xs i ys) ! k = bslice a b xs ! k"
    using assms by (auto simp: bslice_def nth_blit length_blit)
qed

section \<open>Reading is independent of fragmentation\<close>

lemma conn_read_Some:
  assumes "conn_read n cs = Some (b, cs')" "[] \<notin> set cs"
  shows "concat cs = b @ concat cs'" "[] \<notin> set cs'" "length b \<le> n" "0 < n \<Longrightarrow> 0 < length b"
  using assms by (cases cs; auto split: if_splits)+

lemma read_rest_concat:
  assumes "[] \<notin> set cs" "need \<le> length (concat cs)" "need \<le> fuel"
  shows "\<exists>cs'. read_rest fuel need acc cs = Some (acc @ take need (concat cs), cs')
    \<and> concat cs' = drop need (concat cs) \<and> [] \<notin> set cs'"
  using assms
proof (induction fuel need acc cs rule: read_rest.induct)
  case (3 fuel need acc cs)
  from "3.prems"(2) obtain b cs1 where r: "conn_read (Suc need) cs = Some (b, cs1)" by (cases cs) auto
  note b = conn_read_Some [OF r "3.prems"(1)]
  let ?left = "Suc need - length b"
  have pos: "0 < length b" using b(4) by simp
  have "?left \<le> length (concat cs1)" using "3.prems"(2) b(1) by simp
  moreover have "?left \<le> fuel" using "3.prems"(3) pos by linarith
  ultimately have left: "?left \<le> length (concat cs1)" "?left \<le> fuel" by simp_all
  from "3.IH" [OF r refl b(2) left] obtain cs' where
    "read_rest fuel ?left (acc @ b) cs1 = Some ((acc @ b) @ take ?left (concat cs1), cs')"
    "concat cs' = drop ?left (concat cs1)" "[] \<notin> set cs'" by blast
  then show ?case using r b by (auto simp: take_Cons')
qed auto

section \<open>Lemmas on Go maps\<close>

lemma mget_nil [go_map, simp]: "mget [] k = None"
  by (simp add: mget_def)

lemma mget_mput [go_map]: "mget (mput k v m) k' = (if k' = k then Some v else mget m k')"
  by (simp add: mget_def mput_def update_conv')

lemma mget_mdel [go_map]: "mget (mdel k m) k' = (if k' = k then None else mget m k')"
  by (induction m) (auto simp: mget_def mdel_def)

lemma mget_mkeep [go_map]:
  "mwf m \<Longrightarrow> mget (mkeep P m) k = (case mget m k of None \<Rightarrow> None | Some v \<Rightarrow> if P k v then Some v else None)"
proof (induction m)
  case (Cons e m)
  then have "fst e \<notin> set (map fst m)" by (simp add: mwf_def)
  then have "mget m (fst e) = None" by (simp add: mget_def map_of_eq_None_iff)
  with Cons show ?case
    by (cases e) (auto simp: mget_def mkeep_def mwf_def split: option.splits)
qed (simp add: mkeep_def)

lemma mwf_nil [simp, intro]: "mwf []"
  by (simp add: mwf_def)

lemma mwf_mput [simp, intro]: "mwf m \<Longrightarrow> mwf (mput k v m)"
  by (simp add: mwf_def mput_def distinct_update)

lemma mwf_filter [simp, intro]: "mwf m \<Longrightarrow> mwf (filter P m)"
  by (induction m) (auto simp: mwf_def)

lemma mwf_mdel [simp, intro]: "mwf m \<Longrightarrow> mwf (mdel k m)"
  by (simp add: mdel_def)

lemma mwf_mkeep [simp, intro]: "mwf m \<Longrightarrow> mwf (mkeep P m)"
  by (simp add: mkeep_def)

lemma mget_Some_mem: "mget m k = Some v \<Longrightarrow> (k, v) \<in> set m"
  by (simp add: mget_def map_of_SomeD)

lemma mem_mget: "mwf m \<Longrightarrow> (k, v) \<in> set m \<Longrightarrow> mget m k = Some v"
  by (simp add: mget_def mwf_def)

lemma mem_mget_iff: "mwf m \<Longrightarrow> (k, v) \<in> set m \<longleftrightarrow> mget m k = Some v"
  using mem_mget mget_Some_mem by metis

lemma mget_None_iff: "mget m k = None \<longleftrightarrow> k \<notin> fst ` set m"
  by (simp add: mget_def map_of_eq_None_iff)

section \<open>Contracts shared by several components\<close>

text \<open>
  A component whose operations all keep an invariant keeps it along every sequence of
  operations. Components instantiate it with their own operations and well-formedness.
\<close>

locale invariant_system =
  fixes exec :: "'op \<Rightarrow> 's \<Rightarrow> 's" and inv :: "'s \<Rightarrow> bool"
  assumes inv_exec: "inv s \<Longrightarrow> inv (exec op s)"
begin

lemma inv_run: "inv s \<Longrightarrow> inv (fold exec ops s)"
  by (induction ops arbitrary: s) (auto intro: inv_exec)

end

text \<open>
  A quantity no operation of a class changes is constant along every run of such operations.
\<close>

locale frame_system =
  fixes exec :: "'op \<Rightarrow> 's \<Rightarrow> 's" and obs :: "'s \<Rightarrow> 'o" and inv :: "'s \<Rightarrow> bool"
  assumes obs_exec: "inv s \<Longrightarrow> obs (exec op s) = obs s"
    and frame_inv: "inv s \<Longrightarrow> inv (exec op s)"
begin

lemma obs_run: "inv s \<Longrightarrow> obs (fold exec ops s) = obs s"
  by (induction ops arbitrary: s) (auto simp: obs_exec frame_inv)

end

text \<open>
  Loops of the form \<^verbatim>\<open>for c in cs { if better(c, best) { best = c } }\<close> over a strict weak order.
\<close>

locale best_scan =
  fixes better :: "'a \<Rightarrow> 'a \<Rightarrow> bool"
  assumes better_asym: "better a b \<Longrightarrow> \<not> better b a"
    and better_weak: "better a b \<Longrightarrow> better a c \<or> better c b"
begin

definition scan :: "'a list \<Rightarrow> 'a \<Rightarrow> 'a" where
  "scan cs b = fold (\<lambda>c best. if better c best then c else best) cs b"

lemma better_irrefl [simp]: "\<not> better a a"
  using better_asym by blast

lemma better_trans: "better a b \<Longrightarrow> better b c \<Longrightarrow> better a c"
  using better_weak better_asym by blast

lemma scan_Nil [simp]: "scan [] b = b"
  by (simp add: scan_def)

lemma scan_Cons [simp]: "scan (c # cs) b = scan cs (if better c b then c else b)"
  by (simp add: scan_def)

lemma scan_mem: "scan cs b \<in> insert b (set cs)"
  by (induction cs arbitrary: b) auto

lemma scan_no_worse: "\<not> better b (scan cs b)"
proof (induction cs arbitrary: b)
  case (Cons c cs)
  show ?case
  proof (cases "better c b")
    case True
    have "\<not> better c (scan cs c)" by (rule Cons.IH)
    then have "\<not> better b (scan cs c)"
      using True better_trans by blast
    with True show ?thesis by simp
  qed (use Cons.IH in simp)
qed simp

lemma scan_best: "c \<in> insert b (set cs) \<Longrightarrow> \<not> better c (scan cs b)"
proof (induction cs arbitrary: b)
  case (Cons d cs)
  let ?b = "if better d b then d else b"
  have "\<not> better ?b (scan cs ?b)" by (rule scan_no_worse)
  moreover have "\<not> better d ?b" "\<not> better b ?b"
    using better_asym by auto
  ultimately have "\<not> better d (scan cs ?b)" "\<not> better b (scan cs ?b)"
    using better_weak by blast+
  with Cons show ?case by auto
qed simp

end

end
