(* ===== verification/Vlan.thy ===== *)
theory Vlan
  imports VS_Prelude
begin

text \<open>
  Port attributes (\<^verbatim>\<open>internal/switchcore/port.go\<close>) and VLAN handling of ethernet frames
  (\<^verbatim>\<open>internal/switchcore/vlan.go\<close>): parsing, ingress classification, egress eligibility and
  the lazily built tagged and untagged renderings of a frame.
\<close>

section \<open>Data\<close>

type_synonym frame = "byte list"
type_synonym mac = "byte list"

definition VLANUntaggedOnly :: int where "VLANUntaggedOnly = 0"
definition VLANTrunk :: int where "VLANTrunk = 4095"
definition etherTypeVLAN :: u16 where "etherTypeVLAN = 0x8100"
definition ethHeaderLen :: nat where "ethHeaderLen = 14"
definition macLen :: nat where "macLen = 6"
definition untaggedKey :: int where "untaggedKey = 0"

text \<open>A nil \<^verbatim>\<open>SecurityMAC\<close> is \<open>None\<close>.\<close>

record PortAttrs =
  SecurityMAC :: "byte list option"
  Isolated :: bool
  VLAN :: int
  Disabled :: bool
  BPDUGuard :: bool
  LoopDetect :: bool
  StormPPS :: u32
  STP :: bool
  STPCost :: u32
  STPPriority :: byte

datatype attr_error = BadSecurityMAC nat | BadVLAN int

definition validate :: "PortAttrs \<Rightarrow> attr_error option" where
  "validate a =
    (case SecurityMAC a of
       Some m \<Rightarrow> if length m \<noteq> 6 then Some (BadSecurityMAC (length m))
         else if VLAN a < 0 \<or> VLAN a > VLANTrunk then Some (BadVLAN (VLAN a)) else None
     | None \<Rightarrow> if VLAN a < 0 \<or> VLAN a > VLANTrunk then Some (BadVLAN (VLAN a)) else None)"

record frameView =
  data :: frame
  tagged :: bool
  vid :: u16

definition parseFrame :: "frame \<Rightarrow> frameView option" where
  "parseFrame d =
    (if length d < ethHeaderLen then None
     else if be16 (bslice 12 14 d) = etherTypeVLAN then
       (if length d < ethHeaderLen + 4 then None
        else Some \<lparr>data = d, tagged = True, vid = be16 (bslice 14 16 d) AND 0x0fff\<rparr>)
     else Some \<lparr>data = d, tagged = False, vid = 0\<rparr>)"

definition dstMAC :: "frameView \<Rightarrow> mac" where
  "dstMAC f = bslice 0 macLen (data f)"

definition srcMAC :: "frameView \<Rightarrow> mac" where
  "srcMAC f = bslice macLen (2 * macLen) (data f)"

definition isMulticast :: "mac \<Rightarrow> bool" where
  "isMulticast m \<longleftrightarrow> m ! 0 AND 0x01 \<noteq> 0"

definition ingressKey :: "PortAttrs \<Rightarrow> frameView \<Rightarrow> int option" where
  "ingressKey attrs f =
    (if VLAN attrs = VLANTrunk then
       (if tagged f then Some (uint (vid f)) else Some untaggedKey)
     else if VLAN attrs = VLANUntaggedOnly then
       (if tagged f then None else Some untaggedKey)
     else (if tagged f then None else Some (VLAN attrs)))"

definition egressEligible :: "PortAttrs \<Rightarrow> PortAttrs \<Rightarrow> int \<Rightarrow> bool" where
  "egressEligible srcAttrs dstAttrs key =
    (if Disabled dstAttrs then False
     else if Isolated srcAttrs \<and> Isolated dstAttrs then False
     else if VLAN dstAttrs = VLANTrunk then True
     else if VLAN dstAttrs = VLANUntaggedOnly then key = untaggedKey
     else key = VLAN dstAttrs)"

text \<open>
  \<^verbatim>\<open>frameVariants\<close> caches the two renderings; a nil cache is \<open>None\<close>, and the methods return
  the variants with the cache they may have filled.
\<close>

record frameVariants =
  fv_f :: frameView
  fv_key :: int
  fv_untagged :: "frame option"
  fv_tagged :: "frame option"

definition untaggedForm :: "frameVariants \<Rightarrow> frame \<times> frameVariants" where
  "untaggedForm v =
    (if \<not> tagged (fv_f v) then (data (fv_f v), v)
     else case fv_untagged v of
       Some out \<Rightarrow> (out, v)
     | None \<Rightarrow> (let d = data (fv_f v);
                  out = blit (blit (replicate (length d - 4) 0) 0 (take 12 d)) 12 (drop 16 d)
              in (out, v\<lparr>fv_untagged := Some out\<rparr>)))"

definition taggedForm :: "frameVariants \<Rightarrow> frame \<times> frameVariants" where
  "taggedForm v =
    (if tagged (fv_f v) then (data (fv_f v), v)
     else case fv_tagged v of
       Some out \<Rightarrow> (out, v)
     | None \<Rightarrow> (let d = data (fv_f v);
                  out0 = blit (replicate (length d + 4) 0) 0 (take 12 d);
                  out1 = blit out0 12 (put_be16 etherTypeVLAN);
                  out2 = blit out1 14 (put_be16 (word_of_int (fv_key v) AND 0x0fff));
                  out = blit out2 16 (drop 12 d)
              in (out, v\<lparr>fv_tagged := Some out\<rparr>)))"

definition egressFrame :: "frameVariants \<Rightarrow> PortAttrs \<Rightarrow> frame \<times> frameVariants" where
  "egressFrame v dstAttrs =
    (if VLAN dstAttrs = VLANTrunk \<and> fv_key v \<noteq> untaggedKey then taggedForm v else untaggedForm v)"

definition newVariants :: "frameView \<Rightarrow> int \<Rightarrow> frameVariants" where
  "newVariants f key = \<lparr>fv_f = f, fv_key = key, fv_untagged = None, fv_tagged = None\<rparr>"

section \<open>Reference renderings\<close>

text \<open>What a frame looks like with its first tag removed, and with a tag for a VLAN inserted.\<close>

definition strip_tag :: "frame \<Rightarrow> frame" where
  "strip_tag d = take 12 d @ drop 16 d"

definition add_tag :: "int \<Rightarrow> frame \<Rightarrow> frame" where
  "add_tag key d = take 12 d @ put_be16 etherTypeVLAN @ put_be16 (word_of_int key AND 0x0fff) @ drop 12 d"

definition render :: "frameView \<Rightarrow> int \<Rightarrow> PortAttrs \<Rightarrow> frame" where
  "render f key dst =
    (if VLAN dst = VLANTrunk \<and> key \<noteq> untaggedKey
     then (if tagged f then data f else add_tag key (data f))
     else (if tagged f then strip_tag (data f) else data f))"

text \<open>A view that came out of \<^verbatim>\<open>parseFrame\<close>, and variants whose caches hold the renderings.\<close>

definition view_wf :: "frameView \<Rightarrow> bool" where
  "view_wf f \<longleftrightarrow> parseFrame (data f) = Some f"

definition variants_wf :: "frameVariants \<Rightarrow> bool" where
  "variants_wf v \<longleftrightarrow> view_wf (fv_f v)
    \<and> (\<forall>o'. fv_untagged v = Some o' \<longrightarrow> o' = strip_tag (data (fv_f v)))
    \<and> (\<forall>o'. fv_tagged v = Some o' \<longrightarrow> o' = add_tag (fv_key v) (data (fv_f v)))"

lemmas vlan_consts = VLANUntaggedOnly_def VLANTrunk_def etherTypeVLAN_def ethHeaderLen_def
  macLen_def untaggedKey_def

section \<open>Parsing\<close>

lemma parseFrame_data: "parseFrame d = Some f \<Longrightarrow> data f = d"
  by (auto simp: parseFrame_def split: if_splits)

lemma parseFrame_wf: "parseFrame d = Some f \<Longrightarrow> view_wf f"
  using parseFrame_data by (simp add: view_wf_def)

lemma view_wf_length: "view_wf f \<Longrightarrow> 14 \<le> length (data f)"
  by (auto simp: view_wf_def parseFrame_def vlan_consts split: if_splits)

lemma view_wf_tagged_length: "view_wf f \<Longrightarrow> tagged f \<Longrightarrow> 18 \<le> length (data f)"
  by (cases f) (auto simp: view_wf_def parseFrame_def vlan_consts split: if_splits)

lemma view_wf_tagged: "view_wf f \<Longrightarrow> tagged f \<longleftrightarrow> be16 (bslice 12 14 (data f)) = 0x8100"
  by (cases f) (auto simp: view_wf_def parseFrame_def vlan_consts split: if_splits)

lemma view_wf_vid:
  "view_wf f \<Longrightarrow> vid f = (if tagged f then be16 (bslice 14 16 (data f)) AND 0x0fff else 0)"
  by (cases f) (auto simp: view_wf_def parseFrame_def vlan_consts split: if_splits)

lemma vid_bound: "parseFrame d = Some f \<Longrightarrow> uint (vid f) < 4096"
  using and_0fff by (auto simp: parseFrame_def split: if_splits)

lemma length_macs: "view_wf f \<Longrightarrow> length (dstMAC f) = 6 \<and> length (srcMAC f) = 6"
  using view_wf_length [of f] by (auto simp: dstMAC_def srcMAC_def macLen_def go_slice)

section \<open>Rendering\<close>

lemma blit_strip:
  "16 \<le> length d \<Longrightarrow>
    blit (blit (replicate (length d - 4) 0) 0 (take 12 d)) 12 (drop 16 d) = strip_tag d"
  by (simp add: blit_fields strip_tag_def)

lemma blit_add:
  "12 \<le> length d \<Longrightarrow>
    blit (blit (blit (blit (replicate (length d + 4) 0) 0 (take 12 d)) 12 (put_be16 t)) 14 (put_be16 k))
      16 (drop 12 d) = take 12 d @ put_be16 t @ put_be16 k @ drop 12 d"
  by (simp add: blit_fields)

lemma untaggedForm_wf:
  assumes "variants_wf v"
  shows "fst (untaggedForm v) = (if tagged (fv_f v) then strip_tag (data (fv_f v)) else data (fv_f v))"
    and "variants_wf (snd (untaggedForm v))"
    and "fv_f (snd (untaggedForm v)) = fv_f v" "fv_key (snd (untaggedForm v)) = fv_key v"
proof -
  have "tagged (fv_f v) \<Longrightarrow> 16 \<le> length (data (fv_f v))"
    using assms view_wf_tagged_length [of "fv_f v"] by (simp add: variants_wf_def)
  then show "fst (untaggedForm v) = (if tagged (fv_f v) then strip_tag (data (fv_f v)) else data (fv_f v))"
    and "variants_wf (snd (untaggedForm v))"
    and "fv_f (snd (untaggedForm v)) = fv_f v" "fv_key (snd (untaggedForm v)) = fv_key v"
    using assms
    by (auto simp: untaggedForm_def variants_wf_def Let_def blit_strip split: option.splits)
qed

lemma taggedForm_wf:
  assumes "variants_wf v"
  shows "fst (taggedForm v) = (if tagged (fv_f v) then data (fv_f v) else add_tag (fv_key v) (data (fv_f v)))"
    and "variants_wf (snd (taggedForm v))"
    and "fv_f (snd (taggedForm v)) = fv_f v" "fv_key (snd (taggedForm v)) = fv_key v"
proof -
  have "12 \<le> length (data (fv_f v))"
    using assms view_wf_length [of "fv_f v"] by (simp add: variants_wf_def)
  then show "fst (taggedForm v) = (if tagged (fv_f v) then data (fv_f v) else add_tag (fv_key v) (data (fv_f v)))"
    and "variants_wf (snd (taggedForm v))"
    and "fv_f (snd (taggedForm v)) = fv_f v" "fv_key (snd (taggedForm v)) = fv_key v"
    using assms
    by (auto simp: taggedForm_def variants_wf_def Let_def blit_add add_tag_def split: option.splits)
qed

lemma egressFrame_wf:
  assumes "variants_wf v"
  shows "fst (egressFrame v dst) = render (fv_f v) (fv_key v) dst"
    and "variants_wf (snd (egressFrame v dst))"
    and "fv_f (snd (egressFrame v dst)) = fv_f v" "fv_key (snd (egressFrame v dst)) = fv_key v"
  using assms by (simp_all add: egressFrame_def render_def taggedForm_wf untaggedForm_wf)

lemma newVariants_wf: "view_wf f \<Longrightarrow> variants_wf (newVariants f key)"
  by (simp add: newVariants_def variants_wf_def)

lemma newVariants_sel [simp]: "fv_f (newVariants f key) = f" "fv_key (newVariants f key) = key"
  by (simp_all add: newVariants_def)

text \<open>Rendering for one port after another: the variants every earlier port has left behind.\<close>

definition after_sends :: "PortAttrs list \<Rightarrow> frameVariants \<Rightarrow> frameVariants" where
  "after_sends ds v = fold (\<lambda>d v. snd (egressFrame v d)) ds v"

lemma after_sends_wf:
  "variants_wf v \<Longrightarrow> variants_wf (after_sends ds v)
    \<and> fv_f (after_sends ds v) = fv_f v \<and> fv_key (after_sends ds v) = fv_key v"
  unfolding after_sends_def by (induction ds arbitrary: v) (auto simp: egressFrame_wf)

section \<open>Tags\<close>

lemma add_tag_parse:
  assumes "view_wf f" "0 \<le> key" "key < 4096"
  shows "parseFrame (add_tag key (data f)) =
    Some \<lparr>data = add_tag key (data f), tagged = True, vid = word_of_int key\<rparr>"
proof -
  have l: "14 \<le> length (data f)" using assms(1) by (rule view_wf_length)
  have m: "(word_of_int key :: u16) AND 0x0fff = word_of_int key"
    using assms(2,3) by (rule word_and_0fff)
  show ?thesis using l m
    by (simp add: parseFrame_def add_tag_def vlan_consts bslice_def and.assoc)
qed

lemma macs_add_tag:
  "view_wf f \<Longrightarrow> parseFrame (add_tag key (data f)) = Some g \<Longrightarrow>
    dstMAC g = dstMAC f \<and> srcMAC g = srcMAC f"
  using view_wf_length [of f] parseFrame_data [of "add_tag key (data f)" g]
  by (simp add: dstMAC_def srcMAC_def macLen_def bslice_def add_tag_def drop_take)

lemma strip_add_tag: "12 \<le> length d \<Longrightarrow> strip_tag (add_tag key d) = d"
  by (simp add: strip_tag_def add_tag_def)

lemma strip_tag_parse:
  assumes "view_wf f" "tagged f" "be16 (bslice 16 18 (data f)) \<noteq> etherTypeVLAN"
  shows "parseFrame (strip_tag (data f)) = Some \<lparr>data = strip_tag (data f), tagged = False, vid = 0\<rparr>"
proof -
  have "18 \<le> length (data f)" using assms(1,2) by (rule view_wf_tagged_length)
  then show ?thesis using assms(3)
    by (simp add: parseFrame_def vlan_consts bslice_def strip_tag_def)
qed

section \<open>Properties\<close>

text \<open>Concrete frames for the witnesses: an untagged broadcast and a doubly tagged frame.\<close>

definition ex_frame :: frame where
  "ex_frame = [0xff, 0xff, 0xff, 0xff, 0xff, 0xff, 0x02, 0, 0, 0, 0, 1, 0x08, 0x06, 0xaa, 0xbb]"

definition ex_double_tagged :: frame where
  "ex_double_tagged = [0x02, 0, 0, 0, 0, 9, 0x02, 0, 0, 0, 0, 1, 0x81, 0, 0, 0, 0x81, 0, 0, 200, 0x08, 0]"

definition ex_attrs :: PortAttrs where
  "ex_attrs = \<lparr>SecurityMAC = None, Isolated = False, VLAN = 100, Disabled = False, BPDUGuard = False,
    LoopDetect = False, StormPPS = 0, STP = False, STPCost = 0, STPPriority = 0\<rparr>"

lemmas eval_frame = parseFrame_def vlan_consts bslice_def be16_def get_be_def

lemma ex_frame_parse: "parseFrame ex_frame = Some \<lparr>data = ex_frame, tagged = False, vid = 0\<rparr>"
  by (simp add: eval_frame ex_frame_def)

text \<open>
  The lazily cached renderings are transparent: whatever ports a frame has been rendered for
  before, the next port gets exactly the reference rendering (its tag kept or added on a trunk in
  a tagged VLAN, and the tag removed otherwise).
\<close>

theorem egress_cache_transparent:
  assumes "parseFrame d = Some f"
  shows "fst (egressFrame (after_sends earlier (newVariants f key)) dst) = render f key dst"
  using after_sends_wf [OF newVariants_wf [OF parseFrame_wf [OF assms]]] by (simp add: egressFrame_wf)

theorem egress_cache_transparent_witness:
  "fst (egressFrame (after_sends [ex_attrs, ex_attrs\<lparr>VLAN := 4095\<rparr>]
      (newVariants \<lparr>data = ex_frame, tagged = False, vid = 0\<rparr> 100)) (ex_attrs\<lparr>VLAN := 4095\<rparr>))
    = render \<lparr>data = ex_frame, tagged = False, vid = 0\<rparr> 100 (ex_attrs\<lparr>VLAN := 4095\<rparr>)"
  by (rule egress_cache_transparent [OF ex_frame_parse])

text \<open>
  Tagging round trip: an untagged frame sent out a trunk in VLAN \<open>key\<close> parses as tagged, is
  classified into the same VLAN by a trunk at the other end, keeps both MAC addresses, and loses
  exactly the inserted tag when that end renders it untagged.
\<close>

theorem tag_round_trip:
  assumes "parseFrame d = Some f" "\<not> tagged f" "1 \<le> key" "key \<le> 4094" "VLAN trunk = VLANTrunk"
  shows "\<exists>g. parseFrame (fst (taggedForm (newVariants f key))) = Some g
    \<and> ingressKey trunk g = Some key \<and> dstMAC g = dstMAC f \<and> srcMAC g = srcMAC f
    \<and> fst (untaggedForm (newVariants g key)) = d"
proof -
  have f: "view_wf f" and d: "data f = d"
    using assms(1) by (rule parseFrame_wf, rule parseFrame_data)
  let ?g = "\<lparr>data = add_tag key d, tagged = True, vid = word_of_int key\<rparr>"
  have out: "fst (taggedForm (newVariants f key)) = add_tag key d"
    using taggedForm_wf(1) [OF newVariants_wf [OF f], of key] assms(2) d by simp
  have p: "parseFrame (add_tag key d) = Some ?g"
    using add_tag_parse [OF f, of key] assms(3,4) d by simp
  have "uint (word_of_int key :: u16) = key"
    using assms(3,4) by (simp add: unsigned_of_int take_bit_int_eq_self)
  then have k: "ingressKey trunk ?g = Some key" using assms(5) by (simp add: ingressKey_def)
  have "strip_tag (add_tag key d) = d"
    using view_wf_length [OF f] d by (intro strip_add_tag) simp
  then have u: "fst (untaggedForm (newVariants ?g key)) = d"
    using untaggedForm_wf(1) [OF newVariants_wf [OF parseFrame_wf [OF p]], of key] by simp
  have "dstMAC ?g = dstMAC f \<and> srcMAC ?g = srcMAC f"
    using macs_add_tag [OF f, of key ?g] p d by simp
  then show ?thesis using out p k u by auto
qed

theorem tag_round_trip_witness:
  "\<exists>g. parseFrame (fst (taggedForm (newVariants \<lparr>data = ex_frame, tagged = False, vid = 0\<rparr> 100))) = Some g
    \<and> ingressKey (ex_attrs\<lparr>VLAN := 4095\<rparr>) g = Some 100
    \<and> dstMAC g = dstMAC \<lparr>data = ex_frame, tagged = False, vid = 0\<rparr>
    \<and> srcMAC g = srcMAC \<lparr>data = ex_frame, tagged = False, vid = 0\<rparr>
    \<and> fst (untaggedForm (newVariants g 100)) = ex_frame"
  by (rule tag_round_trip [OF ex_frame_parse]) (simp_all add: VLANTrunk_def)

text \<open>
  A port that is not a trunk sends out frames with no VLAN tag, provided a tagged frame that
  came in did not carry a second tag behind the first.
\<close>

theorem access_egress_untagged:
  assumes "parseFrame d = Some f" "VLAN dst \<noteq> VLANTrunk"
    "tagged f \<Longrightarrow> be16 (bslice 16 18 d) \<noteq> etherTypeVLAN"
  shows "\<exists>g. parseFrame (fst (egressFrame (newVariants f key) dst)) = Some g \<and> \<not> tagged g"
proof -
  have f: "view_wf f" and d: "data f = d"
    using assms(1) by (rule parseFrame_wf, rule parseFrame_data)
  have "fst (egressFrame (newVariants f key) dst) = (if tagged f then strip_tag d else d)"
    using egressFrame_wf(1) [OF newVariants_wf [OF f], of key dst] assms(2) d by (simp add: render_def)
  then show ?thesis using strip_tag_parse [OF f] assms(1,3) d by auto
qed

theorem access_egress_untagged_witness:
  "\<exists>g. parseFrame (fst (egressFrame (newVariants \<lparr>data = ex_frame, tagged = False, vid = 0\<rparr> 100) ex_attrs)) = Some g
    \<and> \<not> tagged g"
  by (rule access_egress_untagged [OF ex_frame_parse]) (simp_all add: VLANTrunk_def ex_attrs_def)

text \<open>
  The proviso is needed: \<^verbatim>\<open>port.go\<close> says a VLAN 0 port emits only untagged frames, but a frame with
  a priority tag (VID 0) and a second tag behind it, received on a trunk, is put into the untagged
  domain, is eligible for a VLAN 0 port, and leaves that port tagged (here with VID 200).
\<close>

lemma vlan0_port_emits_tagged:
  "\<exists>f g. parseFrame ex_double_tagged = Some f
    \<and> ingressKey (ex_attrs\<lparr>VLAN := VLANTrunk\<rparr>) f = Some untaggedKey
    \<and> egressEligible (ex_attrs\<lparr>VLAN := VLANTrunk\<rparr>) (ex_attrs\<lparr>VLAN := VLANUntaggedOnly\<rparr>) untaggedKey
    \<and> parseFrame (fst (egressFrame (newVariants f untaggedKey) (ex_attrs\<lparr>VLAN := VLANUntaggedOnly\<rparr>))) = Some g
    \<and> tagged g \<and> vid g = 200"
  by (simp add: eval_frame ex_double_tagged_def ex_attrs_def ingressKey_def egressEligible_def
      egressFrame_def untaggedForm_def newVariants_def blit_def Let_def)

end
