(* ===== verification/Fdb.thy ===== *)
theory Fdb
  imports Vlan
begin

text \<open>
  The forwarding database (\<^verbatim>\<open>internal/switchcore/fdb.go\<close>): (VLAN, MAC) to port, with aging of
  learned entries and administrator-managed static entries. Every operation takes the clock
  reading it would get from \<^verbatim>\<open>f.now()\<close> as its argument; times and durations are nanoseconds.
  A \<open>*portEntry\<close> is a reference into the switch's store of port entries.
\<close>

section \<open>Data and operations\<close>

type_synonym eref = nat
type_synonym fdbKey = "int \<times> mac"

record fdbEntry =
  portID :: string
  fport :: "eref option"
  lastSeen :: time
  static :: bool

record fdb =
  fm :: "(fdbKey, fdbEntry) gomap"
  maxAge :: int

definition newFDB :: "int \<Rightarrow> fdb" where
  "newFDB age = \<lparr>fm = [], maxAge = age\<rparr>"

definition learn :: "time \<Rightarrow> int \<Rightarrow> mac \<Rightarrow> string \<Rightarrow> eref \<Rightarrow> fdb \<Rightarrow> fdb" where
  "learn now vlan mac src_id src f =
    (let k = (vlan, mac);
         put = f\<lparr>fm := mput k \<lparr>portID = src_id, fport = Some src, lastSeen = now, static = False\<rparr> (fm f)\<rparr>
     in case mget (fm f) k of
       None \<Rightarrow> put
     | Some e \<Rightarrow> if \<not> static e then put else f)"

text \<open>The miss result \<^verbatim>\<open>(nil, "")\<close> is \<open>(None, '''')\<close>.\<close>

definition lookup :: "time \<Rightarrow> int \<Rightarrow> mac \<Rightarrow> fdb \<Rightarrow> eref option \<times> string" where
  "lookup now vlan mac f =
    (case mget (fm f) (vlan, mac) of
       None \<Rightarrow> (None, '''')
     | Some e \<Rightarrow> if \<not> static e \<and> now - lastSeen e > maxAge f then (None, '''')
                else (fport e, portID e))"

definition setMaxAge :: "int \<Rightarrow> fdb \<Rightarrow> fdb" where
  "setMaxAge d f = f\<lparr>maxAge := d\<rparr>"

definition getMaxAge :: "fdb \<Rightarrow> int" where
  "getMaxAge f = maxAge f"

definition addStatic :: "time \<Rightarrow> int \<Rightarrow> mac \<Rightarrow> string \<Rightarrow> fdb \<Rightarrow> fdb" where
  "addStatic now vlan mac pid f =
    f\<lparr>fm := mput (vlan, mac) \<lparr>portID = pid, fport = None, lastSeen = now, static = True\<rparr> (fm f)\<rparr>"

datatype fdb_error = StaticNotFound | EntryNotFound | EntryIsStatic

definition removeStatic :: "int \<Rightarrow> mac \<Rightarrow> fdb \<Rightarrow> fdb_error + fdb" where
  "removeStatic vlan mac f =
    (case mget (fm f) (vlan, mac) of
       None \<Rightarrow> Inl StaticNotFound
     | Some e \<Rightarrow> if \<not> static e then Inl StaticNotFound
                else Inr (f\<lparr>fm := mdel (vlan, mac) (fm f)\<rparr>))"

definition removeDynamic :: "int \<Rightarrow> mac \<Rightarrow> fdb \<Rightarrow> fdb_error + fdb" where
  "removeDynamic vlan mac f =
    (case mget (fm f) (vlan, mac) of
       None \<Rightarrow> Inl EntryNotFound
     | Some e \<Rightarrow> if static e then Inl EntryIsStatic
                else Inr (f\<lparr>fm := mdel (vlan, mac) (fm f)\<rparr>))"

definition flushPort :: "string \<Rightarrow> fdb \<Rightarrow> fdb" where
  "flushPort pid f = f\<lparr>fm := mkeep (\<lambda>k e. \<not> (\<not> static e \<and> portID e = pid)) (fm f)\<rparr>"

definition flush_hit :: "string \<Rightarrow> int option \<Rightarrow> fdbKey \<Rightarrow> fdbEntry \<Rightarrow> bool" where
  "flush_hit pid vlan k e =
    (if static e then False
     else if pid \<noteq> '''' \<and> portID e \<noteq> pid then False
     else case vlan of Some v \<Rightarrow> fst k = v | None \<Rightarrow> True)"

definition flush :: "string \<Rightarrow> int option \<Rightarrow> fdb \<Rightarrow> nat \<times> fdb" where
  "flush pid vlan f =
    (length (filter (\<lambda>(k, e). flush_hit pid vlan k e) (fm f)),
     f\<lparr>fm := mkeep (\<lambda>k e. \<not> flush_hit pid vlan k e) (fm f)\<rparr>)"

definition expire :: "time \<Rightarrow> fdb \<Rightarrow> fdb" where
  "expire now f =
    (let cutoff = now - maxAge f
     in f\<lparr>fm := mkeep (\<lambda>k e. \<not> (\<not> static e \<and> lastSeen e < cutoff)) (fm f)\<rparr>)"

record FDBEntry =
  fe_VLAN :: int
  fe_MAC :: string
  fe_PortID :: string
  fe_Age :: int
  fe_Static :: bool

definition hexdigits :: string where "hexdigits = ''0123456789abcdef''"

fun macString_from :: "nat \<Rightarrow> mac \<Rightarrow> string" where
  "macString_from i [] = []"
| "macString_from i (b # bs) =
    (if i > 0 then '':'' else []) @
    [hexdigits ! unat (drop_bit 4 b), hexdigits ! unat (b AND 0xf)] @ macString_from (Suc i) bs"

definition macString :: "mac \<Rightarrow> string" where
  "macString m = macString_from 0 m"

definition snapshot :: "time \<Rightarrow> fdb \<Rightarrow> FDBEntry list" where
  "snapshot now f =
    map (\<lambda>(k, e). \<lparr>fe_VLAN = fst k, fe_MAC = macString (snd k), fe_PortID = portID e,
                    fe_Age = (if static e then 0 else now - lastSeen e), fe_Static = static e\<rparr>)
      (filter (\<lambda>(k, e). \<not> (\<not> static e \<and> now - lastSeen e > maxAge f)) (fm f))"

definition macKey :: "byte list \<Rightarrow> mac option" where
  "macKey m = (if length m \<noteq> macLen then None else Some m)"

section \<open>Abstract specification\<close>

text \<open>
  What a client of the table sees: the administrator's table, and the learned entries with the
  time they were last refreshed. The administrator's table answers first; a learned entry answers
  while it is at most \<open>maxAge\<close> old.
\<close>

definition admin :: "fdb \<Rightarrow> fdbKey \<Rightarrow> string option" where
  "admin f k = (case mget (fm f) k of Some e \<Rightarrow> if static e then Some (portID e) else None | None \<Rightarrow> None)"

definition learned :: "fdb \<Rightarrow> fdbKey \<Rightarrow> (string \<times> eref option \<times> time) option" where
  "learned f k =
    (case mget (fm f) k of
       Some e \<Rightarrow> if static e then None else Some (portID e, fport e, lastSeen e)
     | None \<Rightarrow> None)"

definition fdb_wf :: "fdb \<Rightarrow> bool" where
  "fdb_wf f \<longleftrightarrow> mwf (fm f) \<and> (\<forall>k e. mget (fm f) k = Some e \<longrightarrow> portID e \<noteq> '''' \<and> (static e \<longleftrightarrow> fport e = None))"

text \<open>The abstract table and its operations; a table operation as data, to speak of runs.\<close>

record fdb_spec =
  pinned :: "fdbKey \<Rightarrow> string option"
  heard :: "fdbKey \<Rightarrow> (string \<times> eref option \<times> time) option"
  age :: int

datatype dyn_op =
    Learn time int mac string eref
  | SetMaxAge int
  | RemoveDynamic int mac
  | FlushPort string
  | Flush string "int option"
  | Expire time

datatype fdb_op = Dyn dyn_op | AddStatic time int mac string | RemoveStatic int mac

text \<open>Running an operation on the table: an operation that returns an error leaves it as it was.\<close>

fun exec_dyn :: "dyn_op \<Rightarrow> fdb \<Rightarrow> fdb" where
  "exec_dyn (Learn t v m i r) f = learn t v m i r f"
| "exec_dyn (SetMaxAge d) f = setMaxAge d f"
| "exec_dyn (RemoveDynamic v m) f = (case removeDynamic v m f of Inl _ \<Rightarrow> f | Inr f' \<Rightarrow> f')"
| "exec_dyn (FlushPort p) f = flushPort p f"
| "exec_dyn (Flush p v) f = snd (flush p v f)"
| "exec_dyn (Expire t) f = expire t f"

fun exec_fdb :: "fdb_op \<Rightarrow> fdb \<Rightarrow> fdb" where
  "exec_fdb (Dyn d) f = exec_dyn d f"
| "exec_fdb (AddStatic t v m p) f = addStatic t v m p f"
| "exec_fdb (RemoveStatic v m) f = (case removeStatic v m f of Inl _ \<Rightarrow> f | Inr f' \<Rightarrow> f')"

definition drop_heard :: "(fdbKey \<Rightarrow> string \<Rightarrow> time \<Rightarrow> bool) \<Rightarrow> fdb_spec \<Rightarrow> fdb_spec" where
  "drop_heard P s = s\<lparr>heard := (\<lambda>k. case heard s k of None \<Rightarrow> None
     | Some (p, r, t) \<Rightarrow> if P k p t then None else Some (p, r, t))\<rparr>"

fun spec_exec :: "fdb_op \<Rightarrow> fdb_spec \<Rightarrow> fdb_spec" where
  "spec_exec (Dyn (Learn t v m i r)) s =
    (if pinned s (v, m) \<noteq> None then s else s\<lparr>heard := (heard s)((v, m) \<mapsto> (i, Some r, t))\<rparr>)"
| "spec_exec (Dyn (SetMaxAge d)) s = s\<lparr>age := d\<rparr>"
| "spec_exec (Dyn (RemoveDynamic v m)) s = drop_heard (\<lambda>k p t. k = (v, m)) s"
| "spec_exec (Dyn (FlushPort pid)) s = drop_heard (\<lambda>k p t. p = pid) s"
| "spec_exec (Dyn (Flush pid v)) s =
    drop_heard (\<lambda>k p t. (pid = '''' \<or> p = pid) \<and> (v = None \<or> v = Some (fst k))) s"
| "spec_exec (Dyn (Expire now)) s = drop_heard (\<lambda>k p t. t < now - age s) s"
| "spec_exec (AddStatic t v m p) s =
    s\<lparr>pinned := (pinned s)((v, m) \<mapsto> p), heard := (heard s)((v, m) := None)\<rparr>"
| "spec_exec (RemoveStatic v m) s = s\<lparr>pinned := (pinned s)((v, m) := None)\<rparr>"

definition spec_lookup :: "time \<Rightarrow> fdbKey \<Rightarrow> fdb_spec \<Rightarrow> eref option \<times> string" where
  "spec_lookup now k s =
    (case pinned s k of Some p \<Rightarrow> (None, p)
     | None \<Rightarrow> (case heard s k of
         Some (p, r, t) \<Rightarrow> if now - t > age s then (None, '''') else (r, p)
       | None \<Rightarrow> (None, '''')))"

definition fdb_abs :: "fdb \<Rightarrow> fdb_spec" where
  "fdb_abs f = \<lparr>pinned = admin f, heard = learned f, age = maxAge f\<rparr>"

text \<open>Operations whose port identifier is not empty, as every caller ensures.\<close>

fun op_ok :: "fdb_op \<Rightarrow> bool" where
  "op_ok (Dyn (Learn t v m i r)) = (i \<noteq> '''')"
| "op_ok (AddStatic t v m p) = (p \<noteq> '''')"
| "op_ok _ = True"

section \<open>Laws\<close>

lemma fdb_wf_mwf [simp]: "fdb_wf f \<Longrightarrow> mwf (fm f)"
  by (simp add: fdb_wf_def)

lemma fdb_wf_entry:
  "fdb_wf f \<Longrightarrow> mget (fm f) k = Some e \<Longrightarrow> portID e \<noteq> '''' \<and> (static e \<longleftrightarrow> fport e = None)"
  by (cases k) (auto simp: fdb_wf_def)

lemma fdb_wf_new: "fdb_wf (newFDB a)"
  by (simp add: fdb_wf_def newFDB_def)

lemma fdb_wf_put:
  "fdb_wf f \<Longrightarrow> portID e \<noteq> '''' \<Longrightarrow> (static e \<longleftrightarrow> fport e = None) \<Longrightarrow> fdb_wf (f\<lparr>fm := mput k e (fm f)\<rparr>)"
  by (auto simp: fdb_wf_def go_map split: if_splits)

lemma fdb_wf_del: "fdb_wf f \<Longrightarrow> fdb_wf (f\<lparr>fm := mdel k (fm f)\<rparr>)"
  by (auto simp: fdb_wf_def go_map split: if_splits)

lemma fdb_wf_keep: "fdb_wf f \<Longrightarrow> fdb_wf (f\<lparr>fm := mkeep P (fm f)\<rparr>)"
  by (auto simp: fdb_wf_def go_map split: if_splits option.splits)

lemma exec_dyn_wf:
  assumes "fdb_wf f" "op_ok (Dyn d)"
  shows "fdb_wf (exec_dyn d f)"
proof (cases d)
  case (Learn t v m i r)
  with assms show ?thesis
    by (auto simp: learn_def Let_def intro!: fdb_wf_put split: option.splits)
next
  case (SetMaxAge x)
  with assms show ?thesis by (simp add: setMaxAge_def fdb_wf_def)
next
  case (RemoveDynamic v m)
  with assms show ?thesis by (auto simp: removeDynamic_def intro: fdb_wf_del split: option.splits)
qed (use assms in \<open>auto simp: flushPort_def flush_def expire_def Let_def intro: fdb_wf_keep\<close>)

lemma exec_fdb_wf:
  assumes "fdb_wf f" "op_ok op"
  shows "fdb_wf (exec_fdb op f)"
proof (cases op)
  case (RemoveStatic v m)
  with assms show ?thesis by (auto simp: removeStatic_def intro: fdb_wf_del split: option.splits)
qed (use assms in \<open>auto simp: addStatic_def intro: exec_dyn_wf fdb_wf_put\<close>)

lemma admin_keep:
  assumes "fdb_wf f" "\<And>k e. static e \<Longrightarrow> P k e"
  shows "admin (f\<lparr>fm := mkeep P (fm f)\<rparr>) k = admin f k"
  using assms by (auto simp: admin_def learned_def go_map split: option.splits)

lemma fdb_abs_keep:
  assumes "fdb_wf f" "\<And>k e. static e \<Longrightarrow> P k e"
    "\<And>k e. \<not> static e \<Longrightarrow> \<not> P k e \<longleftrightarrow> Q k (portID e) (lastSeen e)"
  shows "fdb_abs (f\<lparr>fm := mkeep P (fm f)\<rparr>) = drop_heard Q (fdb_abs f)"
proof -
  have "admin (f\<lparr>fm := mkeep P (fm f)\<rparr>) = admin f"
    using admin_keep [OF assms(1,2)] by (simp add: fun_eq_iff)
  moreover have "learned (f\<lparr>fm := mkeep P (fm f)\<rparr>) k =
      (case learned f k of None \<Rightarrow> None | Some (p, r, t) \<Rightarrow> if Q k p t then None else Some (p, r, t))" for k
    using assms(1) assms(2,3) [where k = k]
    by (cases "mget (fm f) k") (auto simp: learned_def go_map)
  ultimately show ?thesis by (simp add: fdb_abs_def drop_heard_def fun_eq_iff)
qed

lemma fdb_abs_learn:
  "fdb_abs (learn t v m i r f) = spec_exec (Dyn (Learn t v m i r)) (fdb_abs f)"
  by (auto simp: learn_def fdb_abs_def admin_def learned_def fun_eq_iff Let_def go_map split: option.splits)

lemma fdb_abs_addStatic:
  "fdb_abs (addStatic t v m p f) = spec_exec (AddStatic t v m p) (fdb_abs f)"
  by (auto simp: addStatic_def fdb_abs_def admin_def learned_def fun_eq_iff go_map split: option.splits)

lemma fdb_abs_removeDynamic:
  "fdb_abs (exec_dyn (RemoveDynamic v m) f) = spec_exec (Dyn (RemoveDynamic v m)) (fdb_abs f)"
  by (auto simp: removeDynamic_def fdb_abs_def admin_def learned_def fun_eq_iff go_map drop_heard_def
      split: option.splits)

lemma fdb_abs_removeStatic:
  "fdb_abs (exec_fdb (RemoveStatic v m) f) = spec_exec (RemoveStatic v m) (fdb_abs f)"
  by (auto simp: removeStatic_def fdb_abs_def admin_def learned_def fun_eq_iff go_map split: option.splits)

lemma fdb_abs_exec:
  assumes "fdb_wf f"
  shows "fdb_abs (exec_fdb op f) = spec_exec op (fdb_abs f)"
proof (cases op)
  case (Dyn d)
  show ?thesis
  proof (cases d)
    case (FlushPort p)
    have "fdb_abs (flushPort p f) = drop_heard (\<lambda>k q t. q = p) (fdb_abs f)"
      unfolding flushPort_def by (rule fdb_abs_keep [OF assms]) auto
    with Dyn FlushPort show ?thesis by simp
  next
    case (Flush p v)
    have "fdb_abs (snd (flush p v f)) =
        drop_heard (\<lambda>k q t. (p = '''' \<or> q = p) \<and> (v = None \<or> v = Some (fst k))) (fdb_abs f)"
      unfolding flush_def snd_conv
      by (rule fdb_abs_keep [OF assms]) (auto simp: flush_hit_def split: option.splits)
    with Dyn Flush show ?thesis by simp
  next
    case (Expire t)
    have "fdb_abs (expire t f) = drop_heard (\<lambda>k q s. s < t - maxAge f) (fdb_abs f)"
      unfolding expire_def Let_def by (rule fdb_abs_keep [OF assms]) auto
    with Dyn Expire show ?thesis by (simp add: fdb_abs_def)
  next
    case (SetMaxAge x)
    with Dyn show ?thesis by (simp add: setMaxAge_def fdb_abs_def admin_def learned_def fun_eq_iff)
  qed (use Dyn fdb_abs_learn fdb_abs_removeDynamic in auto)
qed (use fdb_abs_addStatic fdb_abs_removeStatic in auto)

lemma lookup_spec: "fdb_wf f \<Longrightarrow> lookup now v m f = spec_lookup now (v, m) (fdb_abs f)"
  using fdb_wf_entry [of f "(v, m)"]
  by (auto simp: lookup_def spec_lookup_def fdb_abs_def admin_def learned_def split: option.splits)

section \<open>MAC strings\<close>

lemma nibbles: "unat (drop_bit 4 (b :: byte)) = unat b div 16" "unat (b AND 0xf) = unat b mod 16"
proof -
  show "unat (drop_bit 4 b) = unat b div 16" by (simp add: drop_bit_eq_div unat_div)
  have "b AND 0xf = take_bit 4 b" by (simp add: take_bit_eq_mask mask_eq_exp_minus_1)
  then show "unat (b AND 0xf) = unat b mod 16" by (simp add: take_bit_eq_mod unat_mod_distrib)
qed

lemma hexdigits_inj: "i < 16 \<Longrightarrow> j < 16 \<Longrightarrow> hexdigits ! i = hexdigits ! j \<longleftrightarrow> i = j"
proof -
  have "distinct hexdigits" "length hexdigits = 16" by (simp_all add: hexdigits_def)
  then show "i < 16 \<Longrightarrow> j < 16 \<Longrightarrow> hexdigits ! i = hexdigits ! j \<longleftrightarrow> i = j"
    by (simp add: nth_eq_iff_index_eq)
qed

lemma hexbyte_inj:
  "hexdigits ! unat (drop_bit 4 b) = hexdigits ! unat (drop_bit 4 c) \<Longrightarrow>
    hexdigits ! unat (b AND 0xf) = hexdigits ! unat (c AND 0xf) \<Longrightarrow> b = (c :: byte)"
proof -
  assume "hexdigits ! unat (drop_bit 4 b) = hexdigits ! unat (drop_bit 4 c)"
    and "hexdigits ! unat (b AND 0xf) = hexdigits ! unat (c AND 0xf)"
  moreover have "unat b div 16 < 16" "unat c div 16 < 16"
    using unat_bound(1) [of b] unat_bound(1) [of c] by simp_all
  ultimately have "unat b div 16 = unat c div 16" "unat b mod 16 = unat c mod 16"
    by (simp_all add: nibbles hexdigits_inj)
  then have "unat b = unat c" by (metis div_mult_mod_eq)
  then show "b = c" by (rule unsigned_word_eqI)
qed

lemma macString_from_inj:
  "length m = length n \<Longrightarrow> macString_from i m = macString_from i n \<Longrightarrow> m = n"
  by (induction m n arbitrary: i rule: list_induct2) (auto dest: hexbyte_inj split: if_splits)

lemma macString_inj: "length m = length n \<Longrightarrow> macString m = macString n \<longleftrightarrow> m = n"
  using macString_from_inj by (auto simp: macString_def)

section \<open>The interface the switch relies on\<close>

text \<open>
  A forwarding table as its client sees it: stations are heard on ports, pinned stations answer
  with their pinned port whatever is heard, and hearing one station leaves the others alone.
\<close>

locale forwarding_table =
  fixes ok :: "'s \<Rightarrow> bool"
    and seek :: "time \<Rightarrow> 'k \<Rightarrow> 's \<Rightarrow> 'r option \<times> string"
    and hear :: "time \<Rightarrow> 'k \<Rightarrow> string \<Rightarrow> 'r \<Rightarrow> 's \<Rightarrow> 's"
    and pin :: "'s \<Rightarrow> 'k \<Rightarrow> string option"
  assumes ok_hear: "ok s \<Longrightarrow> p \<noteq> '''' \<Longrightarrow> ok (hear t k p r s)"
    and seek_pin: "ok s \<Longrightarrow> pin s k = Some p \<Longrightarrow> seek t k s = (None, p)"
    and pin_hear: "pin (hear t k p r s) = pin s"
    and seek_hear: "ok s \<Longrightarrow> p \<noteq> '''' \<Longrightarrow> pin s k = None \<Longrightarrow> seek t k (hear t k p r s) = (Some r, p)"
    and seek_hear_other: "ok s \<Longrightarrow> p \<noteq> '''' \<Longrightarrow> k' \<noteq> k \<Longrightarrow> seek t' k' (hear t k p r s) = seek t' k' s"
begin

definition hear_all :: "(time \<times> 'k \<times> string \<times> 'r) list \<Rightarrow> 's \<Rightarrow> 's" where
  "hear_all hs s = fold (\<lambda>(t, k, p, r). hear t k p r) hs s"

lemma hear_all_other:
  "ok s \<Longrightarrow> \<forall>(t, k', p, r) \<in> set hs. p \<noteq> '''' \<and> k' \<noteq> k \<Longrightarrow> seek t' k (hear_all hs s) = seek t' k s"
  unfolding hear_all_def
proof (induction hs arbitrary: s)
  case (Cons h hs)
  obtain t k' p r where h: "h = (t, k', p, r)" by (cases h)
  with Cons.prems have "p \<noteq> ''''" "k \<noteq> k'" by auto
  with Cons.prems(1) have "ok (hear t k' p r s)" "seek t' k (hear t k' p r s) = seek t' k s"
    by (auto intro: ok_hear seek_hear_other)
  with Cons.IH [of "hear t k' p r s"] Cons.prems(2) h show ?case by simp
qed simp

lemma last_heard_wins:
  assumes "ok s" "p \<noteq> ''''" "pin s k = None" "\<forall>(t, k', p, r) \<in> set later. p \<noteq> '''' \<and> k' \<noteq> k"
  shows "seek t k (hear_all later (hear t k p r s)) = (Some r, p)"
  using hear_all_other [OF ok_hear [OF assms(1,2)] assms(4)] seek_hear [OF assms(1-3)] by simp

lemma pinned_wins: "ok s \<Longrightarrow> pin s k = Some q \<Longrightarrow> p \<noteq> '''' \<Longrightarrow> seek t k (hear t' k' p r s) = (None, q)"
  by (rule seek_pin) (auto simp: pin_hear ok_hear)

end

lemma learn_wf: "fdb_wf f \<Longrightarrow> i \<noteq> '''' \<Longrightarrow> fdb_wf (learn t v m i r f)"
  using exec_dyn_wf [of f "Learn t v m i r"] by simp

lemma admin_learn: "admin (learn t v m i r f) = admin f"
  using fdb_abs_learn [of t v m i r f] by (simp add: fdb_abs_def split: if_splits)

lemma maxAge_learn [simp]: "maxAge (learn t v m i r f) = maxAge f"
  by (simp add: learn_def Let_def split: option.splits)

lemma lookup_learn:
  assumes "fdb_wf f" "i \<noteq> ''''"
  shows "lookup t' v' m' (learn t v m i r f) =
    (if (v', m') = (v, m) \<and> admin f (v, m) = None
     then (if t' - t > maxAge f then (None, '''') else (Some r, i)) else lookup t' v' m' f)"
  using assms
  by (simp add: lookup_spec learn_wf fdb_abs_learn) (auto simp: spec_lookup_def fdb_abs_def split: option.splits)

interpretation station: forwarding_table
  "\<lambda>f. fdb_wf f \<and> 0 \<le> maxAge f"
  "\<lambda>t k f. lookup t (fst k) (snd k) f"
  "\<lambda>t k p r f. learn t (fst k) (snd k) p r f"
  admin
proof unfold_locales
  fix f :: fdb and t k p assume "fdb_wf f \<and> 0 \<le> maxAge f" "admin f k = Some p"
  then show "lookup t (fst k) (snd k) f = (None, p)"
    by (simp add: lookup_spec spec_lookup_def fdb_abs_def)
qed (auto simp: learn_wf admin_learn lookup_learn)

lemma learn_run:
  "fold (\<lambda>(t, k, p, r). learn t (fst k) (snd k) p r) hs f = station.hear_all hs f"
  by (simp add: station.hear_all_def)

interpretation dyn: frame_system
  "\<lambda>d f. if op_ok (Dyn d) then exec_dyn d f else f" admin fdb_wf
proof unfold_locales
  fix f :: fdb and d assume wf: "fdb_wf f"
  show "admin (if op_ok (Dyn d) then exec_dyn d f else f) = admin f"
    using fdb_abs_exec [OF wf, of "Dyn d"]
    by (cases d) (auto simp: fdb_abs_def drop_heard_def split: if_splits)
  show "fdb_wf (if op_ok (Dyn d) then exec_dyn d f else f)"
    using wf exec_dyn_wf by simp
qed

section \<open>Properties\<close>

definition ex_mac :: mac where "ex_mac = [0x02, 0, 0, 0, 0, 0x1f]"

definition ex_ops :: "fdb_op list" where
  "ex_ops = [Dyn (Learn 10 100 ex_mac ''vm1'' 1), AddStatic 20 100 [0x02, 0, 0, 0, 0, 2] ''vm2'',
     Dyn (Flush '''' (Some 200)), Dyn (Expire 25)]"

lemma fdb_abs_run:
  "fdb_wf f \<Longrightarrow> list_all op_ok ops \<Longrightarrow>
    fdb_wf (fold exec_fdb ops f) \<and> fdb_abs (fold exec_fdb ops f) = fold spec_exec ops (fdb_abs f)"
  by (induction ops arbitrary: f) (auto simp: exec_fdb_wf fdb_abs_exec)

text \<open>
  C32. Refinement. Any sequence of table operations on a fresh table, as the switch issues them,
  leaves it representing what the abstract table computes from the same sequence (the
  administrator's pins, the stations heard and when, the aging time), and every lookup at every
  time answers as the abstract table does.
\<close>

theorem fdb_refines_spec:
  assumes "list_all op_ok ops"
  shows "fdb_abs (fold exec_fdb ops (newFDB a)) =
      fold spec_exec ops \<lparr>pinned = \<lambda>_. None, heard = \<lambda>_. None, age = a\<rparr>
    \<and> lookup now v m (fold exec_fdb ops (newFDB a)) =
      spec_lookup now (v, m) (fold spec_exec ops \<lparr>pinned = \<lambda>_. None, heard = \<lambda>_. None, age = a\<rparr>)"
proof -
  have "fdb_abs (newFDB a) = \<lparr>pinned = \<lambda>_. None, heard = \<lambda>_. None, age = a\<rparr>"
    by (simp add: newFDB_def fdb_abs_def admin_def learned_def fun_eq_iff)
  with fdb_abs_run [OF fdb_wf_new assms, of a] show ?thesis
    by (simp add: lookup_spec)
qed

theorem fdb_refines_spec_witness:
  "fdb_abs (fold exec_fdb ex_ops (newFDB 300)) =
      fold spec_exec ex_ops \<lparr>pinned = \<lambda>_. None, heard = \<lambda>_. None, age = 300\<rparr>
    \<and> lookup 50 100 ex_mac (fold exec_fdb ex_ops (newFDB 300)) =
      spec_lookup 50 (100, ex_mac) (fold spec_exec ex_ops \<lparr>pinned = \<lambda>_. None, heard = \<lambda>_. None, age = 300\<rparr>)"
  by (rule fdb_refines_spec) (simp add: ex_ops_def)

text \<open>
  A static entry is authoritative: whatever learning, flushing, expiry, deletion of learned
  entries and changes of the aging time happen, at any time a lookup of its key answers its port.
\<close>

theorem static_entry_survives:
  assumes "fdb_wf f" "admin f (v, m) = Some p" "list_all (\<lambda>d. op_ok (Dyn d)) ds"
  shows "lookup now v m (fold exec_dyn ds f) = (None, p)"
proof -
  let ?run = "fold (\<lambda>d f. if op_ok (Dyn d) then exec_dyn d f else f) ds f"
  have "fold exec_dyn ds f = ?run"
    using assms(3) by (intro fold_cong) (auto simp: list_all_iff)
  moreover have "fdb_wf ?run"
    using assms(1) by (induction ds arbitrary: f) (auto intro: exec_dyn_wf)
  moreover have "admin ?run = admin f"
    using assms(1) by (rule dyn.obs_run)
  ultimately show ?thesis
    using assms(2) by (simp add: lookup_spec spec_lookup_def fdb_abs_def)
qed

theorem static_entry_survives_witness:
  "lookup 999 100 ex_mac (fold exec_dyn [Learn 5 100 ex_mac ''vm9'' 7, Flush '''' None, Expire 900]
      (addStatic 1 100 ex_mac ''vm1'' (newFDB 300))) = (None, ''vm1'')"
  by (rule static_entry_survives)
     (simp_all add: addStatic_def newFDB_def fdb_wf_def admin_def go_map)

text \<open>
  Expiry is only garbage collection: sweeping the table at a time \<open>t\<close> changes no lookup at
  that time or later.
\<close>

theorem expire_unobservable:
  assumes "fdb_wf f" "t \<le> now"
  shows "lookup now v m (expire t f) = lookup now v m f"
proof -
  have "fdb_wf (expire t f)" and a: "fdb_abs (expire t f) = spec_exec (Dyn (Expire t)) (fdb_abs f)"
    using exec_dyn_wf [OF assms(1), of "Expire t"] fdb_abs_exec [OF assms(1), of "Dyn (Expire t)"]
    by simp_all
  with assms show ?thesis
    by (auto simp: lookup_spec spec_lookup_def drop_heard_def fdb_abs_def split: option.splits)
qed

theorem expire_unobservable_witness:
  "lookup 400 100 ex_mac (expire 350 (learn 60 100 ex_mac ''vm1'' 1 (newFDB 300))) =
    lookup 400 100 ex_mac (learn 60 100 ex_mac ''vm1'' 1 (newFDB 300))"
  by (rule expire_unobservable) (simp_all add: fdb_wf_new learn_wf)

text \<open>
  MAC learning: a station just heard on a port is found there, through the entry's direct
  port reference, whatever other stations are heard after it, unless the administrator pinned it.
\<close>

lemma learned_station_found:
  assumes "fdb_wf f" "0 \<le> maxAge f" "i \<noteq> ''''" "admin f (v, m) = None"
    "list_all (\<lambda>(t', k', i', r'). i' \<noteq> '''' \<and> k' \<noteq> (v, m)) later"
  shows "lookup t v m (fold (\<lambda>(t', k', i', r'). learn t' (fst k') (snd k') i' r') later
      (learn t v m i r f)) = (Some r, i)"
  using station.last_heard_wins [of f i "(v, m)" later t r] assms
  by (simp add: learn_run list_all_iff)

lemma length_keep: "length (filter (\<lambda>(k, e). P k e) m) + length (mkeep (\<lambda>k e. \<not> P k e) m) = length m"
  by (induction m) (auto simp: mkeep_def)

text \<open>
  Flushing removes exactly the matching learned entries, reports how many it removed, and
  leaves every other entry, the static ones included, as it was.
\<close>

theorem flush_exact:
  assumes "fdb_wf f" "flush p v f = (n, f')"
  shows "n + length (fm f') = length (fm f)
    \<and> admin f' = admin f
    \<and> (\<forall>k. learned f' k = (case learned f k of
         Some (q, r, t) \<Rightarrow> if (p = '''' \<or> q = p) \<and> (v = None \<or> v = Some (fst k)) then None else Some (q, r, t)
       | None \<Rightarrow> None))"
proof -
  have f': "f' = exec_fdb (Dyn (Flush p v)) f" using assms(2) by simp
  have "fdb_abs f' = spec_exec (Dyn (Flush p v)) (fdb_abs f)"
    unfolding f' using assms(1) by (rule fdb_abs_exec)
  then have "admin f' = admin f" "\<forall>k. learned f' k = heard (spec_exec (Dyn (Flush p v)) (fdb_abs f)) k"
    by (simp_all add: fdb_abs_def drop_heard_def)
  moreover have "n + length (fm f') = length (fm f)"
    using assms(2) length_keep [of "flush_hit p v" "fm f"] by (auto simp: flush_def)
  ultimately show ?thesis by (simp add: fdb_abs_def drop_heard_def)
qed

theorem flush_exact_witness:
  "1 + length (fm (newFDB 300)) = length (fm (learn 5 100 ex_mac ''vm1'' 1 (newFDB 300)))
    \<and> admin (newFDB 300) = admin (learn 5 100 ex_mac ''vm1'' 1 (newFDB 300))
    \<and> (\<forall>k. learned (newFDB 300) k = (case learned (learn 5 100 ex_mac ''vm1'' 1 (newFDB 300)) k of
         Some (q, r, t) \<Rightarrow> if (''vm1'' = '''' \<or> q = ''vm1'') \<and> (None = (None :: int option) \<or> None = Some (fst k))
           then None else Some (q, r, t)
       | None \<Rightarrow> None))"
  by (rule flush_exact)
     (simp_all add: fdb_wf_new learn_wf,
      simp add: flush_def flush_hit_def mkeep_def learn_def newFDB_def mput_def)

end
