(* ===== verification/Storm.thy ===== *)
theory Storm
  imports VS_Prelude "HOL-Library.Log_Nat"
begin

text \<open>
  Storm control (\<^verbatim>\<open>stormBucket.allow\<close> of \<^verbatim>\<open>internal/switchcore/protect.go\<close>): a token bucket whose
  refill is computed in \<^verbatim>\<open>float64\<close>. Deliveries on one port are taken one at a time, so the
  compare-and-swap of the last refill time always succeeds. The floating-point operations are IEEE
  754 binary64 with rounding to nearest even, on rationals (the values stay in the normal range).
\<close>

section \<open>Binary64 arithmetic\<close>

definition rne :: "rat \<Rightarrow> int" where
  "rne y = (let n = \<lfloor>y\<rfloor>; r = y - of_int n
     in if r < 1 / 2 then n else if r > 1 / 2 then n + 1 else if even n then n else n + 1)"

definition ilog2 :: "rat \<Rightarrow> int" where
  "ilog2 x = (if 1 \<le> x then int (floorlog 2 (nat \<lfloor>x\<rfloor>)) - 1
     else - int (floorlog 2 (nat (\<lceil>1 / x\<rceil> - 1))))"

definition pow2 :: "int \<Rightarrow> rat" where
  "pow2 e = (if 0 \<le> e then 2 ^ nat e else 1 / 2 ^ nat (- e))"

text \<open>The binary64 value nearest to a non-negative rational.\<close>

definition f64 :: "rat \<Rightarrow> rat" where
  "f64 x = (if x = 0 then 0 else let e = ilog2 x - 52 in of_int (rne (x / pow2 e)) * pow2 e)"

section \<open>The bucket\<close>

record stormBucket =
  tokens :: int
  lastNano :: int

definition zeroBucket :: stormBucket where
  "zeroBucket = \<lparr>tokens = 0, lastNano = 0\<rparr>"

text \<open>The configured limit as a signed 64-bit number, \<^verbatim>\<open>int64(pps)\<close>.\<close>

definition budget :: "u32 \<Rightarrow> nat" where
  "budget pps = unat pps"

text \<open>\<^verbatim>\<open>int64(float64(elapsed) / 1e9 * float64(pps))\<close>\<close>

definition refill :: "int \<Rightarrow> u32 \<Rightarrow> int" where
  "refill elapsed pps = \<lfloor>f64 (f64 (f64 (of_int elapsed) / 1000000000) * f64 (of_nat (budget pps)))\<rfloor>"

definition allow :: "int \<Rightarrow> u32 \<Rightarrow> stormBucket \<Rightarrow> bool \<times> stormBucket" where
  "allow now pps b =
    (let b1 = (if lastNano b = 0 then \<lparr>tokens = int (budget pps), lastNano = now\<rparr> else b);
         elapsed = now - lastNano b1;
         b2 = (if elapsed > 0
               then \<lparr>tokens = min (tokens b1 + refill elapsed pps) (int (budget pps)), lastNano = now\<rparr>
               else b1);
         t = tokens b2 - 1
     in (t \<ge> 0, b2\<lparr>tokens := t\<rparr>))"

text \<open>A burst of flooded frames arriving at the given times: how many pass, and the bucket left.\<close>

fun passes :: "u32 \<Rightarrow> int list \<Rightarrow> stormBucket \<Rightarrow> nat \<times> stormBucket" where
  "passes pps [] b = (0, b)"
| "passes pps (t # ts) b =
    (let (ok, b') = allow t pps b; (n, b'') = passes pps ts b'
     in (if ok then Suc n else n, b''))"

section \<open>Rounding error\<close>

lemma rne_error: "\<bar>of_int (rne y) - y\<bar> \<le> 1 / 2"
  unfolding rne_def Let_def
  using of_int_floor_le [of y] floor_correct [of y] by (auto simp: abs_le_iff)

lemma pow2_pos: "0 < pow2 e"
  by (simp add: pow2_def)

lemma pow2_minus_52: "pow2 (e - 52) * 2 ^ 52 = pow2 e"
proof -
  consider "52 \<le> e" | "0 \<le> e" "e < 52" | "e < 0" by linarith
  then show ?thesis
  proof cases
    case 1
    then have "nat e = nat (e - 52) + 52" by simp
    with 1 show ?thesis by (simp add: pow2_def power_add)
  next
    case 2
    then have "(2 :: rat) ^ 52 = 2 ^ nat (52 - e) * 2 ^ nat e"
      by (simp flip: power_add add: nat_add_distrib [symmetric])
    with 2 show ?thesis by (simp add: pow2_def field_simps)
  next
    case 3
    then have "nat (52 - e) = nat (- e) + 52" by simp
    with 3 show ?thesis by (simp add: pow2_def power_add)
  qed
qed

lemma pow2_ilog2_le: assumes "0 < x" shows "pow2 (ilog2 x) \<le> x"
proof (cases "1 \<le> x")
  case True
  let ?n = "nat \<lfloor>x\<rfloor>"
  have n: "0 < ?n" using True by simp
  have "2 ^ (floorlog 2 ?n - 1) \<le> ?n" using floorlog_bounds [of ?n 2] n by simp
  then have "(2 :: rat) ^ (floorlog 2 ?n - 1) \<le> of_nat ?n"
    by (metis of_nat_le_iff of_nat_numeral of_nat_power)
  also have "\<dots> \<le> x" using True by simp
  finally have le: "(2 :: rat) ^ (floorlog 2 ?n - 1) \<le> x" .
  have "0 < floorlog 2 ?n" using n by (simp add: floorlog_def)
  then have "nat (int (floorlog 2 ?n) - 1) = floorlog 2 ?n - 1" "0 \<le> int (floorlog 2 ?n) - 1" by simp_all
  with le True show ?thesis by (simp add: ilog2_def pow2_def)
next
  case False
  let ?m = "nat (\<lceil>1 / x\<rceil> - 1)"
  let ?k = "floorlog 2 ?m"
  have "1 < 1 / x" using False assms by simp
  then have m: "0 < ?m" by linarith
  have "?m < 2 ^ ?k" using floorlog_bounds [of ?m 2] m by simp
  then have "int ?m < 2 ^ ?k" by (metis of_nat_less_iff of_nat_numeral of_nat_power)
  then have "\<lceil>1 / x\<rceil> \<le> 2 ^ ?k" using m assms by simp
  then have "1 / x \<le> of_int (2 ^ ?k)" by (simp only: ceiling_le_iff)
  then have "1 / 2 ^ ?k \<le> x" using assms by (simp add: field_simps)
  moreover have "0 < ?k" using m by (simp add: floorlog_def)
  ultimately show ?thesis using False by (simp add: ilog2_def pow2_def)
qed

lemma f64_error:
  assumes "0 \<le> x"
  shows "\<bar>f64 x - x\<bar> \<le> x / 2 ^ 53"
proof (cases "x = 0")
  case False
  let ?p = "pow2 (ilog2 x - 52)"
  have p: "0 < ?p" by (rule pow2_pos)
  have "?p * 2 ^ 52 \<le> x" using assms False pow2_minus_52 pow2_ilog2_le by simp
  then have ph: "?p / 2 \<le> x / 2 ^ 53" by simp
  have "f64 x - x = (of_int (rne (x / ?p)) - x / ?p) * ?p"
    using False p by (simp add: f64_def Let_def field_simps)
  then have "\<bar>f64 x - x\<bar> = \<bar>of_int (rne (x / ?p)) - x / ?p\<bar> * ?p"
    using p by (simp add: abs_mult)
  also have "\<dots> \<le> 1 / 2 * ?p"
    using p rne_error [of "x / ?p"] by (intro mult_right_mono) auto
  finally show ?thesis using ph by simp
qed (simp add: f64_def)

lemma f64_bounds: "0 \<le> x \<Longrightarrow> 0 \<le> f64 x \<and> f64 x \<le> x * (1 + 1 / 2 ^ 53)"
proof -
  assume x: "0 \<le> x"
  then have e: "\<bar>f64 x - x\<bar> \<le> x / 2 ^ 53" by (rule f64_error)
  have "x / 2 ^ 53 \<le> x" using x by simp
  then have "0 \<le> f64 x" using abs_le_D2 [OF e] by linarith
  moreover have "f64 x \<le> x + x / 2 ^ 53" using abs_le_D1 [OF e] by linarith
  ultimately show ?thesis by (simp add: distrib_left)
qed

section \<open>Refill\<close>

definition rate :: "u32 \<Rightarrow> rat" where
  "rate pps = of_nat (budget pps) / 1000000000 * (1 + 1 / 2 ^ 50)"

lemma rate_nonneg: "0 \<le> rate pps"
  by (simp add: rate_def)

lemma refill_bounds:
  assumes "0 \<le> e"
  shows "0 \<le> refill e pps" "of_int (refill e pps) \<le> of_int e * rate pps"
proof -
  let ?K = "1 + 1 / 2 ^ 53 :: rat"
  let ?e = "of_int e :: rat" and ?p = "of_nat (budget pps) :: rat"
  define a where "a = f64 ?e"
  define b where "b = f64 (a / 1000000000)"
  define c where "c = f64 ?p"
  have a: "0 \<le> a" "a \<le> ?e * ?K" using f64_bounds [of ?e] assms by (simp_all add: a_def)
  have b: "0 \<le> b" "b \<le> a / 1000000000 * ?K"
    using f64_bounds [of "a / 1000000000"] a(1) by (simp_all add: b_def)
  have c: "0 \<le> c" "c \<le> ?p * ?K" using f64_bounds [of ?p] by (simp_all add: c_def)
  have d: "0 \<le> f64 (b * c)" "f64 (b * c) \<le> b * c * ?K"
    using f64_bounds [of "b * c"] b(1) c(1) by simp_all
  have "b \<le> ?e * ?K / 1000000000 * ?K"
    using a(2) by (intro order_trans [OF b(2)] mult_right_mono divide_right_mono) simp_all
  then have "b * c \<le> (?e * ?K / 1000000000 * ?K) * (?p * ?K)"
    using c b(1) assms by (intro mult_mono) auto
  then have "b * c * ?K \<le> ?e * (?p / 1000000000) * ?K ^ 4"
    by (simp add: power4_eq_xxxx field_simps)
  moreover have "?e * (?p / 1000000000) * ?K ^ 4 \<le> ?e * (?p / 1000000000) * (1 + 1 / 2 ^ 50)"
    using assms by (intro mult_left_mono) (simp_all add: power4_eq_xxxx)
  moreover have "?e * (?p / 1000000000) * (1 + 1 / 2 ^ 50) = ?e * rate pps" by (simp add: rate_def)
  ultimately have up: "f64 (b * c) \<le> ?e * rate pps" using d(2) by linarith
  have r: "refill e pps = \<lfloor>f64 (b * c)\<rfloor>" by (simp add: refill_def a_def b_def c_def)
  show "0 \<le> refill e pps" using d(1) r by simp
  show "of_int (refill e pps) \<le> ?e * rate pps"
    unfolding r using up of_int_floor_le [of "f64 (b * c)"] by linarith
qed

lemma allow_live:
  assumes "lastNano b \<noteq> 0" "lastNano b \<le> now" "allow now pps b = (ok, b')"
  shows "lastNano b' = now" "ok \<longleftrightarrow> 0 \<le> tokens b'"
    "of_int (tokens b') + 1 \<le> of_int (tokens b) + of_int (now - lastNano b) * rate pps"
proof -
  let ?r = "refill (now - lastNano b) pps"
  have tb: "tokens b' = (if now > lastNano b then min (tokens b + ?r) (int (budget pps)) else tokens b) - 1"
    and "lastNano b' = now" "ok \<longleftrightarrow> 0 \<le> tokens b'"
    using assms by (auto simp: allow_def Let_def)
  then show "lastNano b' = now" "ok \<longleftrightarrow> 0 \<le> tokens b'" by simp_all
  have "tokens b' + 1 \<le> tokens b + ?r"
    using tb refill_bounds(1) [of "now - lastNano b" pps] assms(2) by auto
  then have "of_int (tokens b' + 1) \<le> (of_int (tokens b + ?r) :: rat)" by (simp only: of_int_le_iff)
  then show "of_int (tokens b') + 1 \<le> of_int (tokens b) + of_int (now - lastNano b) * rate pps"
    using refill_bounds(2) [of "now - lastNano b" pps] assms(2) by simp
qed

lemma passes_bound:
  assumes "lastNano b \<noteq> 0" "0 < lastNano b" "sorted (lastNano b # ts)"
  shows "of_nat (fst (passes pps ts b)) \<le>
    max 0 (of_int (tokens b)) + of_int (last (lastNano b # ts) - lastNano b) * rate pps"
  using assms
proof (induction ts arbitrary: b)
  case (Cons t ts)
  obtain ok b' where al: "allow t pps b = (ok, b')" by (cases "allow t pps b")
  note live = allow_live [OF Cons.prems(1) _ al]
  have t: "lastNano b \<le> t" "sorted (t # ts)" using Cons.prems(3) by auto
  let ?n = "fst (passes pps ts b')"
  let ?x = "of_int (tokens b') :: rat" and ?y = "of_int (t - lastNano b) * rate pps"
  let ?z = "of_int (last (t # ts) - t) * rate pps"
  have IH: "of_nat ?n \<le> max 0 ?x + ?z"
    using Cons.IH [of b'] live(1) [OF t(1)] t Cons.prems(2) by simp
  have tok: "?x + 1 \<le> of_int (tokens b) + ?y" using live(3) [OF t(1)] .
  have y: "0 \<le> ?y" using t(1) rate_nonneg by simp
  have "of_nat (fst (passes pps (t # ts) b)) = (if ok then of_nat ?n + 1 else of_nat ?n :: rat)"
    using al by (auto simp: split_beta)
  also have "\<dots> \<le> max 0 (of_int (tokens b)) + ?y + ?z"
    using IH tok y live(2) [OF t(1)] by (cases ok) (auto simp: max_def)
  also have "max 0 (of_int (tokens b)) + ?y + ?z =
      max 0 (of_int (tokens b)) + of_int (last (lastNano b # t # ts) - lastNano b) * rate pps"
    by (simp add: algebra_simps)
  finally show ?case .
qed simp

lemma first_allow:
  "0 < t \<Longrightarrow> 0 < budget pps \<Longrightarrow>
    allow t pps zeroBucket = (True, \<lparr>tokens = int (budget pps) - 1, lastNano = t\<rparr>)"
  by (simp add: allow_def Let_def zeroBucket_def)

section \<open>Properties\<close>

text \<open>
  C33. Storm control limits what it lets through: of the flooded frames a port receives from time
  \<open>t0\<close> on, at most one second's budget plus the elapsed time's share pass, up to the relative
  rounding error \<open>2^-50\<close> of the floating-point refill.
\<close>

theorem storm_limits:
  assumes "0 < t0" "sorted (t0 # ts)" "0 < budget pps"
  shows "of_nat (fst (passes pps (t0 # ts) zeroBucket)) \<le>
    of_nat (budget pps) + of_int (last (t0 # ts) - t0) * (of_nat (budget pps) / 1000000000 * (1 + 1 / 2 ^ 50) :: rat)"
proof -
  let ?b = "\<lparr>tokens = int (budget pps) - 1, lastNano = t0\<rparr>"
  have "of_nat (fst (passes pps ts ?b)) \<le>
      max 0 (of_int (tokens ?b)) + of_int (last (lastNano ?b # ts) - lastNano ?b) * rate pps"
    using assms by (intro passes_bound) simp_all
  moreover have "max 0 (of_int (tokens ?b)) = (of_nat (budget pps) - 1 :: rat)"
    using assms(3) by (simp add: max_def)
  ultimately show ?thesis
    using first_allow [OF assms(1,3)] by (simp add: split_beta rate_def)
qed

theorem storm_limits_witness:
  "of_nat (fst (passes 2 (1 # [1, 2, 3]) zeroBucket)) \<le>
    of_nat (budget 2) + of_int (last (1 # [1, 2, 3]) - 1) * (of_nat (budget 2) / 1000000000 * (1 + 1 / 2 ^ 50) :: rat)"
  by (rule storm_limits) (simp_all add: budget_def)

section \<open>What the limiter does to a port that keeps sending\<close>

lemma refill_zero: "0 \<le> e \<Longrightarrow> of_int e * rate pps < 1 \<Longrightarrow> refill e pps = 0"
  using refill_bounds [of e pps] by linarith

text \<open>Arrivals closer together than the refill of one token.\<close>

fun dense :: "u32 \<Rightarrow> int \<Rightarrow> int list \<Rightarrow> bool" where
  "dense pps t [] = True"
| "dense pps t (u # us) = (t \<le> u \<and> of_int (u - t) * rate pps < 1 \<and> dense pps u us)"

lemma dense_starves:
  "dense pps (lastNano b) ts \<Longrightarrow> 0 < lastNano b \<Longrightarrow> fst (passes pps ts b) \<le> nat (tokens b)"
proof (induction ts arbitrary: b)
  case (Cons t ts)
  obtain ok b' where al: "allow t pps b = (ok, b')" by (cases "allow t pps b")
  have d: "lastNano b \<le> t" "refill (t - lastNano b) pps = 0" "dense pps t ts"
    using Cons.prems refill_zero [of "t - lastNano b" pps] by auto
  have b': "lastNano b' = t" "ok \<longleftrightarrow> 0 \<le> tokens b'" "tokens b' \<le> tokens b - 1"
    using al d(1,2) Cons.prems(2) by (auto simp: allow_def Let_def)
  have "fst (passes pps ts b') \<le> nat (tokens b')"
    using Cons.IH [of b'] d(1,3) b'(1) Cons.prems(2) by simp
  then show ?case using al b'(2,3) by (auto simp: split_beta)
qed simp

text \<open>
  C40. The rate limit is not a rate for a port that keeps sending: when frames arrive closer
  together than one token's refill time, each refill truncates to zero while the refill clock still
  advances, so after the first second's budget nothing passes, however long the port keeps sending.
\<close>

theorem storm_starvation:
  assumes "0 < t0" "0 < budget pps" "dense pps t0 ts"
  shows "fst (passes pps (t0 # ts) zeroBucket) \<le> budget pps"
  using dense_starves [of pps "\<lparr>tokens = int (budget pps) - 1, lastNano = t0\<rparr>" ts] assms
    first_allow [OF assms(1,2)]
  by (simp add: split_beta)

theorem storm_starvation_witness:
  "fst (passes 1000 (1 # [500001, 1000001, 1500001]) zeroBucket) \<le> budget 1000"
  by (rule storm_starvation) (simp_all add: budget_def rate_def)

lemma same_time_debt:
  "lastNano b = t \<Longrightarrow> 0 < t \<Longrightarrow>
    snd (passes pps (replicate n t) b) = \<lparr>tokens = tokens b - int n, lastNano = t\<rparr>"
proof (induction n arbitrary: b)
  case (Suc n)
  have "allow t pps b = (0 \<le> tokens b - 1, \<lparr>tokens = tokens b - 1, lastNano = t\<rparr>)"
    using Suc.prems by (cases b) (simp add: allow_def Let_def)
  then show ?case using Suc.IH [of "\<lparr>tokens = tokens b - 1, lastNano = t\<rparr>"] Suc.prems
    by (simp add: split_beta)
qed (cases b, simp)

text \<open>
  Dropped frames are charged too: a burst of \<open>n\<close> frames leaves the bucket \<open>n - pps\<close> tokens in
  debt, so after a pause \<open>e\<close> whose refill does not cover that debt the next flooded frame is dropped,
  although the port was idle for the whole pause.
\<close>

theorem storm_debt:
  assumes "0 < t0" "0 < budget pps" "0 < e" "refill e pps + int (budget pps) \<le> int n" "0 < n"
  shows "\<not> fst (allow (t0 + e) pps (snd (passes pps (replicate n t0) zeroBucket)))"
proof -
  obtain k where n: "n = Suc k" using assms(5) by (cases n) auto
  have "snd (passes pps (replicate n t0) zeroBucket) = \<lparr>tokens = int (budget pps) - int n, lastNano = t0\<rparr>"
    using same_time_debt [of "\<lparr>tokens = int (budget pps) - 1, lastNano = t0\<rparr>" t0 pps k]
      first_allow [OF assms(1,2)] assms(1) n by (simp add: split_beta)
  then show ?thesis using assms(1,3,4) by (simp add: allow_def Let_def)
qed

theorem storm_debt_witness:
  "\<not> fst (allow (1 + 60000000000) 10 (snd (passes 10 (replicate 1000 1) zeroBucket)))"
proof (rule storm_debt)
  have "of_int (refill 60000000000 10) < (601 :: rat)"
    using refill_bounds(2) [of 60000000000 10] by (simp add: rate_def budget_def)
  then have "refill 60000000000 10 < 601" by linarith
  then show "refill 60000000000 10 + int (budget 10) \<le> int 1000" by (simp add: budget_def)
qed (simp_all add: budget_def)

end
