(* ===== verification/Protect.thy ===== *)
theory Protect
  imports Vlan Storm
begin

text \<open>
  The frame-level part of loop prevention (\<^verbatim>\<open>internal/switchcore/protect.go\<close>): reserved group
  addresses, BPDU recognition, and loop probes. Blocking a port is in the theory of the switch.
\<close>

section \<open>Definitions\<close>

definition isReservedGroupMAC :: "mac \<Rightarrow> bool" where
  "isReservedGroupMAC m \<longleftrightarrow> m ! 0 = 0x01 \<and> m ! 1 = 0x80 \<and> m ! 2 = 0xc2
    \<and> m ! 3 = 0x00 \<and> m ! 4 = 0x00 \<and> m ! 5 AND 0xf0 = 0x00"

definition bpduMAC :: mac where
  "bpduMAC = [0x01, 0x80, 0xc2, 0x00, 0x00, 0x00]"

definition isBPDU :: "mac \<Rightarrow> frame \<Rightarrow> bool" where
  "isBPDU dst fr =
    (if dst \<noteq> bpduMAC then False
     else if length fr < ethHeaderLen + 3 then False
     else if be16 (bslice 12 14 fr) > 1500 then False
     else fr ! 14 = 0x42 \<and> fr ! 15 = 0x42 \<and> fr ! 16 = 0x03)"

definition loopProbeEtherType :: u16 where "loopProbeEtherType = 0x88B5"
definition loopProbeMagic :: u32 where "loopProbeMagic = 0x67767377"
definition defaultLoopProbeInterval :: int where "defaultLoopProbeInterval = 2000000000"

definition loopProbeDst :: mac where
  "loopProbeDst = [0x03, 0x67, 0x76, 0x73, 0x77, 0x00]"

definition buildLoopProbe :: "u64 \<Rightarrow> frame" where
  "buildLoopProbe bridgeID =
    (let f0 = replicate 60 0;
         f1 = blit f0 0 loopProbeDst;
         f2 = f1[6 := 0x02];
         f3 = blit f2 7 (put_be32 (ucast (drop_bit 16 bridgeID)));
         f4 = f3[11 := ucast (drop_bit 8 bridgeID)];
         f5 = blit f4 12 (put_be16 loopProbeEtherType);
         f6 = blit f5 14 (put_be32 loopProbeMagic)
     in blit f6 18 (put_be64 bridgeID))"

definition isOwnLoopProbe :: "u64 \<Rightarrow> frame \<Rightarrow> bool" where
  "isOwnLoopProbe instance_id fr =
    (if length fr < 26 then False
     else if be16 (bslice 12 14 fr) \<noteq> loopProbeEtherType then False
     else if be32 (bslice 14 18 fr) \<noteq> loopProbeMagic then False
     else be64 (bslice 18 26 fr) = instance_id)"

definition newInstanceID :: "byte list \<Rightarrow> u64" where
  "newInstanceID random8 = be64 random8"

section \<open>Loop probes\<close>

text \<open>The probe as the concatenation of its fields.\<close>

lemma buildLoopProbe_fields:
  "buildLoopProbe i = loopProbeDst @ [0x02] @ put_be32 (ucast (drop_bit 16 i)) @ [ucast (drop_bit 8 i)]
    @ put_be16 loopProbeEtherType @ put_be32 loopProbeMagic @ put_be64 i @ replicate 34 0"
proof -
  have z: "(replicate 60 0 :: frame) = replicate 6 0 @ [0] @ replicate 4 0 @ [0] @ replicate 2 0
      @ replicate 4 0 @ replicate 8 0 @ replicate 34 0"
    by (simp flip: replicate_add replicate_Suc add: replicate_app_Cons_same)
  have l: "length loopProbeDst = 6" by (simp add: loopProbeDst_def)
  show ?thesis unfolding buildLoopProbe_def Let_def z using l
    by (simp add: blit_fields)
qed

lemma length_buildLoopProbe [simp]: "length (buildLoopProbe i) = 60"
  by (simp add: buildLoopProbe_fields loopProbeDst_def)

lemma own_probe_iff: "isOwnLoopProbe j (buildLoopProbe i) \<longleftrightarrow> i = j"
proof -
  have l: "length loopProbeDst = 6" by (simp add: loopProbeDst_def)
  have "be16 (bslice 12 14 (buildLoopProbe i)) = loopProbeEtherType"
    "be32 (bslice 14 18 (buildLoopProbe i)) = loopProbeMagic"
    "be64 (bslice 18 26 (buildLoopProbe i)) = i"
    using l by (simp_all add: buildLoopProbe_fields bslice_def)
  then show ?thesis by (simp add: isOwnLoopProbe_def)
qed

lemma probe_parse: "parseFrame (buildLoopProbe i) = Some \<lparr>data = buildLoopProbe i, tagged = False, vid = 0\<rparr>"
proof -
  have "be16 (bslice 12 14 (buildLoopProbe i)) = loopProbeEtherType"
    by (simp add: buildLoopProbe_fields bslice_def loopProbeDst_def)
  then show ?thesis by (simp add: parseFrame_def vlan_consts loopProbeEtherType_def)
qed

lemma probe_dst: "bslice 0 6 (buildLoopProbe i) = loopProbeDst"
  by (simp add: buildLoopProbe_fields bslice_def loopProbeDst_def)

section \<open>Reserved addresses\<close>

lemma bpdu_is_reserved: "isBPDU m fr \<Longrightarrow> isReservedGroupMAC m"
  by (simp add: isBPDU_def isReservedGroupMAC_def bpduMAC_def split: if_splits)

lemma reserved_is_multicast: "isReservedGroupMAC m \<Longrightarrow> isMulticast m"
  by (simp add: isReservedGroupMAC_def isMulticast_def)

lemma probe_not_reserved: "\<not> isReservedGroupMAC loopProbeDst"
  by (simp add: isReservedGroupMAC_def loopProbeDst_def)

end
