(* ===== verification/SwitchState.thy ===== *)
theory SwitchState
  imports Fdb Protect
begin

text \<open>
  The state of the switch (\<^verbatim>\<open>internal/switchcore/switch.go\<close>, data of \<^verbatim>\<open>stp.go\<close>): the store of
  port entries, the registry, the forwarding database, the spanning-tree bridge, and the calls the
  switch has made on ports and hooks, in order.

  Go's \<^verbatim>\<open>*portEntry\<close> values are indices into \<open>store\<close>, which only grows: an entry that was
  unregistered stays there, marked gone, because the forwarding database, cached delivery handles
  and the spanning tree may still hold its pointer. Each operation is one atomic step, as the locks
  of the source make it; the goroutines \<^verbatim>\<open>portChangedLocked\<close> starts are counted in \<open>asyncs\<close> and run
  as steps of their own.
\<close>

section \<open>Spanning-tree data\<close>

datatype stpState = Forwarding | Blocking | Listening | Learning

datatype stpRole = RoleRoot | RoleDesignated | RoleBlocked

record STPConfig =
  Enabled :: bool
  Priority :: u16
  HelloTime :: int
  MaxAge :: int
  ForwardDelay :: int

record priorityVector =
  pv_rootID :: u64
  pv_cost :: u32
  pv_bridgeID :: u64
  pv_portID :: u16

definition better :: "priorityVector \<Rightarrow> priorityVector \<Rightarrow> bool" where
  "better a b =
    (if pv_rootID a \<noteq> pv_rootID b then pv_rootID a < pv_rootID b
     else if pv_cost a \<noteq> pv_cost b then pv_cost a < pv_cost b
     else if pv_bridgeID a \<noteq> pv_bridgeID b then pv_bridgeID a < pv_bridgeID b
     else pv_portID a < pv_portID b)"

record stpPort =
  sp_entry :: eref
  role :: stpRole
  hasInfo :: bool
  info :: priorityVector
  infoAge :: int
  stateTimer :: int

record stpBridge =
  cfg :: STPConfig
  bmac :: mac
  bports :: "(string, stpPort) gomap"
  rootID :: u64
  rootCost :: u32
  rootPort :: string
  tcWhile :: int
  tcnPending :: bool
  lastHello :: int
  bnow :: int

section \<open>Switch data\<close>

record PortStats =
  RxFrames :: u64
  RxBytes :: u64
  RxDropped :: u64
  TxFrames :: u64
  TxBytes :: u64
  TxDropped :: u64
  StormDropped :: u64

definition zeroStats :: PortStats where
  "zeroStats = \<lparr>RxFrames = 0, RxBytes = 0, RxDropped = 0, TxFrames = 0, TxBytes = 0, TxDropped = 0,
    StormDropped = 0\<rparr>"

record portEntry =
  pe_id :: string
  attrs :: PortAttrs
  stats :: PortStats
  gone :: bool
  blockReason :: string
  storm :: stormBucket
  state :: stpState
  portNum :: u16

text \<open>
  Calls out of the switch: \<^verbatim>\<open>port.Send\<close> with the source port identifier of its \<^verbatim>\<open>Meta\<close>,
  \<^verbatim>\<open>port.Close\<close>, and a port-down hook.
\<close>

datatype event = Sent eref string frame | Closed eref | Hook nat string

record switch =
  store :: "portEntry list"
  ports :: "(string, eref) gomap"
  sfdb :: fdb
  instanceID :: u64
  loopProbeNanos :: int
  portNumSeq :: u16
  stp :: stpBridge
  downCB :: "nat list"
  asyncs :: nat
  events :: "event list"
  stopped :: bool

text \<open>Reading and writing through a \<^verbatim>\<open>*portEntry\<close>.\<close>

definition ent :: "switch \<Rightarrow> eref \<Rightarrow> portEntry" where
  "ent s r = store s ! r"

definition upd_ent :: "eref \<Rightarrow> (portEntry \<Rightarrow> portEntry) \<Rightarrow> switch \<Rightarrow> switch" where
  "upd_ent r f s = s\<lparr>store := (store s)[r := f (store s ! r)]\<rparr>"

definition set_state :: "eref \<Rightarrow> stpState \<Rightarrow> switch \<Rightarrow> switch" where
  "set_state r st s = upd_ent r (\<lambda>e. e\<lparr>state := st\<rparr>) s"

definition upd_stats :: "eref \<Rightarrow> (PortStats \<Rightarrow> PortStats) \<Rightarrow> switch \<Rightarrow> switch" where
  "upd_stats r f s = upd_ent r (\<lambda>e. e\<lparr>stats := f (stats e)\<rparr>) s"

definition emit :: "event \<Rightarrow> switch \<Rightarrow> switch" where
  "emit ev s = s\<lparr>events := events s @ [ev]\<rparr>"

definition upd_fdb :: "(fdb \<Rightarrow> fdb) \<Rightarrow> switch \<Rightarrow> switch" where
  "upd_fdb f s = s\<lparr>sfdb := f (sfdb s)\<rparr>"

definition upd_stp :: "(stpBridge \<Rightarrow> stpBridge) \<Rightarrow> switch \<Rightarrow> switch" where
  "upd_stp f s = s\<lparr>stp := f (stp s)\<rparr>"

definition put_sp :: "string \<Rightarrow> stpPort \<Rightarrow> switch \<Rightarrow> switch" where
  "put_sp pid sp s = upd_stp (\<lambda>b. b\<lparr>bports := mput pid sp (bports b)\<rparr>) s"

lemmas upd_defs = upd_ent_def set_state_def upd_stats_def emit_def upd_fdb_def upd_stp_def put_sp_def

section \<open>Bridge identifiers and BPDU frames\<close>

definition bridgeID :: "stpBridge \<Rightarrow> u64" where
  "bridgeID b =
    push_bit 48 (ucast (Priority (cfg b))) OR
    push_bit 40 (ucast (bmac b ! 0)) OR push_bit 32 (ucast (bmac b ! 1)) OR push_bit 24 (ucast (bmac b ! 2)) OR
    push_bit 16 (ucast (bmac b ! 3)) OR push_bit 8 (ucast (bmac b ! 4)) OR ucast (bmac b ! 5)"

definition portID_of :: "byte \<Rightarrow> u16 \<Rightarrow> u16" where
  "portID_of prio num = push_bit 8 (ucast prio) OR (num AND 0xff)"

definition portCost :: "switch \<Rightarrow> stpPort \<Rightarrow> u32" where
  "portCost s sp = (let c = STPCost (attrs (ent s (sp_entry sp))) in if c > 0 then c else 100)"

definition portIDValue :: "switch \<Rightarrow> stpPort \<Rightarrow> u16" where
  "portIDValue s sp =
    (let prio = STPPriority (attrs (ent s (sp_entry sp)));
         prio = (if prio = 0 then 128 else prio)
     in portID_of prio (portNum (ent s (sp_entry sp))))"

definition defaultSTPConfig :: STPConfig where
  "defaultSTPConfig = \<lparr>Enabled = False, Priority = 32768, HelloTime = 2000000000,
    MaxAge = 20000000000, ForwardDelay = 15000000000\<rparr>"

definition newSTPBridge :: "u64 \<Rightarrow> stpBridge" where
  "newSTPBridge iid =
    \<lparr>cfg = defaultSTPConfig,
     bmac = [0x02] @ put_be32 (ucast (drop_bit 24 iid)) @ [ucast iid],
     bports = [], rootID = 0, rootCost = 0, rootPort = '''', tcWhile = 0, tcnPending = False,
     lastHello = 0, bnow = 0\<rparr>"

definition frameHeader :: "stpBridge \<Rightarrow> nat \<Rightarrow> frame" where
  "frameHeader b payloadLen =
    (let f0 = replicate (ethHeaderLen + 3 + payloadLen) 0;
         f1 = blit f0 0 bpduMAC;
         f2 = f1[6 := 0x02];
         f3 = blit f2 7 (bslice 1 6 (bmac b));
         f4 = blit f3 12 (put_be16 (word_of_nat (3 + payloadLen)))
     in f4[14 := 0x42, 15 := 0x42, 16 := 0x03])"

definition pad60 :: "frame \<Rightarrow> frame" where
  "pad60 f = (if length f < 60 then f @ replicate (60 - length f) 0 else f)"

text \<open>A duration in units of 1/256 second, as BPDUs carry it: \<^verbatim>\<open>uint16(d * 256 / time.Second)\<close>.\<close>

definition bpdu_time :: "int \<Rightarrow> u16" where
  "bpdu_time d = word_of_int (d * 256 div 1000000000)"

definition buildConfig :: "switch \<Rightarrow> stpPort \<Rightarrow> byte \<Rightarrow> frame" where
  "buildConfig s sp flags =
    (let b = stp s;
         base = ethHeaderLen + 3;
         f0 = frameHeader b 35;
         f1 = f0[base + 4 := flags];
         f2 = blit f1 (base + 5) (put_be64 (rootID b));
         f3 = blit f2 (base + 13) (put_be32 (rootCost b));
         f4 = blit f3 (base + 17) (put_be64 (bridgeID b));
         f5 = blit f4 (base + 25) (put_be16 (portIDValue s sp));
         age = (if rootPort b \<noteq> '''' then
                  (case mget (bports b) (rootPort b) of Some rp \<Rightarrow> infoAge rp + 1000000000 | None \<Rightarrow> 0)
                else 0);
         f6 = blit f5 (base + 27) (put_be16 (bpdu_time age));
         f7 = blit f6 (base + 29) (put_be16 (bpdu_time (MaxAge (cfg b))));
         f8 = blit f7 (base + 31) (put_be16 (bpdu_time (HelloTime (cfg b))));
         f9 = blit f8 (base + 33) (put_be16 (bpdu_time (ForwardDelay (cfg b))))
     in pad60 f9)"

definition buildTCN :: "stpBridge \<Rightarrow> frame" where
  "buildTCN b = pad60 ((frameHeader b 4)[ethHeaderLen + 3 + 3 := 0x80])"

end
