(* ===== verification/Stp.thy ===== *)
theory Stp
  imports SwitchState
begin

text \<open>
  The 802.1D spanning tree (\<^verbatim>\<open>internal/switchcore/stp.go\<close>): enrolment of ports, root election,
  port roles, the state progression, the protocol clock and BPDU processing.
\<close>

section \<open>Enrolment\<close>

text \<open>The first loop of \<^verbatim>\<open>resyncPortsLocked\<close>, for one registered port.\<close>

definition participates :: "switch \<Rightarrow> eref \<Rightarrow> bool" where
  "participates s r \<longleftrightarrow> STP (attrs (ent s r)) \<and> \<not> Disabled (attrs (ent s r))"

definition new_sp :: "eref \<Rightarrow> stpPort" where
  "new_sp r = \<lparr>sp_entry = r, role = RoleBlocked, hasInfo = False,
     info = \<lparr>pv_rootID = 0, pv_cost = 0, pv_bridgeID = 0, pv_portID = 0\<rparr>, infoAge = 0, stateTimer = 0\<rparr>"

definition enrol :: "string \<times> eref \<Rightarrow> switch \<Rightarrow> switch" where
  "enrol pr s = (case pr of (pid, r) \<Rightarrow>
     if \<not> participates s r then s
     else if mget (bports (stp s)) pid = None then set_state r Blocking (put_sp pid (new_sp r) s)
     else s)"

text \<open>
  The second loop, for one port of the bridge; \<open>seen\<close> are the participating identifiers. A
  \<^verbatim>\<open>range\<close> over a map yields the value the key has when it is reached, so the port is read then.
\<close>

definition withdraw :: "string list \<Rightarrow> string \<Rightarrow> switch \<Rightarrow> switch" where
  "withdraw seen pid s =
    (case mget (bports (stp s)) pid of
       None \<Rightarrow> s
     | Some sp \<Rightarrow>
         if pid \<notin> set seen \<or> gone (ent s (sp_entry sp))
         then upd_stp (\<lambda>b. b\<lparr>bports := mdel pid (bports b)\<rparr>) (set_state (sp_entry sp) Forwarding s)
         else s)"

definition resyncPortsLocked :: "switch \<Rightarrow> switch" where
  "resyncPortsLocked s =
    (let seen = map fst (filter (\<lambda>(pid, r). participates s r) (ports s));
         s1 = fold enrol (ports s) s
     in fold (withdraw seen) (map fst (bports (stp s1))) s1)"

section \<open>Election and roles\<close>

definition designatedLocked :: "switch \<Rightarrow> stpPort \<Rightarrow> bool" where
  "designatedLocked s sp =
    (let b = stp s;
         mine = \<lparr>pv_rootID = rootID b, pv_cost = rootCost b, pv_bridgeID = bridgeID b,
                 pv_portID = portIDValue s sp\<rparr>
     in if \<not> hasInfo sp then True else better mine (info sp))"

definition applyRoleLocked :: "string \<Rightarrow> stpPort \<Rightarrow> switch \<Rightarrow> switch" where
  "applyRoleLocked pid sp s =
    (let cur = state (ent s (sp_entry sp))
     in if role sp = RoleBlocked then
          (if cur \<noteq> Blocking then upd_fdb (flushPort pid) (set_state (sp_entry sp) Blocking s) else s)
        else if cur = Blocking then
          put_sp pid (sp\<lparr>stateTimer := 0\<rparr>) (set_state (sp_entry sp) Listening s)
        else s)"

definition signalTopologyChangeLocked :: "switch \<Rightarrow> switch" where
  "signalTopologyChangeLocked s =
    (let b = stp s;
         s1 = (if rootPort b = ''''
               then upd_stp (\<lambda>b. b\<lparr>tcWhile := MaxAge (cfg b) + ForwardDelay (cfg b)\<rparr>) s
               else upd_stp (\<lambda>b. b\<lparr>tcnPending := True\<rparr>) s)
     in upd_fdb (\<lambda>f. snd (flush '''' None f)) s1)"

text \<open>The candidate a port's stored information makes, and the election loop over the ports.\<close>

definition candidate :: "switch \<Rightarrow> stpPort \<Rightarrow> priorityVector" where
  "candidate s sp = \<lparr>pv_rootID = pv_rootID (info sp), pv_cost = pv_cost (info sp) + portCost s sp,
     pv_bridgeID = pv_bridgeID (info sp), pv_portID = pv_portID (info sp)\<rparr>"

definition own_claim :: "stpBridge \<Rightarrow> priorityVector" where
  "own_claim b = \<lparr>pv_rootID = bridgeID b, pv_cost = 0, pv_bridgeID = bridgeID b, pv_portID = 0\<rparr>"

definition elect_step :: "switch \<Rightarrow> string \<times> stpPort \<Rightarrow> priorityVector \<times> string option
    \<Rightarrow> priorityVector \<times> string option" where
  "elect_step s q best = (case q of (pid, sp) \<Rightarrow>
     if \<not> hasInfo sp \<or> pv_bridgeID (info sp) = bridgeID (stp s) then best
     else if better (candidate s sp) (fst best) then (candidate s sp, Some pid)
     else best)"

definition elect :: "switch \<Rightarrow> priorityVector \<times> string option" where
  "elect s = fold (elect_step s) (bports (stp s)) (own_claim (stp s), None)"

text \<open>The role loop, for one port: the port's record is read again from the map, as the pointer would be.\<close>

definition role_step :: "string option \<Rightarrow> string \<Rightarrow> bool \<times> switch \<Rightarrow> bool \<times> switch" where
  "role_step rt pid cs = (case cs of (changed, s) \<Rightarrow>
     case mget (bports (stp s)) pid of
       None \<Rightarrow> (changed, s)
     | Some sp \<Rightarrow>
         (let r = (if rt = Some pid then RoleRoot
                   else if designatedLocked s sp then RoleDesignated else RoleBlocked);
              sp' = sp\<lparr>role := r\<rparr>
          in (changed \<or> r \<noteq> role sp, applyRoleLocked pid sp' (put_sp pid sp' s))))"

definition recomputeLocked :: "switch \<Rightarrow> switch" where
  "recomputeLocked s =
    (if \<not> Enabled (cfg (stp s)) then s
     else let (best, rt) = elect s;
              s1 = upd_stp (\<lambda>b. b\<lparr>rootID := pv_rootID best, rootCost := pv_cost best,
                     rootPort := (case rt of Some pid \<Rightarrow> pid | None \<Rightarrow> '''')\<rparr>) s;
              (changed, s2) = fold (role_step rt) (map fst (bports (stp s1))) (False, s1)
          in if changed then signalTopologyChangeLocked s2 else s2)"

definition becomeRootLocked :: "switch \<Rightarrow> switch" where
  "becomeRootLocked s =
    recomputeLocked (upd_stp (\<lambda>b. b\<lparr>rootID := bridgeID b, rootCost := 0, rootPort := ''''\<rparr>) s)"

section \<open>Configuration and asynchronous resynchronisation\<close>

definition normalizeConfig :: "STPConfig \<Rightarrow> STPConfig" where
  "normalizeConfig c =
    (let c1 = (if Priority c = 0 then c\<lparr>Priority := 32768\<rparr> else c);
         c2 = (if HelloTime c1 \<le> 0 then c1\<lparr>HelloTime := 2000000000\<rparr> else c1);
         c3 = (if MaxAge c2 \<le> 0 then c2\<lparr>MaxAge := 20000000000\<rparr> else c2)
     in if ForwardDelay c3 \<le> 0 then c3\<lparr>ForwardDelay := 15000000000\<rparr> else c3)"

definition SetSTPConfig :: "STPConfig \<Rightarrow> switch \<Rightarrow> switch" where
  "SetSTPConfig c s =
    (let s1 = upd_stp (\<lambda>b. b\<lparr>cfg := normalizeConfig c\<rparr>) s
     in if \<not> Enabled c
        then upd_stp (\<lambda>b. b\<lparr>bports := []\<rparr>)
               (fold (\<lambda>(pid, sp). set_state (sp_entry sp) Forwarding) (bports (stp s1)) s1)
        else becomeRootLocked (resyncPortsLocked s1))"

text \<open>\<^verbatim>\<open>portChangedLocked\<close> only starts a goroutine; \<open>stpAsync\<close> is that goroutine's body.\<close>

definition portChangedLocked :: "switch \<Rightarrow> switch" where
  "portChangedLocked s = s\<lparr>asyncs := asyncs s + 1\<rparr>"

definition stpAsync :: "switch \<Rightarrow> switch" where
  "stpAsync s =
    (if asyncs s = 0 then s
     else let s1 = s\<lparr>asyncs := asyncs s - 1\<rparr>
          in if Enabled (cfg (stp s1)) then recomputeLocked (resyncPortsLocked s1) else s1)"

section \<open>The protocol clock\<close>

definition transmitConfigsLocked :: "switch \<Rightarrow> switch" where
  "transmitConfigsLocked s =
    (let b = stp s
     in if rootPort b \<noteq> '''' \<and>
           (case mget (bports b) (rootPort b) of None \<Rightarrow> True | Some sp \<Rightarrow> \<not> hasInfo sp)
        then s
        else fold (\<lambda>(pid, sp) s.
               if role sp \<noteq> RoleDesignated then s
               else emit (Sent (sp_entry sp) ''stp''
                      (buildConfig s sp (if tcWhile (stp s) > 0 then 0x01 else 0))) s)
             (bports b) s)"

definition age_sp :: "int \<Rightarrow> int \<Rightarrow> stpPort \<Rightarrow> stpPort" where
  "age_sp maxage dt sp =
    (if \<not> hasInfo sp then sp
     else let sp1 = sp\<lparr>infoAge := infoAge sp + dt\<rparr>
          in if infoAge sp1 \<ge> maxage then sp1\<lparr>hasInfo := False\<rparr> else sp1)"

definition ageInfo :: "int \<Rightarrow> switch \<Rightarrow> bool \<times> switch" where
  "ageInfo dt s =
    (let b = stp s; ma = MaxAge (cfg b);
         ps = map (\<lambda>(pid, sp). (pid, age_sp ma dt sp)) (bports b)
     in (list_ex (\<lambda>(pid, sp). hasInfo sp \<and> \<not> hasInfo (age_sp ma dt sp)) (bports b),
         upd_stp (\<lambda>b. b\<lparr>bports := ps\<rparr>) s))"

definition progress_step :: "int \<Rightarrow> string \<Rightarrow> switch \<Rightarrow> switch" where
  "progress_step dt pid s =
    (case mget (bports (stp s)) pid of
       None \<Rightarrow> s
     | Some sp \<Rightarrow>
         if role sp = RoleBlocked then s
         else (let t = stateTimer sp + dt; fd = ForwardDelay (cfg (stp s))
               in case state (ent s (sp_entry sp)) of
                    Listening \<Rightarrow>
                      if t \<ge> fd then put_sp pid (sp\<lparr>stateTimer := 0\<rparr>) (set_state (sp_entry sp) Learning s)
                      else put_sp pid (sp\<lparr>stateTimer := t\<rparr>) s
                  | Learning \<Rightarrow>
                      if t \<ge> fd then upd_fdb (flushPort pid)
                        (put_sp pid (sp\<lparr>stateTimer := 0\<rparr>) (set_state (sp_entry sp) Forwarding s))
                      else put_sp pid (sp\<lparr>stateTimer := t\<rparr>) s
                  | _ \<Rightarrow> s))"

definition helloLocked :: "switch \<Rightarrow> switch" where
  "helloLocked s =
    (let s1 = transmitConfigsLocked (upd_stp (\<lambda>b. b\<lparr>lastHello := 0\<rparr>) s);
         s2 = (if tcWhile (stp s1) > 0
               then upd_stp (\<lambda>b. b\<lparr>tcWhile := tcWhile b - HelloTime (cfg b)\<rparr>) s1 else s1);
         b = stp s2
     in if tcnPending b \<and> rootPort b \<noteq> '''' then
          (case mget (bports b) (rootPort b) of
             Some sp \<Rightarrow> emit (Sent (sp_entry sp) ''stp'' (buildTCN b)) s2
           | None \<Rightarrow> s2)
        else s2)"

definition tickLocked :: "int \<Rightarrow> switch \<Rightarrow> switch" where
  "tickLocked dt s =
    (let (expired, s1) = ageInfo dt (resyncPortsLocked s);
         s2 = (if expired then recomputeLocked s1 else s1);
         s3 = fold (progress_step dt) (map fst (bports (stp s2))) s2;
         s4 = upd_stp (\<lambda>b. b\<lparr>lastHello := lastHello b + dt\<rparr>) s3
     in if lastHello (stp s4) \<ge> HelloTime (cfg (stp s4)) then helloLocked s4 else s4)"

text \<open>
  One iteration of the loop of \<^verbatim>\<open>run\<close>: the tick is computed before the wait, the rest happens when
  the clock fires, possibly under a configuration that changed meanwhile.
\<close>

definition stpTick :: "switch \<Rightarrow> int" where
  "stpTick s = (let tick = HelloTime (cfg (stp s)) div 2 in if tick \<le> 0 then 1000000000 else tick)"

definition stpRun :: "int \<Rightarrow> switch \<Rightarrow> switch" where
  "stpRun tick s =
    (if \<not> Enabled (cfg (stp s)) then s
     else tickLocked tick (upd_stp (\<lambda>b. b\<lparr>bnow := bnow b + tick\<rparr>) s))"

section \<open>Receiving BPDUs\<close>

definition bpduInfo :: "byte list \<Rightarrow> priorityVector" where
  "bpduInfo body = \<lparr>pv_rootID = be64 (bslice 5 13 body), pv_cost = be32 (bslice 13 17 body),
     pv_bridgeID = be64 (bslice 17 25 body), pv_portID = be16 (bslice 25 27 body)\<rparr>"

definition handleConfig :: "eref \<Rightarrow> stpPort \<Rightarrow> byte list \<Rightarrow> switch \<Rightarrow> switch" where
  "handleConfig src sp body s =
    (let i = bpduInfo body; flags = body ! 4; pid = pe_id (ent s src);
         refresh = (hasInfo sp \<and> pv_bridgeID i = pv_bridgeID (info sp) \<and> pv_portID i = pv_portID (info sp));
         s1 = (if \<not> hasInfo sp \<or> refresh \<or> better i (info sp)
               then recomputeLocked (put_sp pid (sp\<lparr>hasInfo := True, info := i,
                      infoAge := uint (be16 (bslice 27 29 body)) * 1000000000 div 256\<rparr>) s)
               else s);
         s2 = (if flags AND 0x01 \<noteq> 0 then upd_fdb (\<lambda>f. snd (flush '''' None f)) s1 else s1)
     in if flags AND 0x80 \<noteq> 0 \<and> pid = rootPort (stp s2)
        then upd_stp (\<lambda>b. b\<lparr>tcnPending := False\<rparr>) s2 else s2)"

definition handleBPDU :: "eref \<Rightarrow> frame \<Rightarrow> switch \<Rightarrow> switch" where
  "handleBPDU src fr s =
    (if \<not> Enabled (cfg (stp s)) then s
     else case mget (bports (stp s)) (pe_id (ent s src)) of
       None \<Rightarrow> s
     | Some sp \<Rightarrow>
         (let body = drop (ethHeaderLen + 3) fr
          in if length body < 4 then s
             else if body ! 3 = 0x80 then
               (if role sp = RoleDesignated
                then (let s1 = signalTopologyChangeLocked s
                      in emit (Sent (sp_entry sp) ''stp'' (buildConfig s1 sp 0x80)) s1)
                else s)
             else if body ! 3 \<noteq> 0x00 \<or> length body < 35 then s
             else handleConfig src sp body s))"

section \<open>Well-formed switch states\<close>

text \<open>
  Every reference held by the registry, the bridge and the forwarding database points at an entry
  of the expected identifier; registered entries are not gone, and until the switch is closed an
  entry that is not gone is registered; a port of the bridge is blocking
  exactly if its role is blocked; and an entry outside the bridge is in the forwarding state.
\<close>

definition entry_ok :: "switch \<Rightarrow> string \<Rightarrow> eref \<Rightarrow> bool" where
  "entry_ok s pid r \<longleftrightarrow> r < length (store s) \<and> pe_id (ent s r) = pid"

definition reg_wf :: "switch \<Rightarrow> bool" where
  "reg_wf s \<longleftrightarrow> mwf (ports s) \<and> (\<forall>pid r. mget (ports s) pid = Some r \<longrightarrow>
     entry_ok s pid r \<and> \<not> gone (ent s r))
    \<and> (\<forall>r < length (store s). \<not> gone (ent s r) \<longrightarrow> \<not> stopped s \<longrightarrow>
        mget (ports s) (pe_id (ent s r)) = Some r)"

definition stp_wf :: "switch \<Rightarrow> bool" where
  "stp_wf s \<longleftrightarrow> mwf (bports (stp s))
    \<and> (\<forall>pid sp. mget (bports (stp s)) pid = Some sp \<longrightarrow> entry_ok s pid (sp_entry sp)
        \<and> (role sp = RoleBlocked \<longleftrightarrow> state (ent s (sp_entry sp)) = Blocking))
    \<and> (\<forall>r < length (store s). state (ent s r) \<noteq> Forwarding \<longrightarrow>
        (\<exists>sp. mget (bports (stp s)) (pe_id (ent s r)) = Some sp \<and> sp_entry sp = r))"

definition fdb_refs :: "switch \<Rightarrow> bool" where
  "fdb_refs s \<longleftrightarrow> fdb_wf (sfdb s) \<and> 0 < maxAge (sfdb s)
    \<and> (\<forall>k e r. mget (fm (sfdb s)) k = Some e \<longrightarrow> fport e = Some r \<longrightarrow> entry_ok s (portID e) r)"

definition store_wf :: "switch \<Rightarrow> bool" where
  "store_wf s \<longleftrightarrow> (\<forall>e \<in> set (store s). pe_id e \<noteq> '''' \<and> validate (attrs e) = None)"

definition sw_wf :: "switch \<Rightarrow> bool" where
  "sw_wf s \<longleftrightarrow> reg_wf s \<and> stp_wf s \<and> fdb_refs s \<and> store_wf s"

lemmas wf_defs = reg_wf_def stp_wf_def fdb_refs_def store_wf_def entry_ok_def ent_def

lemma sw_wfD:
  assumes "sw_wf s"
  shows "mwf (ports s)" "mwf (bports (stp s))" "fdb_wf (sfdb s)" "0 < maxAge (sfdb s)"
    and "mget (ports s) pid = Some r \<Longrightarrow> entry_ok s pid r"
    and "mget (ports s) pid = Some r \<Longrightarrow> \<not> gone (ent s r)"
    and "mget (bports (stp s)) pid = Some sp \<Longrightarrow> entry_ok s pid (sp_entry sp)"
    and "mget (bports (stp s)) pid = Some sp \<Longrightarrow>
      role sp = RoleBlocked \<longleftrightarrow> state (ent s (sp_entry sp)) = Blocking"
    and "r < length (store s) \<Longrightarrow> state (ent s r) \<noteq> Forwarding \<Longrightarrow>
      \<exists>sp. mget (bports (stp s)) (pe_id (ent s r)) = Some sp \<and> sp_entry sp = r"
    and "mget (fm (sfdb s)) k = Some e \<Longrightarrow> fport e = Some r \<Longrightarrow> entry_ok s (portID e) r"
    and "r < length (store s) \<Longrightarrow> \<not> gone (ent s r) \<Longrightarrow> \<not> stopped s \<Longrightarrow>
      mget (ports s) (pe_id (ent s r)) = Some r"
  using assms unfolding sw_wf_def reg_wf_def stp_wf_def fdb_refs_def by blast+

section \<open>Frame lemmas\<close>

text \<open>What each elementary update leaves alone.\<close>

lemma upd_sel [simp]:
  "ports (upd_ent r f s) = ports s" "stp (upd_ent r f s) = stp s" "sfdb (upd_ent r f s) = sfdb s"
  "events (upd_ent r f s) = events s" "asyncs (upd_ent r f s) = asyncs s"
  "instanceID (upd_ent r f s) = instanceID s" "length (store (upd_ent r f s)) = length (store s)"
  "ports (set_state r st s) = ports s" "stp (set_state r st s) = stp s" "sfdb (set_state r st s) = sfdb s"
  "events (set_state r st s) = events s" "asyncs (set_state r st s) = asyncs s"
  "instanceID (set_state r st s) = instanceID s" "length (store (set_state r st s)) = length (store s)"
  "ports (upd_stp g s) = ports s" "stp (upd_stp g s) = g (stp s)" "sfdb (upd_stp g s) = sfdb s"
  "store (upd_stp g s) = store s" "events (upd_stp g s) = events s" "asyncs (upd_stp g s) = asyncs s"
  "instanceID (upd_stp g s) = instanceID s"
  "ports (upd_fdb h s) = ports s" "stp (upd_fdb h s) = stp s" "sfdb (upd_fdb h s) = h (sfdb s)"
  "store (upd_fdb h s) = store s" "events (upd_fdb h s) = events s" "asyncs (upd_fdb h s) = asyncs s"
  "instanceID (upd_fdb h s) = instanceID s"
  "ports (emit ev s) = ports s" "stp (emit ev s) = stp s" "sfdb (emit ev s) = sfdb s"
  "store (emit ev s) = store s" "events (emit ev s) = events s @ [ev]" "asyncs (emit ev s) = asyncs s"
  "instanceID (emit ev s) = instanceID s"
  "ports (put_sp pid sp s) = ports s" "sfdb (put_sp pid sp s) = sfdb s" "store (put_sp pid sp s) = store s"
  "stp (put_sp pid sp s) = (stp s)\<lparr>bports := mput pid sp (bports (stp s))\<rparr>"
  "events (put_sp pid sp s) = events s" "asyncs (put_sp pid sp s) = asyncs s"
  "instanceID (put_sp pid sp s) = instanceID s"
  "stopped (upd_ent r f s) = stopped s" "stopped (set_state r st s) = stopped s"
  "stopped (upd_stp g s) = stopped s" "stopped (upd_fdb h s) = stopped s" "stopped (emit ev s) = stopped s"
  "stopped (put_sp pid sp s) = stopped s"
  by (simp_all add: upd_defs)

lemma ent_upd [simp]:
  "ent (upd_stp g s) r = ent s r" "ent (upd_fdb h s) r = ent s r" "ent (emit ev s) r = ent s r"
  "ent (put_sp pid sp s) r = ent s r"
  by (simp_all add: ent_def)

lemma ent_upd_ent:
  "ent (upd_ent r f s) r' = (if r' = r \<and> r < length (store s) then f (ent s r) else ent s r')"
  by (cases "r < length (store s)") (auto simp: ent_def upd_ent_def nth_list_update list_update_beyond)

lemma ent_set_state:
  "ent (set_state r st s) r' = (if r' = r \<and> r < length (store s) then (ent s r)\<lparr>state := st\<rparr> else ent s r')"
  by (simp add: set_state_def ent_upd_ent)

lemma store_set_upd_ent:
  "e \<in> set (store (upd_ent r f s)) \<Longrightarrow> e \<in> set (store s) \<or> (r < length (store s) \<and> e = f (ent s r))"
proof -
  assume "e \<in> set (store (upd_ent r f s))"
  then show ?thesis
    by (cases "r < length (store s)") (auto simp: upd_ent_def ent_def list_update_beyond dest: set_update_subset_insert [THEN subsetD])
qed

lemma ent_in_store: "r < length (store s) \<Longrightarrow> ent s r \<in> set (store s)"
  by (simp add: ent_def)

section \<open>Preservation\<close>

lemma sw_wf_cong_entries:
  assumes "sw_wf s" "\<And>e. pe_id (f e) = pe_id e" "\<And>e. gone (f e) = gone e" "\<And>e. state (f e) = state e"
    "\<And>e. validate (attrs e) = None \<Longrightarrow> validate (attrs (f e)) = None"
  shows "sw_wf (upd_ent r f s)"
  using assms(1)
  by (auto simp: sw_wf_def reg_wf_def stp_wf_def fdb_refs_def store_wf_def entry_ok_def ent_upd_ent assms(2-4)
      dest!: store_set_upd_ent intro: assms(5) ent_in_store)


lemma sw_wf_emit [simp]: "sw_wf (emit ev s) = sw_wf s"
  by (simp add: sw_wf_def wf_defs upd_defs)

lemma sw_wf_upd_stp:
  "bports (g (stp s)) = bports (stp s) \<Longrightarrow> sw_wf (upd_stp g s) = sw_wf s"
  by (simp add: sw_wf_def wf_defs upd_defs)

lemma sw_wf_upd_fdb:
  assumes "sw_wf s" "fdb_wf (h (sfdb s))" "0 < maxAge (h (sfdb s))"
    "\<And>k e r. mget (fm (h (sfdb s))) k = Some e \<Longrightarrow> fport e = Some r \<Longrightarrow>
      mget (fm (sfdb s)) k = Some e \<or> entry_ok s (portID e) r"
  shows "sw_wf (upd_fdb h s)"
proof -
  have "fdb_refs (upd_fdb h s)"
    unfolding fdb_refs_def
  proof (intro conjI allI impI)
    fix k e r
    assume "mget (fm (sfdb (upd_fdb h s))) k = Some e" "fport e = Some r"
    with assms(4) [of k e r] have "mget (fm (sfdb s)) k = Some e \<or> entry_ok s (portID e) r"
      by simp
    then show "entry_ok (upd_fdb h s) (portID e) r"
      using sw_wfD(10) [OF assms(1) _ \<open>fport e = Some r\<close>, where k = k] by (auto simp: entry_ok_def)
  qed (use assms in simp_all)
  then show ?thesis
    using assms(1) by (simp add: sw_wf_def reg_wf_def stp_wf_def store_wf_def entry_ok_def)
qed

text \<open>
  The one lemma behind every state transition: a port of the bridge is rewritten together with the
  state of its entry, and the two stay in step.
\<close>

lemma sw_wf_transition:
  assumes wf: "sw_wf s" and r: "entry_ok s pid r"
    and old: "\<And>sp0. mget (bports (stp s)) pid = Some sp0 \<Longrightarrow> sp_entry sp0 = r"
    and new: "sp_entry sp = r" "role sp = RoleBlocked \<longleftrightarrow> st = Blocking"
  shows "sw_wf (set_state r st (put_sp pid sp s))"
proof -
  let ?t = "set_state r st (put_sp pid sp s)"
  have len: "r < length (store s)" and rid: "pe_id (ent s r) = pid"
    using r by (simp_all add: entry_ok_def)
  have ids: "pe_id (ent ?t r') = pe_id (ent s r')" "gone (ent ?t r') = gone (ent s r')" for r'
    by (simp_all add: ent_set_state)
  have st: "state (ent ?t r') = (if r' = r then st else state (ent s r'))" for r'
    using len by (simp add: ent_set_state)
  have "reg_wf ?t" "fdb_refs ?t"
    using wf by (simp_all add: sw_wf_def reg_wf_def fdb_refs_def entry_ok_def ids)
  moreover have "store_wf ?t"
    using wf by (auto simp: sw_wf_def store_wf_def set_state_def ent_in_store dest!: store_set_upd_ent)
  moreover have "stp_wf ?t"
    unfolding stp_wf_def
  proof (intro conjI allI impI)
    show "mwf (bports (stp ?t))" using sw_wfD(2) [OF wf] by simp
  next
    fix pid' sp'
    assume *: "mget (bports (stp ?t)) pid' = Some sp'"
    show "entry_ok ?t pid' (sp_entry sp')"
      using * sw_wfD(7) [OF wf, of pid' sp'] len rid new(1)
      by (cases "pid' = pid") (auto simp: mget_mput entry_ok_def ent_set_state)
    have "sp_entry sp' \<noteq> r" if "pid' \<noteq> pid"
      using * that sw_wfD(7) [OF wf, of pid' sp'] rid by (auto simp: mget_mput entry_ok_def)
    then show "role sp' = RoleBlocked \<longleftrightarrow> state (ent ?t (sp_entry sp')) = Blocking"
      using * sw_wfD(8) [OF wf, of pid' sp'] new len
      by (cases "pid' = pid") (auto simp: mget_mput ent_set_state)
  next
    fix r'
    assume r': "r' < length (store ?t)" "state (ent ?t r') \<noteq> Forwarding"
    show "\<exists>sp'. mget (bports (stp ?t)) (pe_id (ent ?t r')) = Some sp' \<and> sp_entry sp' = r'"
    proof (cases "r' = r")
      case True
      then show ?thesis using new(1) rid by (simp add: mget_mput ids)
    next
      case False
      with r' have "r' < length (store s)" "state (ent s r') \<noteq> Forwarding" by (simp_all add: st)
      from sw_wfD(9) [OF wf this] obtain sp' where
        sp': "mget (bports (stp s)) (pe_id (ent s r')) = Some sp'" "sp_entry sp' = r'" by blast
      with old False have "pe_id (ent s r') \<noteq> pid" by auto
      with sp' show ?thesis by (simp add: mget_mput ids)
    qed
  qed
  ultimately show ?thesis
    by (simp add: sw_wf_def)
qed

lemma put_sp_same_state:
  "sp_entry sp = r \<Longrightarrow> set_state r (state (ent s r)) (put_sp pid sp s) = put_sp pid sp s"
  by (cases "r < length (store s)") (simp_all add: upd_defs ent_def list_update_beyond)

lemma sw_wf_put_sp:
  assumes "sw_wf s" "mget (bports (stp s)) pid = Some sp0" "sp_entry sp = sp_entry sp0" "role sp = role sp0"
  shows "sw_wf (put_sp pid sp s)"
proof -
  have "sw_wf (set_state (sp_entry sp0) (state (ent s (sp_entry sp0))) (put_sp pid sp s))"
    using assms by (intro sw_wf_transition) (auto simp: sw_wf_def stp_wf_def)
  then show ?thesis
    using assms by (simp add: put_sp_same_state)
qed


lemma fold_inv:
  "P s \<Longrightarrow> (\<And>x s. x \<in> set xs \<Longrightarrow> P s \<Longrightarrow> P (f x s)) \<Longrightarrow> P (fold f xs s)"
  by (induction xs arbitrary: s) auto

lemma mkeep_Some: "mwf m \<Longrightarrow> mget (mkeep P m) k = Some e \<Longrightarrow> mget m k = Some e"
  by (simp add: mget_mkeep split: option.splits if_splits)

lemma sw_wf_mkeep:
  assumes wf: "sw_wf s" and h: "h (sfdb s) = (sfdb s)\<lparr>fm := mkeep P (fm (sfdb s))\<rparr>"
  shows "sw_wf (upd_fdb h s)"
  using wf
proof (rule sw_wf_upd_fdb)
  show "fdb_wf (h (sfdb s))" "0 < maxAge (h (sfdb s))"
    using sw_wfD(3,4) [OF wf] by (simp_all add: h fdb_wf_keep)
  show "mget (fm (sfdb s)) k = Some e \<or> entry_ok s (portID e) r"
    if "mget (fm (h (sfdb s))) k = Some e" for k e r
    using that mkeep_Some [OF fdb_wf_mwf [OF sw_wfD(3) [OF wf]], of P k e] by (simp add: h)
qed

lemma sw_wf_flushPort: "sw_wf s \<Longrightarrow> sw_wf (upd_fdb (flushPort pid) s)"
  by (rule sw_wf_mkeep) (simp_all add: flushPort_def)

lemma sw_wf_flush: "sw_wf s \<Longrightarrow> sw_wf (upd_fdb (\<lambda>f. snd (flush pid vlan f)) s)"
  by (rule sw_wf_mkeep) (simp_all add: flush_def)

lemma put_set_commute: "put_sp pid sp (set_state r st s) = set_state r st (put_sp pid sp s)"
  by (simp add: upd_defs)

lemma sw_wf_enrol:
  assumes "sw_wf s" "mget (ports s) pid = Some r"
  shows "sw_wf (enrol (pid, r) s)"
  using assms sw_wfD(5) [OF assms] by (auto simp: enrol_def new_sp_def intro!: sw_wf_transition)

lemma sw_wf_withdraw:
  assumes wf: "sw_wf s"
  shows "sw_wf (withdraw seen pid s)"
proof (cases "mget (bports (stp s)) pid")
  case (Some sp)
  let ?t = "upd_stp (\<lambda>b. b\<lparr>bports := mdel pid (bports b)\<rparr>) (set_state (sp_entry sp) Forwarding s)"
  have len: "sp_entry sp < length (store s)" and rid: "pe_id (ent s (sp_entry sp)) = pid"
    using sw_wfD(7) [OF wf Some] by (simp_all add: entry_ok_def)
  have ids: "pe_id (ent ?t r) = pe_id (ent s r)" "gone (ent ?t r) = gone (ent s r)"
      "state (ent ?t r) = (if r = sp_entry sp then Forwarding else state (ent s r))" for r
    using len by (simp_all add: ent_set_state)
  have "reg_wf ?t" "fdb_refs ?t"
    using wf by (simp_all add: sw_wf_def reg_wf_def fdb_refs_def entry_ok_def ids del: ent_upd)
  moreover have "store_wf ?t"
    using wf by (auto simp: sw_wf_def store_wf_def set_state_def ent_in_store dest!: store_set_upd_ent)
  moreover have "stp_wf ?t"
    unfolding stp_wf_def
  proof (intro conjI allI impI)
    show "mwf (bports (stp ?t))" using sw_wfD(2) [OF wf] by simp
  next
    fix pid' sp'
    assume "mget (bports (stp ?t)) pid' = Some sp'"
    then have *: "mget (bports (stp s)) pid' = Some sp'" "pid' \<noteq> pid"
      by (simp_all add: mget_mdel split: if_splits)
    then have **: "entry_ok s pid' (sp_entry sp')" "sp_entry sp' \<noteq> sp_entry sp"
      using sw_wfD(7) [OF wf *(1)] rid by (auto simp: entry_ok_def)
    then show "entry_ok ?t pid' (sp_entry sp')"
      by (simp add: entry_ok_def ids del: ent_upd)
    show "role sp' = RoleBlocked \<longleftrightarrow> state (ent ?t (sp_entry sp')) = Blocking"
      using sw_wfD(8) [OF wf *(1)] **(2) by (simp add: ids del: ent_upd)
  next
    fix r
    assume "r < length (store ?t)" "state (ent ?t r) \<noteq> Forwarding"
    then have r: "r < length (store s)" "r \<noteq> sp_entry sp" "state (ent s r) \<noteq> Forwarding"
      by (auto simp: ids simp del: ent_upd split: if_splits)
    then show "\<exists>sp'. mget (bports (stp ?t)) (pe_id (ent ?t r)) = Some sp' \<and> sp_entry sp' = r"
      using sw_wfD(9) [OF wf r(1,3)] Some by (auto simp: mget_mdel ent_set_state)
  qed
  ultimately show ?thesis
    using wf Some by (simp add: withdraw_def sw_wf_def)
qed (use wf in \<open>simp add: withdraw_def\<close>)

lemma ports_enrol [simp]: "ports (enrol pr s) = ports s"
  by (simp add: enrol_def split: prod.splits)

lemma ports_fold_enrol [simp]: "ports (fold enrol prs s) = ports s"
  by (induction prs arbitrary: s) auto

lemma sw_wf_resync: "sw_wf s \<Longrightarrow> sw_wf (resyncPortsLocked s)"
proof -
  assume wf: "sw_wf s"
  have "sw_wf (fold enrol (ports s) s) \<and> ports (fold enrol (ports s) s) = ports s"
    using wf mem_mget [OF sw_wfD(1) [OF wf]]
    by (intro fold_inv [where P = "\<lambda>t. sw_wf t \<and> ports t = ports s"]) (auto intro: sw_wf_enrol)
  then show ?thesis
    by (auto simp: resyncPortsLocked_def Let_def intro!: fold_inv [where P = sw_wf] sw_wf_withdraw)
qed

lemma applyRole_put:
  "applyRoleLocked pid sp (put_sp pid sp s) =
    (if role sp = RoleBlocked then
       (if state (ent s (sp_entry sp)) = Blocking then put_sp pid sp s
        else upd_fdb (flushPort pid) (set_state (sp_entry sp) Blocking (put_sp pid sp s)))
     else if state (ent s (sp_entry sp)) = Blocking
       then put_sp pid (sp\<lparr>stateTimer := 0\<rparr>) (set_state (sp_entry sp) Listening (put_sp pid sp s))
     else put_sp pid sp s)"
  by (simp add: applyRoleLocked_def Let_def)

lemma sw_wf_role_step:
  assumes wf: "sw_wf s"
  shows "sw_wf (snd (role_step rt pid (c, s)))"
proof (cases "mget (bports (stp s)) pid")
  case (Some sp0)
  define sp where "sp = sp0\<lparr>role := if rt = Some pid then RoleRoot
     else if designatedLocked s sp0 then RoleDesignated else RoleBlocked\<rparr>"
  have e: "sp_entry sp = sp_entry sp0" by (simp add: sp_def)
  have tr: "sw_wf (set_state (sp_entry sp0) st (put_sp pid sp s))"
    if "role sp = RoleBlocked \<longleftrightarrow> st = Blocking" for st
    using that e Some sw_wfD(7) [OF wf Some] by (intro sw_wf_transition [OF wf]) auto
  have keep: "sw_wf (put_sp pid sp s)" if "role sp = RoleBlocked \<longleftrightarrow> state (ent s (sp_entry sp0)) = Blocking"
    using tr [OF that] put_sp_same_state [OF e, of s pid] by simp
  have "sw_wf (put_sp pid (sp\<lparr>stateTimer := 0\<rparr>) (set_state (sp_entry sp0) Listening (put_sp pid sp s)))"
    if "role sp \<noteq> RoleBlocked"
    using that tr [of Listening] by (intro sw_wf_put_sp [where ?sp0.0 = sp]) (simp_all add: mget_mput)
  then have "sw_wf (applyRoleLocked pid sp (put_sp pid sp s))"
    using keep tr [of Blocking] by (simp add: applyRole_put e sw_wf_flushPort)
  then show ?thesis
    using Some by (simp add: role_step_def Let_def sp_def)
qed (use wf in \<open>simp add: role_step_def\<close>)


lemma sw_wf_roles: "sw_wf s \<Longrightarrow> sw_wf (snd (fold (role_step rt) pids (c, s)))"
proof (induction pids arbitrary: c s)
  case (Cons pid pids)
  obtain c' s' where step: "role_step rt pid (c, s) = (c', s')" by fastforce
  with sw_wf_role_step [OF Cons.prems, of rt pid c] Cons.IH show ?case by simp
qed simp

lemma sw_wf_signal: "sw_wf s \<Longrightarrow> sw_wf (signalTopologyChangeLocked s)"
  by (simp add: signalTopologyChangeLocked_def Let_def sw_wf_flush sw_wf_upd_stp)

lemma sw_wf_recompute: "sw_wf s \<Longrightarrow> sw_wf (recomputeLocked s)"
proof -
  assume wf: "sw_wf s"
  obtain best rt where el: "elect s = (best, rt)" by fastforce
  define s1 where "s1 = upd_stp (\<lambda>b. b\<lparr>rootID := pv_rootID best, rootCost := pv_cost best,
    rootPort := (case rt of Some pid \<Rightarrow> pid | None \<Rightarrow> '''')\<rparr>) s"
  have "sw_wf s1" using wf by (simp add: s1_def sw_wf_upd_stp)
  then have "sw_wf (snd (fold (role_step rt) (map fst (bports (stp s))) (False, s1)))"
    by (rule sw_wf_roles)
  then show ?thesis
    using wf by (auto simp: recomputeLocked_def el Let_def s1_def [symmetric] sw_wf_signal split: prod.splits)
qed

lemma sw_wf_becomeRoot: "sw_wf s \<Longrightarrow> sw_wf (becomeRootLocked s)"
  by (simp add: becomeRootLocked_def sw_wf_recompute sw_wf_upd_stp)

text \<open>Disabling the protocol: every port of the bridge goes back to forwarding.\<close>

lemma state_release:
  assumes "\<forall>(pid, sp) \<in> set qs. sp_entry sp < length (store s)"
  shows "ent (fold (\<lambda>(pid, sp). set_state (sp_entry sp) Forwarding) qs s) r =
    (if \<exists>(pid, sp) \<in> set qs. sp_entry sp = r then (ent s r)\<lparr>state := Forwarding\<rparr> else ent s r)"
  using assms
proof (induction qs arbitrary: s)
  case (Cons q qs)
  obtain pid sp where q: "q = (pid, sp)" by fastforce
  with Cons.prems have len: "sp_entry sp < length (store s)" by auto
  have "ent (fold (\<lambda>(pid, sp). set_state (sp_entry sp) Forwarding) (q # qs) s) r =
    (if \<exists>(pid, sp) \<in> set qs. sp_entry sp = r
     then (ent (set_state (sp_entry sp) Forwarding s) r)\<lparr>state := Forwarding\<rparr>
     else ent (set_state (sp_entry sp) Forwarding s) r)"
    using Cons.IH [of "set_state (sp_entry sp) Forwarding s"] Cons.prems by (auto simp: q)
  then show ?case using len by (auto simp: q ent_set_state)
qed simp

lemma sel_release [simp]:
  "ports (fold (\<lambda>(pid, sp). set_state (sp_entry sp) Forwarding) qs s) = ports s"
  "sfdb (fold (\<lambda>(pid, sp). set_state (sp_entry sp) Forwarding) qs s) = sfdb s"
  "stp (fold (\<lambda>(pid, sp). set_state (sp_entry sp) Forwarding) qs s) = stp s"
  "length (store (fold (\<lambda>(pid, sp). set_state (sp_entry sp) Forwarding) qs s)) = length (store s)"
  "stopped (fold (\<lambda>(pid, sp). set_state (sp_entry sp) Forwarding) qs s) = stopped s"
  by (induction qs arbitrary: s) (auto split: prod.splits)

lemma all_forwarding_after_release:
  assumes wf: "sw_wf s" and r: "r < length (store s)"
  shows "state (ent (fold (\<lambda>(pid, sp). set_state (sp_entry sp) Forwarding) (bports (stp s)) s) r) = Forwarding"
proof -
  have ok: "\<forall>(pid, sp) \<in> set (bports (stp s)). sp_entry sp < length (store s)"
    using sw_wfD(7) [OF wf mem_mget [OF sw_wfD(2) [OF wf]]] by (auto simp: entry_ok_def)
  have "\<exists>(pid, sp) \<in> set (bports (stp s)). sp_entry sp = r" if "state (ent s r) \<noteq> Forwarding"
    using sw_wfD(9) [OF wf r that] by (auto dest!: mget_Some_mem)
  then show ?thesis unfolding state_release [OF ok] by auto
qed

lemma nth_ent: "r < length (store s) \<Longrightarrow> store s ! r = ent s r"
  by (simp add: ent_def)

lemma sw_wf_release:
  assumes wf: "sw_wf s"
  shows "sw_wf (upd_stp (\<lambda>b. b\<lparr>bports := []\<rparr>)
    (fold (\<lambda>(pid, sp). set_state (sp_entry sp) Forwarding) (bports (stp s)) s))"
    (is "sw_wf (upd_stp _ ?t)")
proof -
  have ok: "\<forall>(pid, sp) \<in> set (bports (stp s)). sp_entry sp < length (store s)"
    using sw_wfD(7) [OF wf mem_mget [OF sw_wfD(2) [OF wf]]] by (auto simp: entry_ok_def)
  have same: "pe_id (ent ?t r) = pe_id (ent s r)" "gone (ent ?t r) = gone (ent s r)"
      "attrs (ent ?t r) = attrs (ent s r)" for r
    unfolding state_release [OF ok] by simp_all
  have "store_wf ?t"
    using wf ent_in_store [of _ s]
    by (auto simp: sw_wf_def store_wf_def in_set_conv_nth [of _ "store ?t"] nth_ent same)
  then show ?thesis
    using wf all_forwarding_after_release [OF wf]
    by (simp add: sw_wf_def reg_wf_def stp_wf_def fdb_refs_def entry_ok_def store_wf_def same)
qed

lemma sw_wf_SetSTPConfig: "sw_wf s \<Longrightarrow> sw_wf (SetSTPConfig c s)"
proof -
  assume wf: "sw_wf s"
  define s1 where "s1 = upd_stp (\<lambda>b. b\<lparr>cfg := normalizeConfig c\<rparr>) s"
  have "sw_wf s1" using wf by (simp add: s1_def sw_wf_upd_stp)
  then show ?thesis
    using sw_wf_release [of s1]
    by (simp add: SetSTPConfig_def Let_def s1_def [symmetric] sw_wf_becomeRoot sw_wf_resync)
qed

lemma sw_wf_asyncs [simp]: "sw_wf (s\<lparr>asyncs := n\<rparr>) = sw_wf s"
  by (simp add: sw_wf_def wf_defs)

lemma sw_wf_stpAsync: "sw_wf s \<Longrightarrow> sw_wf (stpAsync s)"
  by (simp add: stpAsync_def Let_def sw_wf_recompute sw_wf_resync)

lemma sw_wf_transmit: "sw_wf s \<Longrightarrow> sw_wf (transmitConfigsLocked s)"
  by (auto simp: transmitConfigsLocked_def Let_def intro!: fold_inv [where P = sw_wf])

lemma mget_map_val: "mget (map (\<lambda>(k, v). (k, f v)) m) k = map_option f (mget m k)"
  by (induction m) (auto simp: mget_def)

lemma mwf_map_val [simp]: "mwf (map (\<lambda>(k, v). (k, f v)) m) = mwf m"
  by (simp add: mwf_def comp_def case_prod_beta)

lemma age_sp_keeps [simp]:
  "sp_entry (age_sp ma dt sp) = sp_entry sp" "role (age_sp ma dt sp) = role sp"
  "stateTimer (age_sp ma dt sp) = stateTimer sp" "info (age_sp ma dt sp) = info sp"
  by (simp_all add: age_sp_def Let_def)

lemma sw_wf_ageInfo:
  assumes wf: "sw_wf s"
  shows "sw_wf (snd (ageInfo dt s))"
proof -
  let ?t = "snd (ageInfo dt s)" and ?age = "age_sp (MaxAge (cfg (stp s))) dt"
  have t: "mget (bports (stp ?t)) pid = map_option ?age (mget (bports (stp s)) pid)" for pid
    by (simp add: ageInfo_def Let_def mget_map_val)
  have same: "ports ?t = ports s" "sfdb ?t = sfdb s" "store ?t = store s" "\<And>r. ent ?t r = ent s r"
      "mwf (bports (stp ?t)) = mwf (bports (stp s))" "stopped ?t = stopped s"
    by (simp_all add: ageInfo_def Let_def)
  have "stp_wf ?t"
    unfolding stp_wf_def t same entry_ok_def
  proof (intro conjI allI impI)
    show "mwf (bports (stp s))" by (rule sw_wfD(2) [OF wf])
  next
    fix pid sp
    assume "map_option ?age (mget (bports (stp s)) pid) = Some sp"
    then obtain sp0 where sp0: "mget (bports (stp s)) pid = Some sp0" "sp = ?age sp0" by auto
    show "sp_entry sp < length (store s)" "pe_id (ent s (sp_entry sp)) = pid"
      using sw_wfD(7) [OF wf sp0(1)] by (simp_all add: sp0(2) entry_ok_def)
    show "role sp = RoleBlocked \<longleftrightarrow> state (ent s (sp_entry sp)) = Blocking"
      using sw_wfD(8) [OF wf sp0(1)] by (simp add: sp0(2))
  next
    fix r
    assume "r < length (store s)" "state (ent s r) \<noteq> Forwarding"
    from sw_wfD(9) [OF wf this]
    show "\<exists>sp. map_option ?age (mget (bports (stp s)) (pe_id (ent s r))) = Some sp \<and> sp_entry sp = r"
      by auto
  qed
  then show ?thesis
    using wf by (simp add: sw_wf_def reg_wf_def fdb_refs_def store_wf_def entry_ok_def same)
qed


lemma sw_wf_progress_step:
  assumes wf: "sw_wf s"
  shows "sw_wf (progress_step dt pid s)"
proof (cases "mget (bports (stp s)) pid")
  case (Some sp)
  have ok: "entry_ok s pid (sp_entry sp)" by (rule sw_wfD(7) [OF wf Some])
  have keep: "sw_wf (put_sp pid (sp\<lparr>stateTimer := t\<rparr>) s)" for t
    using wf Some by (rule sw_wf_put_sp) simp_all
  have move: "sw_wf (put_sp pid (sp\<lparr>stateTimer := 0\<rparr>) (set_state (sp_entry sp) st s))"
    if "role sp \<noteq> RoleBlocked" "st \<noteq> Blocking" for st
    unfolding put_set_commute using that ok Some by (intro sw_wf_transition [OF wf]) simp_all
  show ?thesis
    using Some wf keep move [of Learning] move [of Forwarding]
    by (simp add: progress_step_def Let_def sw_wf_flushPort split: stpState.split)
qed (use wf in \<open>simp add: progress_step_def\<close>)

lemma sw_wf_hello: "sw_wf s \<Longrightarrow> sw_wf (helloLocked s)"
proof -
  assume "sw_wf s"
  then have "sw_wf (transmitConfigsLocked (upd_stp (\<lambda>b. b\<lparr>lastHello := 0\<rparr>) s))" (is "sw_wf ?t")
    by (simp add: sw_wf_transmit sw_wf_upd_stp)
  then show ?thesis
    by (simp add: helloLocked_def Let_def sw_wf_upd_stp split: option.split)
qed

lemma sw_wf_tick: "sw_wf s \<Longrightarrow> sw_wf (tickLocked dt s)"
proof -
  assume "sw_wf s"
  then have "sw_wf (snd (ageInfo dt (resyncPortsLocked s)))"
    by (intro sw_wf_ageInfo sw_wf_resync)
  moreover obtain ex s1 where "ageInfo dt (resyncPortsLocked s) = (ex, s1)" by fastforce
  moreover have "sw_wf (fold (progress_step dt) pids t)" if "sw_wf t" for pids t
    using that by (intro fold_inv [where P = sw_wf] sw_wf_progress_step)
  ultimately show ?thesis
    by (simp add: tickLocked_def Let_def sw_wf_upd_stp sw_wf_hello sw_wf_recompute)
qed

lemma sw_wf_stpRun: "sw_wf s \<Longrightarrow> sw_wf (stpRun tick s)"
  by (simp add: stpRun_def sw_wf_tick sw_wf_upd_stp)

lemma sw_wf_handleConfig:
  assumes "sw_wf s" "mget (bports (stp s)) (pe_id (ent s src)) = Some sp"
  shows "sw_wf (handleConfig src sp body s)"
proof -
  have "sw_wf (recomputeLocked (put_sp (pe_id (ent s src)) (sp\<lparr>hasInfo := h, info := i, infoAge := a\<rparr>) s))" for h i a
    using assms by (intro sw_wf_recompute sw_wf_put_sp) simp_all
  then show ?thesis
    using assms(1) by (simp add: handleConfig_def Let_def sw_wf_flush sw_wf_upd_stp)
qed

lemma sw_wf_handleBPDU: "sw_wf s \<Longrightarrow> sw_wf (handleBPDU src fr s)"
  by (simp add: handleBPDU_def Let_def sw_wf_signal sw_wf_handleConfig split: option.split)

end
