(* ===== verification/Switch.thy ===== *)
theory Switch
  imports Stp
begin

text \<open>
  The switch (\<^verbatim>\<open>internal/switchcore/switch.go\<close>, and the port blocking and periodic probes of
  \<^verbatim>\<open>protect.go\<close>): port registry, management of the forwarding database, and the forwarding
  pipeline. A method that returns an error gives \<open>Inl\<close> and leaves the switch as it was.
\<close>

section \<open>Construction and port registry\<close>

datatype sw_error = AttrError attr_error | EmptyPortID | PortExists string | PortNotFound string
  | StaticVLANRange int | StaticNeedsPort | BadMAC nat | StaticMulticast | FdbError fdb_error
  | AgingNotPositive

definition defaultFDBMaxAge :: int where "defaultFDBMaxAge = 300000000000"

text \<open>The eight random bytes \<^verbatim>\<open>newInstanceID\<close> reads are an argument.\<close>

definition New :: "byte list \<Rightarrow> switch" where
  "New random8 = (let iid = newInstanceID random8 in
    \<lparr>store = [], ports = [], sfdb = newFDB defaultFDBMaxAge, instanceID = iid,
     loopProbeNanos = defaultLoopProbeInterval, portNumSeq = 0, stp = newSTPBridge iid,
     downCB = [], asyncs = 0, events = [], stopped = False\<rparr>)"

definition ageLoop :: "time \<Rightarrow> switch \<Rightarrow> switch" where
  "ageLoop now s = upd_fdb (expire now) s"

definition Close :: "switch \<Rightarrow> switch" where
  "Close s = fold (\<lambda>(pid, r). emit (Closed r)) (ports s) (s\<lparr>stopped := True, ports := []\<rparr>)"

text \<open>The identifier \<^verbatim>\<open>p.ID()\<close> of the port is the argument; a fresh entry has Go's zero values.\<close>

definition new_entry :: "string \<Rightarrow> PortAttrs \<Rightarrow> u16 \<Rightarrow> portEntry" where
  "new_entry pid a num = \<lparr>pe_id = pid, attrs = a, stats = zeroStats, gone = False, blockReason = '''',
     storm = zeroBucket, state = Forwarding, portNum = num\<rparr>"

definition AddPort :: "string \<Rightarrow> PortAttrs \<Rightarrow> switch \<Rightarrow> sw_error + switch" where
  "AddPort pid a s =
    (case validate a of
       Some e \<Rightarrow> Inl (AttrError e)
     | None \<Rightarrow>
         if pid = '''' then Inl EmptyPortID
         else if mget (ports s) pid \<noteq> None then Inl (PortExists pid)
         else (let num = portNumSeq s + 1;
                   r = length (store s)
               in Inr (portChangedLocked (s\<lparr>portNumSeq := num, store := store s @ [new_entry pid a num],
                         ports := mput pid r (ports s)\<rparr>))))"

definition portDown :: "string \<Rightarrow> switch \<Rightarrow> switch" where
  "portDown pid s =
    (let s1 = upd_fdb (flushPort pid) s
     in fold (\<lambda>cb. emit (Hook cb pid)) (downCB s1) s1)"

definition RemovePort :: "string \<Rightarrow> switch \<Rightarrow> switch" where
  "RemovePort pid s =
    (case mget (ports s) pid of
       None \<Rightarrow> s
     | Some r \<Rightarrow>
         portDown pid (emit (Closed r) (upd_ent r (\<lambda>e. e\<lparr>gone := True\<rparr>) (s\<lparr>ports := mdel pid (ports s)\<rparr>))))"

definition NotifyDown :: "string \<Rightarrow> switch \<Rightarrow> switch" where
  "NotifyDown pid s = portDown pid s"

text \<open>A hook is named by a number.\<close>

definition OnPortDown :: "nat \<Rightarrow> switch \<Rightarrow> switch" where
  "OnPortDown cb s = s\<lparr>downCB := downCB s @ [cb]\<rparr>"

definition PortAttrs_of :: "string \<Rightarrow> switch \<Rightarrow> PortAttrs option" where
  "PortAttrs_of pid s = map_option (\<lambda>r. attrs (ent s r)) (mget (ports s) pid)"

definition UpdatePortAttrs :: "string \<Rightarrow> PortAttrs \<Rightarrow> switch \<Rightarrow> sw_error + switch" where
  "UpdatePortAttrs pid a s =
    (case validate a of
       Some e \<Rightarrow> Inl (AttrError e)
     | None \<Rightarrow>
         (case mget (ports s) pid of
            None \<Rightarrow> Inl (PortNotFound pid)
          | Some r \<Rightarrow>
              (let old = attrs (ent s r);
                   vlanChanged = (VLAN old \<noteq> VLAN a);
                   s1 = (if Disabled old \<and> \<not> Disabled a
                         then upd_ent r (\<lambda>e. e\<lparr>blockReason := ''''\<rparr>) s else s);
                   s2 = portChangedLocked (upd_ent r (\<lambda>e. e\<lparr>attrs := a\<rparr>) s1)
               in Inr (if vlanChanged then upd_fdb (flushPort pid) s2 else s2))))"

definition PortStats_of :: "string \<Rightarrow> switch \<Rightarrow> PortStats option" where
  "PortStats_of pid s = map_option (\<lambda>r. stats (ent s r)) (mget (ports s) pid)"

definition PortIDs :: "switch \<Rightarrow> string list" where
  "PortIDs s = map fst (ports s)"

section \<open>Forwarding-database management\<close>

definition FDB :: "time \<Rightarrow> switch \<Rightarrow> FDBEntry list" where
  "FDB now s = snapshot now (sfdb s)"

text \<open>The conversion \<^verbatim>\<open>int32(vlan)\<close> of a 64-bit \<^verbatim>\<open>int\<close>.\<close>

definition int32 :: "int \<Rightarrow> int" where
  "int32 v = sint (word_of_int v :: 32 word)"

definition AddStaticFDB :: "time \<Rightarrow> int \<Rightarrow> byte list \<Rightarrow> string \<Rightarrow> switch \<Rightarrow> sw_error + switch" where
  "AddStaticFDB now vlan mac pid s =
    (if vlan < 0 \<or> vlan > 4094 then Inl (StaticVLANRange vlan)
     else if pid = '''' then Inl StaticNeedsPort
     else case macKey mac of
       None \<Rightarrow> Inl (BadMAC (length mac))
     | Some m \<Rightarrow> if isMulticast m then Inl StaticMulticast
                else Inr (upd_fdb (addStatic now (int32 vlan) m pid) s))"

definition RemoveStaticFDB :: "int \<Rightarrow> byte list \<Rightarrow> switch \<Rightarrow> sw_error + switch" where
  "RemoveStaticFDB vlan mac s =
    (case macKey mac of
       None \<Rightarrow> Inl (BadMAC (length mac))
     | Some m \<Rightarrow> (case removeStatic (int32 vlan) m (sfdb s) of
          Inl e \<Rightarrow> Inl (FdbError e)
        | Inr f \<Rightarrow> Inr (s\<lparr>sfdb := f\<rparr>)))"

definition DeleteFDBEntry :: "int \<Rightarrow> byte list \<Rightarrow> switch \<Rightarrow> sw_error + switch" where
  "DeleteFDBEntry vlan mac s =
    (case macKey mac of
       None \<Rightarrow> Inl (BadMAC (length mac))
     | Some m \<Rightarrow> (case removeDynamic (int32 vlan) m (sfdb s) of
          Inl e \<Rightarrow> Inl (FdbError e)
        | Inr f \<Rightarrow> Inr (s\<lparr>sfdb := f\<rparr>)))"

definition FlushFDB :: "string \<Rightarrow> int option \<Rightarrow> switch \<Rightarrow> nat \<times> switch" where
  "FlushFDB pid vlan s =
    (let (n, f) = flush pid (map_option int32 vlan) (sfdb s) in (n, s\<lparr>sfdb := f\<rparr>))"

definition FDBMaxAge :: "switch \<Rightarrow> int" where
  "FDBMaxAge s = getMaxAge (sfdb s)"

definition SetFDBMaxAge :: "int \<Rightarrow> switch \<Rightarrow> sw_error + switch" where
  "SetFDBMaxAge d s = (if d \<le> 0 then Inl AgingNotPositive else Inr (upd_fdb (setMaxAge d) s))"

section \<open>Blocking and probes\<close>

definition blockPort :: "eref \<Rightarrow> string \<Rightarrow> switch \<Rightarrow> switch" where
  "blockPort r reason s =
    (let s1 = (if \<not> Disabled (attrs (ent s r))
               then upd_ent r (\<lambda>e. e\<lparr>attrs := (attrs e)\<lparr>Disabled := True\<rparr>, blockReason := reason\<rparr>) s
               else s)
     in upd_fdb (flushPort (pe_id (ent s r))) s1)"

definition BlockReason :: "string \<Rightarrow> switch \<Rightarrow> string" where
  "BlockReason pid s = (case mget (ports s) pid of Some r \<Rightarrow> blockReason (ent s r) | None \<Rightarrow> '''')"

definition SetLoopProbeInterval :: "int \<Rightarrow> switch \<Rightarrow> switch" where
  "SetLoopProbeInterval d s = (if d > 0 then s\<lparr>loopProbeNanos := d\<rparr> else s)"

text \<open>The body of \<^verbatim>\<open>loopProbeLoop\<close> when its timer fires.\<close>

definition loopProbe :: "switch \<Rightarrow> switch" where
  "loopProbe s =
    fold (\<lambda>(pid, r). emit (Sent r ''loop-probe'' (buildLoopProbe (instanceID s))))
      (filter (\<lambda>(pid, r). LoopDetect (attrs (ent s r)) \<and> \<not> Disabled (attrs (ent s r))) (ports s)) s"

section \<open>The forwarding pipeline\<close>

text \<open>
  One delivery reads the clock for learning, for the lookup and for storm control. What a port
  answers to \<^verbatim>\<open>Send\<close> is the argument \<open>accept\<close>.
\<close>

record clock =
  at_learn :: time
  at_lookup :: time
  at_storm :: int

definition rx_count :: "nat \<Rightarrow> PortStats \<Rightarrow> PortStats" where
  "rx_count n c = c\<lparr>RxFrames := RxFrames c + 1, RxBytes := RxBytes c + word_of_nat n\<rparr>"

definition rx_drop :: "PortStats \<Rightarrow> PortStats" where
  "rx_drop c = c\<lparr>RxDropped := RxDropped c + 1\<rparr>"

definition storm_drop :: "PortStats \<Rightarrow> PortStats" where
  "storm_drop c = c\<lparr>RxDropped := RxDropped c + 1, StormDropped := StormDropped c + 1\<rparr>"

definition tx_count :: "bool \<Rightarrow> nat \<Rightarrow> PortStats \<Rightarrow> PortStats" where
  "tx_count ok n c = (if ok then c\<lparr>TxFrames := TxFrames c + 1, TxBytes := TxBytes c + word_of_nat n\<rparr>
     else c\<lparr>TxDropped := TxDropped c + 1\<rparr>)"

definition send :: "(eref \<Rightarrow> bool) \<Rightarrow> string \<Rightarrow> eref \<Rightarrow> frameVariants \<times> switch \<Rightarrow> frameVariants \<times> switch" where
  "send accept srcID dst vs =
    (case vs of (v, s) \<Rightarrow>
       let (out, v') = egressFrame v (attrs (ent s dst))
       in (v', upd_stats dst (tx_count (accept dst) (length out)) (emit (Sent dst srcID out) s)))"

text \<open>The flood: a delivery to every eligible port but the source, within the storm budget.\<close>

definition floods_to :: "switch \<Rightarrow> string \<Rightarrow> PortAttrs \<Rightarrow> int \<Rightarrow> string \<times> eref \<Rightarrow> bool" where
  "floods_to s srcID srcAttrs key p = (case p of (pid, dst) \<Rightarrow>
     \<not> (pid = srcID \<or> state (ent s dst) \<noteq> Forwarding \<or> \<not> egressEligible srcAttrs (attrs (ent s dst)) key))"

definition flood :: "(eref \<Rightarrow> bool) \<Rightarrow> int \<Rightarrow> eref \<Rightarrow> string \<Rightarrow> PortAttrs \<Rightarrow> int \<Rightarrow> frameVariants \<Rightarrow> switch \<Rightarrow> switch" where
  "flood accept now src srcID srcAttrs key v s =
    (let (ok, s1) =
       (if StormPPS srcAttrs > 0
        then (let (ok, b) = allow now (StormPPS srcAttrs) (storm (ent s src))
              in (ok, upd_ent src (\<lambda>e. e\<lparr>storm := b\<rparr>) s))
        else (True, s))
     in if \<not> ok then upd_stats src storm_drop s1
        else snd (fold (\<lambda>p vs. if floods_to (snd vs) srcID srcAttrs key p then send accept srcID (snd p) vs else vs)
               (ports s1) (v, s1)))"

definition unicast_ok :: "switch \<Rightarrow> string \<Rightarrow> PortAttrs \<Rightarrow> int \<Rightarrow> eref \<Rightarrow> bool" where
  "unicast_ok s srcID srcAttrs key dst \<longleftrightarrow>
     pe_id (ent s dst) \<noteq> srcID \<and> \<not> gone (ent s dst) \<and> state (ent s dst) = Forwarding
     \<and> egressEligible srcAttrs (attrs (ent s dst)) key"

text \<open>Forwarding of a frame that passed the ingress checks: by the database, or by flooding.\<close>

definition forward :: "clock \<Rightarrow> (eref \<Rightarrow> bool) \<Rightarrow> eref \<Rightarrow> string \<Rightarrow> PortAttrs \<Rightarrow> int \<Rightarrow> frameView \<Rightarrow> switch \<Rightarrow> switch" where
  "forward clk accept src srcID srcAttrs key f s =
    (let v = newVariants f key;
         (dst, dstID) = (if isMulticast (dstMAC f) then (None, '''')
                         else lookup (at_lookup clk) key (dstMAC f) (sfdb s))
     in if dstID \<noteq> '''' then
          (case (case dst of None \<Rightarrow> mget (ports s) dstID | Some r \<Rightarrow> Some r) of
             None \<Rightarrow> s
           | Some r \<Rightarrow> if unicast_ok s srcID srcAttrs key r then snd (send accept srcID r (v, s)) else s)
        else flood accept (at_storm clk) src srcID srcAttrs key v s)"

definition security_ok :: "PortAttrs \<Rightarrow> mac \<Rightarrow> bool" where
  "security_ok a m = (case SecurityMAC a of None \<Rightarrow> True
     | Some want \<Rightarrow> m = take macLen (want @ replicate macLen 0))"

text \<open>The ingress checks after the control frames, and learning.\<close>

definition ingress :: "clock \<Rightarrow> (eref \<Rightarrow> bool) \<Rightarrow> eref \<Rightarrow> string \<Rightarrow> PortAttrs \<Rightarrow> frameView \<Rightarrow> switch \<Rightarrow> switch" where
  "ingress clk accept src srcID srcAttrs f s =
    (let st = state (ent s src); drop_it = upd_stats src rx_drop
     in if st = Blocking \<or> st = Listening then drop_it s
        else case ingressKey srcAttrs f of
          None \<Rightarrow> drop_it s
        | Some key \<Rightarrow>
            if \<not> security_ok srcAttrs (srcMAC f) then drop_it s
            else (let s1 = (if \<not> isMulticast (srcMAC f)
                            then upd_fdb (learn (at_learn clk) key (srcMAC f) (pe_id (ent s src)) src) s else s)
                  in if st = Learning then drop_it s1
                     else forward clk accept src srcID srcAttrs key f s1))"

definition deliver :: "clock \<Rightarrow> (eref \<Rightarrow> bool) \<Rightarrow> eref \<Rightarrow> frame \<Rightarrow> switch \<Rightarrow> switch" where
  "deliver clk accept src fr s =
    (case parseFrame fr of
       None \<Rightarrow> s
     | Some f \<Rightarrow>
         if gone (ent s src) then s
         else (let srcID = pe_id (ent s src);
                   srcAttrs = attrs (ent s src);
                   s1 = upd_stats src (rx_count (length fr)) s
               in if Disabled srcAttrs then upd_stats src rx_drop s1
                  else if dstMAC f = loopProbeDst \<and> isOwnLoopProbe (instanceID s) fr then blockPort src ''loop'' s1
                  else if isReservedGroupMAC (dstMAC f) then
                    (if BPDUGuard srcAttrs \<and> isBPDU (dstMAC f) fr then blockPort src ''bpdu_guard'' s1
                     else if STP srcAttrs \<and> isBPDU (dstMAC f) fr then handleBPDU src fr s1
                     else s1)
                  else ingress clk accept src srcID srcAttrs f s1))"

definition Deliver :: "clock \<Rightarrow> (eref \<Rightarrow> bool) \<Rightarrow> string \<Rightarrow> frame \<Rightarrow> switch \<Rightarrow> switch" where
  "Deliver clk accept srcID fr s =
    (case mget (ports s) srcID of None \<Rightarrow> s | Some src \<Rightarrow> deliver clk accept src fr s)"

section \<open>Cached handles\<close>

record PortRef =
  ref_id :: string
  cached :: "eref option"

definition Ref :: "string \<Rightarrow> PortRef" where
  "Ref pid = \<lparr>ref_id = pid, cached = None\<rparr>"

definition RefDeliver :: "clock \<Rightarrow> (eref \<Rightarrow> bool) \<Rightarrow> frame \<Rightarrow> PortRef \<times> switch \<Rightarrow> PortRef \<times> switch" where
  "RefDeliver clk accept fr rs =
    (case rs of (ref, s) \<Rightarrow>
       case cached ref of
         Some e \<Rightarrow>
           if \<not> gone (ent s e) then (ref, deliver clk accept e fr s)
           else (case mget (ports s) (ref_id ref) of
                   None \<Rightarrow> (ref, s)
                 | Some e' \<Rightarrow> (ref\<lparr>cached := Some e'\<rparr>, deliver clk accept e' fr s))
       | None \<Rightarrow>
           (case mget (ports s) (ref_id ref) of
              None \<Rightarrow> (ref, s)
            | Some e' \<Rightarrow> (ref\<lparr>cached := Some e'\<rparr>, deliver clk accept e' fr s)))"

end
