(* ===== verification/SwitchInv.thy ===== *)
theory SwitchInv
  imports Switch
begin

text \<open>
  The operations of the switch as one transition system, and the invariant \<open>sw_wf\<close> of every state
  it reaches.
\<close>

section \<open>Operations\<close>

datatype sw_op =
    OpAddPort string PortAttrs | OpRemovePort string | OpNotifyDown string | OpOnPortDown nat
  | OpUpdatePortAttrs string PortAttrs | OpAddStaticFDB time int "byte list" string
  | OpRemoveStaticFDB int "byte list" | OpDeleteFDBEntry int "byte list"
  | OpFlushFDB string "int option" | OpSetFDBMaxAge int | OpSetLoopProbeInterval int
  | OpSetSTPConfig STPConfig | OpAge time | OpProbe | OpStpAsync | OpStpRun int
  | OpDeliver clock "eref \<Rightarrow> bool" string frame | OpDeliverEntry clock "eref \<Rightarrow> bool" eref frame
  | OpClose

definition or_same :: "switch \<Rightarrow> sw_error + switch \<Rightarrow> switch" where
  "or_same s res = (case res of Inl e \<Rightarrow> s | Inr s' \<Rightarrow> s')"

text \<open>A cached handle holds a pointer the store knows; nothing else can be delivered through one.\<close>

fun exec_sw :: "sw_op \<Rightarrow> switch \<Rightarrow> switch" where
  "exec_sw (OpAddPort pid a) s = or_same s (AddPort pid a s)"
| "exec_sw (OpRemovePort pid) s = RemovePort pid s"
| "exec_sw (OpNotifyDown pid) s = NotifyDown pid s"
| "exec_sw (OpOnPortDown cb) s = OnPortDown cb s"
| "exec_sw (OpUpdatePortAttrs pid a) s = or_same s (UpdatePortAttrs pid a s)"
| "exec_sw (OpAddStaticFDB t v m pid) s = or_same s (AddStaticFDB t v m pid s)"
| "exec_sw (OpRemoveStaticFDB v m) s = or_same s (RemoveStaticFDB v m s)"
| "exec_sw (OpDeleteFDBEntry v m) s = or_same s (DeleteFDBEntry v m s)"
| "exec_sw (OpFlushFDB pid v) s = snd (FlushFDB pid v s)"
| "exec_sw (OpSetFDBMaxAge d) s = or_same s (SetFDBMaxAge d s)"
| "exec_sw (OpSetLoopProbeInterval d) s = SetLoopProbeInterval d s"
| "exec_sw (OpSetSTPConfig c) s = SetSTPConfig c s"
| "exec_sw (OpAge t) s = ageLoop t s"
| "exec_sw OpProbe s = loopProbe s"
| "exec_sw OpStpAsync s = stpAsync s"
| "exec_sw (OpStpRun tick) s = stpRun tick s"
| "exec_sw (OpDeliver clk acc pid fr) s = Deliver clk acc pid fr s"
| "exec_sw (OpDeliverEntry clk acc r fr) s = (if r < length (store s) then deliver clk acc r fr s else s)"
| "exec_sw OpClose s = Close s"

section \<open>Preservation by the management operations\<close>

lemma sw_wf_New: "sw_wf (New random8)"
  by (simp add: New_def Let_def sw_wf_def reg_wf_def stp_wf_def fdb_refs_def store_wf_def newSTPBridge_def
      fdb_wf_new) (simp add: newFDB_def defaultFDBMaxAge_def)

lemma sw_wf_fold_emit: "sw_wf s \<Longrightarrow> sw_wf (fold (\<lambda>x. emit (g x)) xs s)"
  by (intro fold_inv [where P = sw_wf]) simp_all

lemma sw_wf_fold_emit_pair: "sw_wf s \<Longrightarrow> sw_wf (fold (\<lambda>(x, y). emit (g x y)) xs s)"
  by (intro fold_inv [where P = sw_wf]) auto

lemma sw_wf_Close: "sw_wf s \<Longrightarrow> sw_wf (Close s)"
  unfolding Close_def
  by (intro sw_wf_fold_emit_pair) (simp add: sw_wf_def wf_defs)

lemma sw_wf_AddPort:
  assumes wf: "sw_wf s" and ok: "AddPort pid a s = Inr s'"
  shows "sw_wf s'"
proof -
  let ?num = "portNumSeq s + 1" and ?r = "length (store s)"
  let ?t = "s\<lparr>portNumSeq := ?num, store := store s @ [new_entry pid a ?num], ports := mput pid ?r (ports s)\<rparr>"
  have new: "validate a = None" "pid \<noteq> ''''" "mget (ports s) pid = None" and s': "s' = portChangedLocked ?t"
    using ok by (auto simp: AddPort_def Let_def split: option.splits if_splits)
  have old: "ent ?t r = ent s r" if "r < ?r" for r
    using that by (simp add: ent_def nth_append)
  have fresh: "ent ?t ?r = new_entry pid a ?num" by (simp add: ent_def)
  have ok_mono: "entry_ok s p r \<Longrightarrow> entry_ok ?t p r" for p r
    using old by (simp add: entry_ok_def)
  have "reg_wf ?t"
    unfolding reg_wf_def
  proof (intro conjI allI impI)
    show "mwf (ports ?t)" using sw_wfD(1) [OF wf] by simp
  next
    fix p r assume *: "mget (ports ?t) p = Some r"
    show "entry_ok ?t p r"
      using * sw_wfD(5) [OF wf, of p r] ok_mono fresh
      by (cases "p = pid") (auto simp: mget_mput entry_ok_def new_entry_def)
    show "\<not> gone (ent ?t r)"
      using * sw_wfD(5,6) [OF wf, of p r] old [of r] fresh
      by (cases "p = pid") (auto simp: mget_mput entry_ok_def new_entry_def)
  next
    fix r assume "r < length (store ?t)" "\<not> gone (ent ?t r)" "\<not> stopped ?t"
    then show "mget (ports ?t) (pe_id (ent ?t r)) = Some r"
      using sw_wfD(11) [OF wf, of r] new(3) old [of r] fresh
      by (cases "r = ?r") (auto simp: mget_mput new_entry_def)
  qed
  moreover have "stp_wf ?t"
    unfolding stp_wf_def
  proof (intro conjI allI impI)
    show "mwf (bports (stp ?t))" using sw_wfD(2) [OF wf] by simp
  next
    fix p sp assume "mget (bports (stp ?t)) p = Some sp"
    then have *: "mget (bports (stp s)) p = Some sp" by simp
    show "entry_ok ?t p (sp_entry sp)" using sw_wfD(7) [OF wf *] by (rule ok_mono)
    show "role sp = RoleBlocked \<longleftrightarrow> state (ent ?t (sp_entry sp)) = Blocking"
      using sw_wfD(7,8) [OF wf *] old by (simp add: entry_ok_def)
  next
    fix r assume "r < length (store ?t)" "state (ent ?t r) \<noteq> Forwarding"
    then show "\<exists>sp. mget (bports (stp ?t)) (pe_id (ent ?t r)) = Some sp \<and> sp_entry sp = r"
      using sw_wfD(9) [OF wf, of r] old [of r] fresh by (cases "r = ?r") (auto simp: new_entry_def)
  qed
  moreover have "fdb_refs ?t" "store_wf ?t"
    using wf new ok_mono by (simp_all add: sw_wf_def fdb_refs_def store_wf_def new_entry_def)
  ultimately show ?thesis by (simp add: s' portChangedLocked_def sw_wf_def [of ?t])
qed

lemma sw_wf_portDown: "sw_wf s \<Longrightarrow> sw_wf (portDown pid s)"
  unfolding portDown_def Let_def by (intro sw_wf_fold_emit sw_wf_flushPort)

lemma sw_wf_RemovePort: "sw_wf s \<Longrightarrow> sw_wf (RemovePort pid s)"
proof (cases "mget (ports s) pid")
  case (Some r)
  assume wf: "sw_wf s"
  have r: "r < length (store s)" "pe_id (ent s r) = pid"
    using sw_wfD(5) [OF wf Some] by (simp_all add: entry_ok_def)
  let ?t = "upd_ent r (\<lambda>e. e\<lparr>gone := True\<rparr>) (s\<lparr>ports := mdel pid (ports s)\<rparr>)"
  have e: "ent ?t r' = (if r' = r then (ent s r)\<lparr>gone := True\<rparr> else ent s r')" for r'
    using r(1) by (simp add: ent_upd_ent) (simp add: ent_def)
  have sel: "ports ?t = mdel pid (ports s)" "stp ?t = stp s" "sfdb ?t = sfdb s" "stopped ?t = stopped s"
      "length (store ?t) = length (store s)"
    by (simp_all add: upd_ent_def)
  have uniq: "r' = r" if "r' < length (store s)" "\<not> gone (ent s r')" "\<not> stopped s" "pe_id (ent s r') = pid" for r'
    using sw_wfD(11) [OF wf that(1-3)] that(4) Some by simp
  have "reg_wf ?t"
    unfolding reg_wf_def
  proof (intro conjI allI impI)
    show "mwf (ports ?t)" using sw_wfD(1) [OF wf] by (simp add: sel)
  next
    fix p r' assume "mget (ports ?t) p = Some r'"
    then have *: "mget (ports s) p = Some r'" "p \<noteq> pid" by (simp_all add: sel mget_mdel split: if_splits)
    then have "entry_ok s p r'" "r' \<noteq> r" using sw_wfD(5) [OF wf *(1)] r by (auto simp: entry_ok_def)
    then show "entry_ok ?t p r'" "\<not> gone (ent ?t r')"
      using sw_wfD(6) [OF wf *(1)] by (simp_all add: entry_ok_def e sel)
  next
    fix r' assume "r' < length (store ?t)" "\<not> gone (ent ?t r')" "\<not> stopped ?t"
    then have *: "r' < length (store s)" "\<not> gone (ent s r')" "\<not> stopped s" "r' \<noteq> r"
      by (simp_all add: sel e split: if_splits)
    with uniq have "pe_id (ent s r') \<noteq> pid" by blast
    then show "mget (ports ?t) (pe_id (ent ?t r')) = Some r'"
      using sw_wfD(11) [OF wf *(1-3)] *(4) by (simp add: sel e mget_mdel)
  qed
  moreover have same: "pe_id (ent ?t r') = pe_id (ent s r')" "state (ent ?t r') = state (ent s r')" for r'
    by (simp_all add: e)
  have "stp_wf ?t" "fdb_refs ?t"
    using wf by (simp_all add: sw_wf_def stp_wf_def fdb_refs_def entry_ok_def same sel)
  moreover have "store_wf ?t"
    using wf ent_in_store [OF r(1)]
    by (auto simp: sw_wf_def store_wf_def ent_def dest!: store_set_upd_ent)
  ultimately have "sw_wf ?t" by (simp add: sw_wf_def)
  then show ?thesis by (simp add: RemovePort_def Some sw_wf_portDown)
qed (simp add: RemovePort_def)

lemma sw_wf_UpdatePortAttrs: "sw_wf s \<Longrightarrow> UpdatePortAttrs pid a s = Inr s' \<Longrightarrow> sw_wf s'"
proof -
  assume wf: "sw_wf s" and ok: "UpdatePortAttrs pid a s = Inr s'"
  have v: "validate a = None"
    using ok by (simp add: UpdatePortAttrs_def split: option.splits)
  have "sw_wf (upd_ent r (\<lambda>e. e\<lparr>attrs := a\<rparr>) t)" "sw_wf (upd_ent r (\<lambda>e. e\<lparr>blockReason := b\<rparr>) t)" if "sw_wf t" for r b t
    using that v by (auto intro: sw_wf_cong_entries)
  with wf ok v show ?thesis
    by (auto simp: UpdatePortAttrs_def portChangedLocked_def Let_def sw_wf_flushPort split: option.splits if_splits)
qed

lemma sw_wf_set_fdb:
  assumes "sw_wf s" "fdb_wf f" "0 < maxAge f"
    "\<And>k e r. mget (fm f) k = Some e \<Longrightarrow> fport e = Some r \<Longrightarrow>
      mget (fm (sfdb s)) k = Some e \<or> entry_ok s (portID e) r"
  shows "sw_wf (s\<lparr>sfdb := f\<rparr>)"
  using sw_wf_upd_fdb [of s "\<lambda>_. f"] assms by (simp add: upd_fdb_def)

lemma sw_wf_addStatic: "sw_wf s \<Longrightarrow> pid \<noteq> '''' \<Longrightarrow> sw_wf (upd_fdb (addStatic t v m pid) s)"
  using sw_wfD(3,4) [of s]
  by (intro sw_wf_upd_fdb) (auto simp: addStatic_def fdb_wf_put mget_mput split: if_splits)

lemma sw_wf_mdel: "sw_wf s \<Longrightarrow> sw_wf (s\<lparr>sfdb := (sfdb s)\<lparr>fm := mdel k (fm (sfdb s))\<rparr>\<rparr>)"
  using sw_wfD(3,4) [of s]
  by (intro sw_wf_set_fdb) (auto simp: fdb_wf_del mget_mdel split: if_splits)

lemma sw_wf_removals:
  assumes "sw_wf s"
  shows "RemoveStaticFDB v m s = Inr s' \<Longrightarrow> sw_wf s'" "DeleteFDBEntry v m s = Inr s' \<Longrightarrow> sw_wf s'"
  using sw_wf_mdel [OF assms]
  by (auto simp: RemoveStaticFDB_def DeleteFDBEntry_def removeStatic_def removeDynamic_def
      split: option.splits sum.splits if_splits)

lemma sw_wf_FlushFDB: "sw_wf s \<Longrightarrow> sw_wf (snd (FlushFDB pid v s))"
  using sw_wf_flush [of s pid "map_option int32 v"] by (simp add: FlushFDB_def upd_fdb_def case_prod_beta)

lemma sw_wf_SetFDBMaxAge: "sw_wf s \<Longrightarrow> SetFDBMaxAge d s = Inr s' \<Longrightarrow> sw_wf s'"
  using sw_wfD(3,4) [of s]
  by (auto simp: SetFDBMaxAge_def setMaxAge_def fdb_wf_def intro!: sw_wf_upd_fdb split: if_splits)

lemma sw_wf_ageLoop: "sw_wf s \<Longrightarrow> sw_wf (ageLoop t s)"
  unfolding ageLoop_def by (rule sw_wf_mkeep) (simp_all add: expire_def Let_def)

lemma sw_wf_misc [simp]:
  "sw_wf (OnPortDown cb s) = sw_wf s" "sw_wf (SetLoopProbeInterval d s) = sw_wf s"
  by (simp_all add: OnPortDown_def SetLoopProbeInterval_def sw_wf_def wf_defs)

lemma sw_wf_loopProbe: "sw_wf s \<Longrightarrow> sw_wf (loopProbe s)"
  unfolding loopProbe_def by (rule sw_wf_fold_emit_pair)

section \<open>Preservation by the forwarding pipeline\<close>

lemma sw_wf_stats: "sw_wf s \<Longrightarrow> sw_wf (upd_stats r f s)"
  by (simp add: upd_stats_def sw_wf_cong_entries)

lemma sw_wf_blockPort: "sw_wf s \<Longrightarrow> sw_wf (blockPort r why s)"
proof -
  have "validate (x\<lparr>Disabled := True\<rparr>) = validate x" for x :: PortAttrs
    by (simp add: validate_def split: option.split)
  then have "sw_wf s \<Longrightarrow> sw_wf (upd_ent r (\<lambda>e. e\<lparr>attrs := (attrs e)\<lparr>Disabled := True\<rparr>, blockReason := why\<rparr>) s)"
    by (intro sw_wf_cong_entries) simp_all
  then show "sw_wf s \<Longrightarrow> ?thesis"
    by (simp add: blockPort_def Let_def sw_wf_flushPort)
qed

lemma sw_wf_send: "sw_wf (snd vs) \<Longrightarrow> sw_wf (snd (send acc sid dst vs))"
  by (cases vs) (simp add: send_def sw_wf_stats split: prod.split)

lemma sw_wf_flood: "sw_wf s \<Longrightarrow> sw_wf (flood acc now src sid sa key v s)"
proof -
  assume "sw_wf s"
  then have *: "sw_wf (upd_ent src (\<lambda>e. e\<lparr>storm := b\<rparr>) s)" for b
    by (intro sw_wf_cong_entries) simp_all
  have "sw_wf (snd (fold (\<lambda>p vs. if floods_to (snd vs) sid sa key p then send acc sid (snd p) vs else vs) ps (v, t)))"
    if "sw_wf t" for ps t
    using that by (intro fold_inv [where P = "\<lambda>vs. sw_wf (snd vs)"]) (simp_all add: sw_wf_send)
  with * \<open>sw_wf s\<close> show ?thesis
    by (auto simp: flood_def Let_def sw_wf_stats split: prod.split)
qed

lemma sw_wf_forward: "sw_wf s \<Longrightarrow> sw_wf (forward clk acc src sid sa key f s)"
  by (simp add: forward_def Let_def sw_wf_flood sw_wf_send split: prod.split option.split)

lemma sw_wf_learn:
  assumes wf: "sw_wf s" and src: "src < length (store s)"
  shows "sw_wf (upd_fdb (learn t key m (pe_id (ent s src)) src) s)"
proof -
  have id: "pe_id (ent s src) \<noteq> ''''"
    using wf ent_in_store [OF src] by (simp add: sw_wf_def store_wf_def)
  show ?thesis
    using wf
  proof (rule sw_wf_upd_fdb)
    show "fdb_wf (learn t key m (pe_id (ent s src)) src (sfdb s))"
      using sw_wfD(3) [OF wf] id by (rule learn_wf)
    show "0 < maxAge (learn t key m (pe_id (ent s src)) src (sfdb s))"
      using sw_wfD(4) [OF wf] by (simp add: learn_def Let_def split: option.split)
    fix k e r
    assume "mget (fm (learn t key m (pe_id (ent s src)) src (sfdb s))) k = Some e" "fport e = Some r"
    then show "mget (fm (sfdb s)) k = Some e \<or> entry_ok s (portID e) r"
      using src by (auto simp: learn_def Let_def mget_mput entry_ok_def split: option.splits if_splits)
  qed
qed

lemma stats_sel [simp]:
  "ports (upd_stats r g s) = ports s" "stp (upd_stats r g s) = stp s" "sfdb (upd_stats r g s) = sfdb s"
  "events (upd_stats r g s) = events s" "instanceID (upd_stats r g s) = instanceID s"
  "length (store (upd_stats r g s)) = length (store s)" "stopped (upd_stats r g s) = stopped s"
  by (simp_all add: upd_stats_def)

lemma stats_ent [simp]:
  "pe_id (ent (upd_stats r g s) r') = pe_id (ent s r')" "attrs (ent (upd_stats r g s) r') = attrs (ent s r')"
  "state (ent (upd_stats r g s) r') = state (ent s r')" "gone (ent (upd_stats r g s) r') = gone (ent s r')"
  "storm (ent (upd_stats r g s) r') = storm (ent s r')" "blockReason (ent (upd_stats r g s) r') = blockReason (ent s r')"
  by (simp_all add: upd_stats_def ent_upd_ent)

lemma sw_wf_ingress:
  assumes wf: "sw_wf s" and src: "src < length (store s)"
  shows "sw_wf (ingress clk acc src sid sa f s)"
  using wf sw_wf_learn [OF wf src]
  by (simp add: ingress_def Let_def sw_wf_stats sw_wf_forward split: option.split)

lemma sw_wf_deliver:
  assumes wf: "sw_wf s" and src: "src < length (store s)"
  shows "sw_wf (deliver clk acc src fr s)"
  using wf src
  by (simp add: deliver_def Let_def sw_wf_stats sw_wf_blockPort sw_wf_handleBPDU sw_wf_ingress split: option.split)

lemma sw_wf_Deliver: "sw_wf s \<Longrightarrow> sw_wf (Deliver clk acc pid fr s)"
  using sw_wfD(5) [of s pid] by (auto simp: Deliver_def entry_ok_def sw_wf_deliver split: option.split)

lemma sw_wf_or_same: "sw_wf s \<Longrightarrow> (\<And>s'. res = Inr s' \<Longrightarrow> sw_wf s') \<Longrightarrow> sw_wf (or_same s res)"
  by (simp add: or_same_def split: sum.split)

lemmas sw_wf_ops = sw_wf_RemovePort sw_wf_portDown sw_wf_FlushFDB sw_wf_SetSTPConfig sw_wf_ageLoop
  sw_wf_loopProbe sw_wf_stpAsync sw_wf_stpRun sw_wf_Deliver sw_wf_deliver sw_wf_Close

lemma sw_wf_AddStaticFDB: "sw_wf s \<Longrightarrow> AddStaticFDB t v m pid s = Inr s' \<Longrightarrow> sw_wf s'"
  by (auto simp: AddStaticFDB_def sw_wf_addStatic split: option.splits if_splits)

lemma sw_wf_exec:
  assumes wf: "sw_wf s"
  shows "sw_wf (exec_sw op s)"
proof (cases op)
  case (OpAddPort pid a)
  then show ?thesis using sw_wf_or_same [OF wf sw_wf_AddPort [OF wf]] by simp
next
  case (OpUpdatePortAttrs pid a)
  then show ?thesis using sw_wf_or_same [OF wf sw_wf_UpdatePortAttrs [OF wf]] by simp
next
  case (OpAddStaticFDB t v m pid)
  then show ?thesis using sw_wf_or_same [OF wf sw_wf_AddStaticFDB [OF wf]] by simp
next
  case (OpRemoveStaticFDB v m)
  then show ?thesis using sw_wf_or_same [OF wf sw_wf_removals(1) [OF wf]] by simp
next
  case (OpDeleteFDBEntry v m)
  then show ?thesis using sw_wf_or_same [OF wf sw_wf_removals(2) [OF wf]] by simp
next
  case (OpSetFDBMaxAge d)
  then show ?thesis using sw_wf_or_same [OF wf sw_wf_SetFDBMaxAge [OF wf]] by simp
qed (use wf in \<open>simp_all add: NotifyDown_def sw_wf_ops\<close>)

interpretation sw: invariant_system exec_sw sw_wf
  by unfold_locales (rule sw_wf_exec)

lemma reachable_wf: "sw_wf (fold exec_sw ops (New random8))"
  by (rule sw.inv_run [OF sw_wf_New])

text \<open>
  C3. Every state the switch can reach is well-formed: after any sequence of operations from a new
  switch the references of the registry, the spanning tree and the forwarding table point at
  entries of the right identifier, registered entries are live and live entries registered, ports
  outside the tree forward, and a port of the tree is blocking exactly if its role is blocked.
\<close>

theorem reachable_switch_wf: "sw_wf (fold exec_sw ops (New random8))"
  by (rule reachable_wf)

end
