(* ===== verification/Pipeline.thy ===== *)
theory Pipeline
  imports SwitchInv
begin

text \<open>
  What the forwarding pipeline does: the copies a delivered frame produces, against a reference
  bridge over the abstract forwarding table, and the safety properties that follow.
\<close>

section \<open>Reference bridge\<close>

text \<open>
  The frame is a control frame: one of this switch's own loop probes, or a frame to a reserved
  group address.
\<close>

definition control_frame :: "switch \<Rightarrow> frame \<Rightarrow> frameView \<Rightarrow> bool" where
  "control_frame s fr f \<longleftrightarrow>
     (dstMAC f = loopProbeDst \<and> isOwnLoopProbe (instanceID s) fr) \<or> isReservedGroupMAC (dstMAC f)"

definition table_after :: "clock \<Rightarrow> eref \<Rightarrow> frameView \<Rightarrow> int \<Rightarrow> switch \<Rightarrow> fdb_spec" where
  "table_after clk src f key s =
    (if isMulticast (srcMAC f) then fdb_abs (sfdb s)
     else spec_exec (Dyn (Learn (at_learn clk) key (srcMAC f) (pe_id (ent s src)) src)) (fdb_abs (sfdb s)))"

text \<open>Does the storm budget of the source admit one more flooded frame?\<close>

definition storm_admits :: "clock \<Rightarrow> eref \<Rightarrow> switch \<Rightarrow> bool" where
  "storm_admits clk src s \<longleftrightarrow> StormPPS (attrs (ent s src)) = 0
     \<or> fst (allow (at_storm clk) (StormPPS (attrs (ent s src))) (storm (ent s src)))"

text \<open>
  The entries a bridge sends the frame to, given the answer of the table: the one it names, if that
  port may take the frame, and otherwise all eligible ports.
\<close>

definition out_refs :: "switch \<Rightarrow> eref \<Rightarrow> int \<Rightarrow> eref option \<times> string \<Rightarrow> bool \<Rightarrow> eref list" where
  "out_refs s src key hit admits =
    (let sid = pe_id (ent s src); a = attrs (ent s src)
     in if snd hit \<noteq> '''' then
          filter (unicast_ok s sid a key)
            (case fst hit of Some r \<Rightarrow> [r]
             | None \<Rightarrow> (case mget (ports s) (snd hit) of Some r \<Rightarrow> [r] | None \<Rightarrow> []))
        else if admits then map snd (filter (floods_to s sid a key) (ports s)) else [])"

definition bridge_out :: "clock \<Rightarrow> eref \<Rightarrow> frameView \<Rightarrow> int \<Rightarrow> switch \<Rightarrow> eref list" where
  "bridge_out clk src f key s =
    out_refs s src key
      (if isMulticast (dstMAC f) then (None, '''')
       else spec_lookup (at_lookup clk) (key, dstMAC f) (table_after clk src f key s))
      (storm_admits clk src s)"

section \<open>Sending\<close>

text \<open>
  Two states that agree on everything forwarding reads: the registry, the table, and every entry
  but its counters and storm bucket.
\<close>

definition fwd_eq :: "switch \<Rightarrow> switch \<Rightarrow> bool" where
  "fwd_eq s t \<longleftrightarrow> ports t = ports s \<and> sfdb t = sfdb s \<and> instanceID t = instanceID s \<and> stp t = stp s
    \<and> length (store t) = length (store s) \<and> stopped t = stopped s
    \<and> (\<forall>r. pe_id (ent t r) = pe_id (ent s r) \<and> attrs (ent t r) = attrs (ent s r)
        \<and> state (ent t r) = state (ent s r) \<and> gone (ent t r) = gone (ent s r))"

lemma fwd_eq_refl [simp]: "fwd_eq s s"
  by (simp add: fwd_eq_def)

lemma fwd_eq_trans: "fwd_eq s t \<Longrightarrow> fwd_eq t u \<Longrightarrow> fwd_eq s u"
  by (simp add: fwd_eq_def)

lemma fwd_eq_stats [simp]: "fwd_eq s (upd_stats r g s)"
  by (simp add: fwd_eq_def)

lemma fwd_eq_storm [simp]: "fwd_eq s (upd_ent r (\<lambda>e. e\<lparr>storm := b\<rparr>) s)"
  by (simp add: fwd_eq_def ent_upd_ent)

lemma fwd_eq_emit [simp]: "fwd_eq s (emit ev s)"
  by (simp add: fwd_eq_def)

lemma floods_to_cong: "fwd_eq s t \<Longrightarrow> floods_to t sid a key = floods_to s sid a key"
  by (simp add: fun_eq_iff floods_to_def fwd_eq_def)

lemma unicast_ok_cong: "fwd_eq s t \<Longrightarrow> unicast_ok t sid a key = unicast_ok s sid a key"
  by (simp add: fun_eq_iff unicast_ok_def fwd_eq_def)

lemma out_refs_cong:
  assumes p: "ports t = ports s" and e: "\<And>r. pe_id (ent t r) = pe_id (ent s r)"
    "\<And>r. attrs (ent t r) = attrs (ent s r)" "\<And>r. state (ent t r) = state (ent s r)"
    "\<And>r. gone (ent t r) = gone (ent s r)"
  shows "out_refs t src key hit ok = out_refs s src key hit ok"
proof -
  have "unicast_ok t = unicast_ok s" "floods_to t = floods_to s"
    by (simp_all add: fun_eq_iff unicast_ok_def floods_to_def e)
  then show ?thesis unfolding out_refs_def Let_def p e by simp
qed

text \<open>Variants of the frame \<open>f\<close> in the domain \<open>key\<close>, whatever is cached.\<close>

definition variants_of :: "frameView \<Rightarrow> int \<Rightarrow> frameVariants \<Rightarrow> bool" where
  "variants_of f key v \<longleftrightarrow> variants_wf v \<and> fv_f v = f \<and> fv_key v = key"

lemma variants_of_new: "view_wf f \<Longrightarrow> variants_of f key (newVariants f key)"
  by (simp add: variants_of_def newVariants_wf)

lemma send_step:
  assumes "variants_of f key v"
  shows "variants_of f key (fst (send acc sid dst (v, s)))"
    and "events (snd (send acc sid dst (v, s))) = events s @ [Sent dst sid (render f key (attrs (ent s dst)))]"
    and "fwd_eq s (snd (send acc sid dst (v, s)))"
proof -
  have v: "variants_wf v" "fv_f v = f" "fv_key v = key"
    using assms by (simp_all add: variants_of_def)
  show "fwd_eq s (snd (send acc sid dst (v, s)))"
    by (simp add: send_def case_prod_beta fwd_eq_trans [OF fwd_eq_emit fwd_eq_stats])
  show "variants_of f key (fst (send acc sid dst (v, s)))"
    "events (snd (send acc sid dst (v, s))) = events s @ [Sent dst sid (render f key (attrs (ent s dst)))]"
    using egressFrame_wf [OF v(1), of "attrs (ent s dst)"] v
    by (simp_all add: send_def variants_of_def case_prod_beta)
qed

lemma flood_fold:
  defines "step \<equiv> \<lambda>acc sid a key p vs. if floods_to (snd vs) sid a key p then send acc sid (snd p) vs else vs"
  assumes "variants_of f key v"
  shows "events (snd (fold (step acc sid a key) ps (v, s))) = events s @
      map (\<lambda>p. Sent (snd p) sid (render f key (attrs (ent s (snd p))))) (filter (floods_to s sid a key) ps)
    \<and> fwd_eq s (snd (fold (step acc sid a key) ps (v, s)))"
  using assms(2)
proof (induction ps arbitrary: v s)
  case (Cons p ps)
  obtain v' s' where st: "send acc sid (snd p) (v, s) = (v', s')" by fastforce
  have next_v: "variants_of f key v'"
      and ev: "events s' = events s @ [Sent (snd p) sid (render f key (attrs (ent s (snd p))))]" and eq: "fwd_eq s s'"
    using send_step [OF Cons.prems, where acc = acc and sid = sid and dst = "snd p" and s = s] by (simp_all add: st)
  have same: "attrs (ent s' r) = attrs (ent s r)" for r using eq by (simp add: fwd_eq_def)
  show ?case
    using Cons.IH [OF Cons.prems, of s] Cons.IH [OF next_v, of s'] fwd_eq_trans [OF eq] ev
    by (simp add: step_def st floods_to_cong [OF eq] same)
qed simp

section \<open>The copies of a forwarded frame\<close>

abbreviation copies :: "string \<Rightarrow> frameView \<Rightarrow> int \<Rightarrow> switch \<Rightarrow> eref list \<Rightarrow> event list" where
  "copies sid f key s rs \<equiv> map (\<lambda>r. Sent r sid (render f key (attrs (ent s r)))) rs"

lemma flood_events:
  assumes "view_wf f"
  shows "events (flood acc now src sid a key (newVariants f key) s) = events s @
      (if StormPPS a = 0 \<or> fst (allow now (StormPPS a) (storm (ent s src)))
       then copies sid f key s (map snd (filter (floods_to s sid a key) (ports s))) else [])
    \<and> fwd_eq s (flood acc now src sid a key (newVariants f key) s)"
proof -
  let ?t = "upd_ent src (\<lambda>e. e\<lparr>storm := snd (allow now (StormPPS a) (storm (ent s src)))\<rparr>) s"
  have eq: "fwd_eq s ?t" by simp
  then have same: "attrs (ent ?t r) = attrs (ent s r)" for r by (simp add: fwd_eq_def)
  have pos: "0 < x \<longleftrightarrow> x \<noteq> 0" for x :: u32 by (simp add: word_gt_0)
  show ?thesis
    using flood_fold [OF variants_of_new [OF assms], where s = s and sid = sid and a = a and acc = acc and ps = "ports s"]
      flood_fold [OF variants_of_new [OF assms], where s = ?t and sid = sid and a = a and acc = acc and ps = "ports s"]
      fwd_eq_trans [OF eq] fwd_eq_trans [OF eq fwd_eq_stats]
    by (simp add: flood_def Let_def case_prod_beta comp_def same floods_to_cong [OF eq] pos)
qed

lemma forward_events:
  assumes "view_wf f"
  shows "events (forward clk acc src (pe_id (ent s src)) (attrs (ent s src)) key f s) =
      events s @ copies (pe_id (ent s src)) f key s (out_refs s src key
        (if isMulticast (dstMAC f) then (None, '''') else lookup (at_lookup clk) key (dstMAC f) (sfdb s))
        (storm_admits clk src s))
    \<and> fwd_eq s (forward clk acc src (pe_id (ent s src)) (attrs (ent s src)) key f s)"
proof -
  obtain hit hitID where h: "(if isMulticast (dstMAC f) then (None, '''')
      else lookup (at_lookup clk) key (dstMAC f) (sfdb s)) = (hit, hitID)"
    by (rule prod.exhaust)
  have fwd: "forward clk acc src (pe_id (ent s src)) (attrs (ent s src)) key f s =
    (if hitID \<noteq> '''' then
       (case (case hit of None \<Rightarrow> mget (ports s) hitID | Some r \<Rightarrow> Some r) of
          None \<Rightarrow> s
        | Some r \<Rightarrow> if unicast_ok s (pe_id (ent s src)) (attrs (ent s src)) key r
                    then snd (send acc (pe_id (ent s src)) r (newVariants f key, s)) else s)
     else flood acc (at_storm clk) src (pe_id (ent s src)) (attrs (ent s src)) key (newVariants f key) s)"
    unfolding forward_def Let_def h by simp
  show ?thesis
    unfolding h fwd
    using flood_events [OF assms, where acc = acc and now = "at_storm clk" and src = src
        and sid = "pe_id (ent s src)" and a = "attrs (ent s src)" and key = key and s = s]
      send_step(2,3) [OF variants_of_new [OF assms, of key], where acc = acc and sid = "pe_id (ent s src)" and s = s]
    by (simp add: out_refs_def storm_admits_def Let_def split: option.split)
qed

section \<open>Delivery of an admitted frame\<close>

text \<open>The ingress checks a frame passes before it is learned from.\<close>

definition admitted :: "switch \<Rightarrow> eref \<Rightarrow> frame \<Rightarrow> frameView \<Rightarrow> int \<Rightarrow> bool" where
  "admitted s src fr f key \<longleftrightarrow> parseFrame fr = Some f \<and> \<not> gone (ent s src) \<and> \<not> Disabled (attrs (ent s src))
    \<and> \<not> control_frame s fr f \<and> state (ent s src) \<noteq> Blocking \<and> state (ent s src) \<noteq> Listening
    \<and> ingressKey (attrs (ent s src)) f = Some key \<and> security_ok (attrs (ent s src)) (srcMAC f)"

definition learn_from :: "clock \<Rightarrow> eref \<Rightarrow> frameView \<Rightarrow> int \<Rightarrow> switch \<Rightarrow> switch" where
  "learn_from clk src f key s =
    (if isMulticast (srcMAC f) then s
     else upd_fdb (learn (at_learn clk) key (srcMAC f) (pe_id (ent s src)) src) s)"

lemma deliver_admitted:
  assumes "admitted s src fr f key"
  shows "deliver clk acc src fr s =
    (let s1 = learn_from clk src f key (upd_stats src (rx_count (length fr)) s)
     in if state (ent s src) = Learning then upd_stats src rx_drop s1
        else forward clk acc src (pe_id (ent s src)) (attrs (ent s src)) key f s1)"
  using assms by (auto simp: admitted_def control_frame_def deliver_def ingress_def learn_from_def Let_def)

text \<open>A frame that is neither admitted nor a control frame is dropped with no trace but the counters.\<close>

lemma deliver_refused:
  assumes "parseFrame fr = Some f" "\<not> control_frame s fr f" "\<nexists>key. admitted s src fr f key"
  shows "deliver clk acc src fr s = (if gone (ent s src) then s
    else upd_stats src rx_drop (upd_stats src (rx_count (length fr)) s))"
  using assms
  by (auto simp: admitted_def control_frame_def deliver_def ingress_def Let_def split: option.split)

lemma learn_from_sel [simp]:
  "ent (learn_from clk src f key s) r = ent s r" "ports (learn_from clk src f key s) = ports s"
  "events (learn_from clk src f key s) = events s" "store (learn_from clk src f key s) = store s"
  "instanceID (learn_from clk src f key s) = instanceID s" "stp (learn_from clk src f key s) = stp s"
  "stopped (learn_from clk src f key s) = stopped s"
  by (simp_all add: learn_from_def)

lemma pe_id_nonempty: "sw_wf s \<Longrightarrow> r < length (store s) \<Longrightarrow> pe_id (ent s r) \<noteq> ''''"
  using ent_in_store [of r s] by (simp add: sw_wf_def store_wf_def)

lemma learn_from_spec:
  assumes "sw_wf s" "src < length (store s)" "pe_id (ent t src) = pe_id (ent s src)" "sfdb t = sfdb s"
  shows "fdb_wf (sfdb (learn_from clk src f key t))"
    and "fdb_abs (sfdb (learn_from clk src f key t)) = table_after clk src f key s"
  using assms pe_id_nonempty [OF assms(1,2)] sw_wfD(3) [OF assms(1)]
    fdb_abs_exec [of "sfdb s" "Dyn (Learn (at_learn clk) key (srcMAC f) (pe_id (ent s src)) src)"]
  by (simp_all add: learn_from_def table_after_def learn_wf)

lemma deliver_events:
  assumes wf: "sw_wf s" and src: "src < length (store s)" and adm: "admitted s src fr f key"
  shows "events (deliver clk acc src fr s) = events s @
    (if state (ent s src) = Learning then [] else copies (pe_id (ent s src)) f key s (bridge_out clk src f key s))"
proof -
  let ?s0 = "upd_stats src (rx_count (length fr)) s"
  let ?s1 = "learn_from clk src f key ?s0"
  have v: "view_wf f" using adm by (auto simp: admitted_def dest: parseFrame_wf)
  have fd: "fdb_wf (sfdb ?s1)" "fdb_abs (sfdb ?s1) = table_after clk src f key s"
    using learn_from_spec [OF wf src, of ?s0] by simp_all
  have out: "out_refs ?s1 r k hit ok = out_refs s r k hit ok" for r k hit ok
    by (rule out_refs_cong) simp_all
  have "storm_admits clk src ?s1 = storm_admits clk src s" by (simp add: storm_admits_def)
  then show ?thesis
    using forward_events [OF v, where clk = clk and acc = acc and src = src and key = key and s = ?s1]
    by (simp add: deliver_admitted [OF adm] bridge_out_def out lookup_spec [OF fd(1)] fd(2) Let_def)
qed

lemma deliver_table:
  assumes "admitted s src fr f key"
  shows "sfdb (deliver clk acc src fr s) = sfdb (learn_from clk src f key s)"
    and "state (ent s src) \<noteq> Learning \<Longrightarrow>
      fwd_eq (learn_from clk src f key s) (deliver clk acc src fr s)"
proof -
  let ?s0 = "upd_stats src (rx_count (length fr)) s"
  let ?s1 = "learn_from clk src f key ?s0"
  have v: "view_wf f" using assms by (auto simp: admitted_def dest: parseFrame_wf)
  have t: "sfdb ?s1 = sfdb (learn_from clk src f key s)" by (simp add: learn_from_def)
  have eq: "fwd_eq (learn_from clk src f key s) ?s1" by (simp add: fwd_eq_def t)
  have fwd: "fwd_eq ?s1 (forward clk acc src (pe_id (ent s src)) (attrs (ent s src)) key f ?s1)"
    using forward_events [OF v, where clk = clk and acc = acc and src = src and key = key and s = ?s1] by simp
  then have "sfdb (forward clk acc src (pe_id (ent s src)) (attrs (ent s src)) key f ?s1) = sfdb ?s1"
    by (simp add: fwd_eq_def)
  then show "sfdb (deliver clk acc src fr s) = sfdb (learn_from clk src f key s)"
    by (simp add: deliver_admitted [OF assms] Let_def t)
  show "state (ent s src) \<noteq> Learning \<Longrightarrow> fwd_eq (learn_from clk src f key s) (deliver clk acc src fr s)"
    using fwd_eq_trans [OF eq fwd] by (simp add: deliver_admitted [OF assms] Let_def)
qed

lemma bridge_lookup:
  assumes "sw_wf s" "src < length (store s)"
  shows "spec_lookup t (k, m) (table_after clk src f key s) =
    (if \<not> isMulticast (srcMAC f) \<and> (k, m) = (key, srcMAC f) \<and> admin (sfdb s) (k, m) = None
     then (if t - at_learn clk > maxAge (sfdb s) then (None, '''') else (Some src, pe_id (ent s src)))
     else lookup t k m (sfdb s))"
  using learn_from_spec [OF assms, of s clk f key] lookup_spec [OF learn_from_spec(1) [OF assms, of s clk f key], of t k m]
    lookup_learn [OF sw_wfD(3) [OF assms(1)] pe_id_nonempty [OF assms], of t k m "at_learn clk" key "srcMAC f" src]
  by (cases "isMulticast (srcMAC f)") (auto simp: learn_from_def lookup_spec [OF sw_wfD(3) [OF assms(1)]])

text \<open>Which entries a bridge sends to.\<close>

lemma spec_lookup_ref:
  assumes wf: "sw_wf s" and src: "src < length (store s)"
    and hit: "spec_lookup t k (table_after clk src f key s) = (Some r, pid)"
  shows "r < length (store s)"
proof -
  have "\<exists>p t'. heard (table_after clk src f key s) k = Some (p, Some r, t')"
    using hit by (auto simp: spec_lookup_def split: option.splits if_splits prod.splits)
  then have "r = src \<or> (\<exists>p t'. learned (sfdb s) k = Some (p, Some r, t'))"
    by (auto simp: table_after_def fdb_abs_def split: if_splits)
  then show ?thesis
    using src sw_wfD(10) [OF wf, where k = k] by (auto simp: learned_def entry_ok_def split: option.splits if_splits)
qed

lemma bridge_out_mem:
  assumes wf: "sw_wf s" and src: "src < length (store s)" and r: "r \<in> set (bridge_out clk src f key s)"
  shows "r < length (store s)" "pe_id (ent s r) \<noteq> pe_id (ent s src)" "\<not> gone (ent s r)"
    "state (ent s r) = Forwarding" "egressEligible (attrs (ent s src)) (attrs (ent s r)) key"
proof -
  have reg: "entry_ok s pid r \<and> \<not> gone (ent s r)" if "mget (ports s) pid = Some r" for pid
    using sw_wfD(5,6) [OF wf that] by simp
  have mem: "mget (ports s) pid = Some r" if "(pid, r) \<in> set (ports s)" for pid
    using mem_mget [OF sw_wfD(1) [OF wf] that] .
  obtain hit hitID where h: "(if isMulticast (dstMAC f) then (None, '''')
      else spec_lookup (at_lookup clk) (key, dstMAC f) (table_after clk src f key s)) = (hit, hitID)"
    by (rule prod.exhaust)
  have out: "r \<in> set (out_refs s src key (hit, hitID) (storm_admits clk src s))"
    using r by (simp only: bridge_out_def h)
  have "r < length (store s) \<and> unicast_ok s (pe_id (ent s src)) (attrs (ent s src)) key r"
  proof (cases "hitID = ''''")
    case True
    then obtain pid where "(pid, r) \<in> set (ports s)" "floods_to s (pe_id (ent s src)) (attrs (ent s src)) key (pid, r)"
      using out by (auto simp: out_refs_def Let_def split: if_splits)
    then show ?thesis using reg [OF mem] by (auto simp: unicast_ok_def floods_to_def entry_ok_def)
  next
    case False
    then have "unicast_ok s (pe_id (ent s src)) (attrs (ent s src)) key r" and
      "hit = Some r \<or> mget (ports s) hitID = Some r"
      using out by (auto simp: out_refs_def Let_def split: option.splits)
    moreover have "r < length (store s)" if "hit = Some r"
      using spec_lookup_ref [OF wf src] h that by (auto split: if_splits)
    ultimately show ?thesis using reg by (auto simp: entry_ok_def)
  qed
  then show "r < length (store s)" "pe_id (ent s r) \<noteq> pe_id (ent s src)" "\<not> gone (ent s r)"
    "state (ent s r) = Forwarding" "egressEligible (attrs (ent s src)) (attrs (ent s r)) key"
    by (simp_all add: unicast_ok_def)
qed

lemma ports_refs_distinct: "sw_wf s \<Longrightarrow> distinct (map snd (ports s))"
proof -
  assume wf: "sw_wf s"
  have "inj_on snd (set (ports s))"
  proof (rule inj_onI)
    fix p q assume pq: "p \<in> set (ports s)" "q \<in> set (ports s)" "snd p = snd q"
    have "entry_ok s (fst x) (snd x)" if "x \<in> set (ports s)" for x
      using sw_wfD(5) [OF wf mem_mget [OF sw_wfD(1) [OF wf], of "fst x" "snd x"]] that by simp
    from this [OF pq(1)] this [OF pq(2)]
    show "p = q" using pq(3) by (simp add: entry_ok_def prod_eq_iff)
  qed
  moreover have "distinct (ports s)"
    using sw_wfD(1) [OF wf] by (simp add: mwf_def distinct_map)
  ultimately show ?thesis by (simp add: distinct_map)
qed

lemma distinct_map_filter: "distinct (map g xs) \<Longrightarrow> distinct (map g (filter P xs))"
  by (induction xs) auto

lemma bridge_out_distinct: "sw_wf s \<Longrightarrow> distinct (bridge_out clk src f key s)"
  using distinct_map_filter [OF ports_refs_distinct]
  by (auto simp: bridge_out_def out_refs_def Let_def split: option.split)


text \<open>The calls a step made.\<close>

definition calls :: "switch \<Rightarrow> switch \<Rightarrow> event list" where
  "calls s s' = drop (length (events s)) (events s')"

lemma calls_append: "events s' = events s @ es \<Longrightarrow> calls s s' = es"
  by (simp add: calls_def)

lemma deliver_calls:
  assumes "sw_wf s" "src < length (store s)" "parseFrame fr = Some f" "\<not> control_frame s fr f"
  shows "calls s (deliver clk acc src fr s) = [] \<or>
    (\<exists>key. admitted s src fr f key \<and> state (ent s src) = Forwarding \<and>
      calls s (deliver clk acc src fr s) = copies (pe_id (ent s src)) f key s (bridge_out clk src f key s))"
proof (cases "\<exists>key. admitted s src fr f key")
  case True
  then obtain key where key: "admitted s src fr f key" ..
  then have "state (ent s src) \<noteq> Learning \<Longrightarrow> state (ent s src) = Forwarding"
    by (cases "state (ent s src)") (simp_all add: admitted_def)
  then show ?thesis
    using calls_append [OF deliver_events [OF assms(1,2) key], of clk acc] key by (auto split: if_splits)
next
  case False
  then show ?thesis
    using deliver_refused [OF assms(3,4) False] by (simp add: calls_def)
qed

lemma egressEligibleD:
  "egressEligible a b key \<Longrightarrow> \<not> Disabled b \<and> \<not> (Isolated a \<and> Isolated b) \<and> (VLAN b = VLANTrunk \<or> VLAN b = key)"
  by (simp add: egressEligible_def vlan_consts split: if_splits)

section \<open>A small switch\<close>

text \<open>Three ports: two in VLAN 100 and one in VLAN 200.\<close>

definition ex_ops :: "sw_op list" where
  "ex_ops = [OpAddPort ''a'' ex_attrs, OpAddPort ''b'' ex_attrs, OpAddPort ''c'' (ex_attrs\<lparr>VLAN := 200\<rparr>)]"

definition ex_sw :: switch where
  "ex_sw = fold exec_sw ex_ops (New (replicate 8 7))"

definition ex_clk :: clock where
  "ex_clk = \<lparr>at_learn = 0, at_lookup = 0, at_storm = 0\<rparr>"

lemma ex_sw_wf: "sw_wf ex_sw"
  unfolding ex_sw_def by (rule reachable_wf)

lemma ex_attrs_valid: "validate ex_attrs = None" "validate (ex_attrs\<lparr>VLAN := 200\<rparr>) = None"
  by (simp_all add: validate_def ex_attrs_def vlan_consts)

lemma ex_sw_sel:
  "store ex_sw = [new_entry ''a'' ex_attrs 1, new_entry ''b'' ex_attrs 2, new_entry ''c'' (ex_attrs\<lparr>VLAN := 200\<rparr>) 3]"
  "ports ex_sw = [(''a'', 0), (''b'', 1), (''c'', 2)]" "sfdb ex_sw = newFDB defaultFDBMaxAge"
  "events ex_sw = []" "stopped ex_sw = False" "bports (stp ex_sw) = []"
  by (simp_all add: ex_sw_def ex_ops_def AddPort_def ex_attrs_valid New_def Let_def or_same_def portChangedLocked_def
      mget_def mput_def newSTPBridge_def)

lemma ex_ent:
  "ent ex_sw 0 = new_entry ''a'' ex_attrs 1" "ent ex_sw (Suc 0) = new_entry ''b'' ex_attrs 2"
  "ent ex_sw 1 = new_entry ''b'' ex_attrs 2" "ent ex_sw 2 = new_entry ''c'' (ex_attrs\<lparr>VLAN := 200\<rparr>) 3"
  by (simp_all add: ent_def ex_sw_sel)

lemmas ex_eval = ex_sw_sel ex_ent new_entry_def ex_attrs_def vlan_consts

lemma ex_frame_macs: "dstMAC \<lparr>data = ex_frame, tagged = False, vid = 0\<rparr> = [0xff, 0xff, 0xff, 0xff, 0xff, 0xff]"
  "srcMAC \<lparr>data = ex_frame, tagged = False, vid = 0\<rparr> = [0x02, 0, 0, 0, 0, 1]"
  by (simp_all add: dstMAC_def srcMAC_def ex_frame_def bslice_def macLen_def)

lemma ex_admitted: "admitted ex_sw 0 ex_frame \<lparr>data = ex_frame, tagged = False, vid = 0\<rparr> 100"
  by (simp add: admitted_def ex_frame_parse control_frame_def ex_frame_macs loopProbeDst_def isReservedGroupMAC_def
      ingressKey_def security_ok_def ex_eval)

lemma ex_flood: "bridge_out ex_clk 0 \<lparr>data = ex_frame, tagged = False, vid = 0\<rparr> 100 ex_sw = [1]"
  by (simp add: bridge_out_def out_refs_def ex_frame_macs isMulticast_def storm_admits_def floods_to_def
      egressEligible_def ex_eval)

text \<open>A reply to the station that sent \<open>ex_frame\<close>, on the switch that heard it.\<close>

definition ex_reply :: frame where
  "ex_reply = [0x02, 0, 0, 0, 0, 1, 0x02, 0, 0, 0, 0, 2, 0x08, 0x06, 0xcc]"

definition ex_heard :: switch where
  "ex_heard = deliver ex_clk (\<lambda>r. True) 0 ex_frame ex_sw"

lemma ex_reply_parse: "parseFrame ex_reply = Some \<lparr>data = ex_reply, tagged = False, vid = 0\<rparr>"
  by (simp add: eval_frame ex_reply_def)

lemma ex_reply_macs: "dstMAC \<lparr>data = ex_reply, tagged = False, vid = 0\<rparr> = [0x02, 0, 0, 0, 0, 1]"
  "srcMAC \<lparr>data = ex_reply, tagged = False, vid = 0\<rparr> = [0x02, 0, 0, 0, 0, 2]"
  by (simp_all add: dstMAC_def srcMAC_def ex_reply_def bslice_def macLen_def)

lemma ex_heard_sel:
  "length (store ex_heard) = 3" "pe_id (ent ex_heard r) = pe_id (ent ex_sw r)"
  "attrs (ent ex_heard r) = attrs (ent ex_sw r)" "state (ent ex_heard r) = state (ent ex_sw r)"
  "gone (ent ex_heard r) = gone (ent ex_sw r)"
  using deliver_table(2) [OF ex_admitted, of ex_clk "\<lambda>r. True"]
  by (simp_all add: ex_heard_def fwd_eq_def ex_sw_sel) (simp_all add: ex_eval)

lemma ex_reply_admitted: "admitted ex_heard 1 ex_reply \<lparr>data = ex_reply, tagged = False, vid = 0\<rparr> 100"
  by (simp add: admitted_def ex_reply_parse control_frame_def ex_reply_macs loopProbeDst_def isReservedGroupMAC_def
      ingressKey_def security_ok_def ex_heard_sel ex_eval)

section \<open>Properties\<close>

text \<open>
  C1. The pipeline is a learning bridge: a frame that passes the ingress checks on a forwarding
  port produces exactly the copies the reference bridge sends, in order, each in the rendering its
  destination port takes. The reference looks the destination up in the abstract table, after the
  source was learned; a hit goes to that port alone, if it may take the frame, and a miss to every
  eligible port while the storm budget lasts.
\<close>

theorem deliver_is_bridge:
  assumes "sw_wf s" "src < length (store s)" "admitted s src fr f key" "state (ent s src) = Forwarding"
  shows "calls s (deliver clk acc src fr s) =
    map (\<lambda>r. Sent r (pe_id (ent s src)) (render f key (attrs (ent s r)))) (bridge_out clk src f key s)"
  using deliver_events [OF assms(1-3), of clk acc] assms(4) by (simp add: calls_append)

theorem deliver_is_bridge_witness:
  "calls ex_sw (deliver ex_clk (\<lambda>r. True) 0 ex_frame ex_sw) = [Sent 1 ''a'' ex_frame]"
  using deliver_is_bridge [OF ex_sw_wf _ ex_admitted, of ex_clk "\<lambda>r. True"]
  by (simp add: ex_flood ex_eval render_def)

text \<open>
  C2. Isolation. Whatever the frame and the state, every copy of a delivered frame that is not a
  control frame goes to another, registered, enabled port in the forwarding state; the source is
  enabled and forwarding too; two isolated ports never exchange frames; and the destination is a
  trunk or an access port of the VLAN the frame entered in.
\<close>

theorem copies_respect_policy:
  assumes "sw_wf s" "src < length (store s)" "parseFrame fr = Some f" "\<not> control_frame s fr f"
    and "Sent dst sid out \<in> set (calls s (deliver clk acc src fr s))"
  shows "sid = pe_id (ent s src) \<and> pe_id (ent s dst) \<noteq> sid \<and> dst < length (store s) \<and> \<not> gone (ent s dst)
    \<and> \<not> Disabled (attrs (ent s src)) \<and> \<not> Disabled (attrs (ent s dst))
    \<and> state (ent s src) = Forwarding \<and> state (ent s dst) = Forwarding
    \<and> \<not> (Isolated (attrs (ent s src)) \<and> Isolated (attrs (ent s dst)))
    \<and> (\<exists>key. ingressKey (attrs (ent s src)) f = Some key
        \<and> (VLAN (attrs (ent s dst)) = VLANTrunk \<or> VLAN (attrs (ent s dst)) = key)
        \<and> out = render f key (attrs (ent s dst)))"
proof -
  from deliver_calls [OF assms(1-4), of clk acc] assms(5) obtain key where
    key: "admitted s src fr f key" "state (ent s src) = Forwarding"
    and dst: "dst \<in> set (bridge_out clk src f key s)"
    and ev: "sid = pe_id (ent s src)" "out = render f key (attrs (ent s dst))" by auto
  show ?thesis
    using bridge_out_mem [OF assms(1,2) dst] egressEligibleD key ev by (simp add: admitted_def)
qed

theorem copies_respect_policy_witness:
  "pe_id (ent ex_sw 1) \<noteq> ''a'' \<and> \<not> gone (ent ex_sw 1) \<and> VLAN (attrs (ent ex_sw 1)) = 100"
proof -
  have "Sent 1 ''a'' ex_frame \<in> set (calls ex_sw (deliver ex_clk (\<lambda>r. True) 0 ex_frame ex_sw))"
    using deliver_calls [OF ex_sw_wf _ ex_frame_parse, of 0 ex_clk "\<lambda>r. True"]
      deliver_events [OF ex_sw_wf _ ex_admitted, of ex_clk "\<lambda>r. True"] ex_admitted
    by (simp add: calls_append ex_flood ex_eval render_def admitted_def)
  from copies_respect_policy [OF ex_sw_wf _ ex_frame_parse _ this] ex_admitted
  show ?thesis by (simp add: admitted_def ex_eval)
qed

text \<open>
  A port gets at most one copy of a delivered frame.
\<close>

theorem at_most_one_copy:
  assumes "sw_wf s" "src < length (store s)" "parseFrame fr = Some f" "\<not> control_frame s fr f"
  shows "distinct (map (\<lambda>ev. case ev of Sent r _ _ \<Rightarrow> Some r | _ \<Rightarrow> None) (calls s (deliver clk acc src fr s)))"
  using deliver_calls [OF assms, of clk acc] bridge_out_distinct [OF assms(1)]
  by (auto simp: comp_def distinct_map inj_on_def)

theorem at_most_one_copy_witness:
  "distinct (map (\<lambda>ev. case ev of Sent r _ _ \<Rightarrow> Some r | _ \<Rightarrow> None)
     (calls ex_sw (deliver ex_clk (\<lambda>r. True) 0 ex_frame ex_sw)))"
  by (rule at_most_one_copy [OF ex_sw_wf _ ex_frame_parse])
    (use ex_admitted in \<open>simp_all add: admitted_def ex_sw_sel\<close>)

text \<open>
  A frame that fails an ingress check (port disabled, port blocking or listening, VLAN not
  accepted, wrong station on a secured port) is counted as received and dropped and has no other
  effect: nothing is sent and nothing is learned.
\<close>

theorem refused_frame_no_effect:
  assumes "parseFrame fr = Some f" "\<not> control_frame s fr f" "\<not> gone (ent s src)"
    and "Disabled (attrs (ent s src)) \<or> state (ent s src) = Blocking \<or> state (ent s src) = Listening
      \<or> ingressKey (attrs (ent s src)) f = None \<or> \<not> security_ok (attrs (ent s src)) (srcMAC f)"
  shows "deliver clk acc src fr s = upd_stats src rx_drop (upd_stats src (rx_count (length fr)) s)"
  using deliver_refused [OF assms(1,2), of src clk acc] assms(3,4) by (auto simp: admitted_def)

theorem refused_frame_no_effect_witness:
  "deliver ex_clk (\<lambda>r. True) 2 ex_double_tagged ex_sw =
    upd_stats 2 rx_drop (upd_stats 2 (rx_count 22) ex_sw)"
proof -
  have p: "parseFrame ex_double_tagged = Some \<lparr>data = ex_double_tagged, tagged = True, vid = 0\<rparr>"
    by (simp add: eval_frame ex_double_tagged_def)
  have "\<not> control_frame ex_sw ex_double_tagged \<lparr>data = ex_double_tagged, tagged = True, vid = 0\<rparr>"
    by (simp add: control_frame_def dstMAC_def ex_double_tagged_def bslice_def macLen_def loopProbeDst_def
        isReservedGroupMAC_def)
  moreover have "length ex_double_tagged = 22" by (simp add: ex_double_tagged_def)
  ultimately show ?thesis
    using refused_frame_no_effect [OF p, of ex_sw 2 ex_clk "\<lambda>r. True"] by (simp add: ex_eval ingressKey_def)
qed


text \<open>
  C31. Learning works end to end: once a station was heard on a port in some VLAN, a frame for it
  that enters a forwarding port of the same VLAN within the aging time goes to that port alone, or
  nowhere if the port may not take it, and is never flooded. This holds unless an administrator
  pinned the station's address.
\<close>

theorem heard_station_gets_unicast:
  assumes wf: "sw_wf s" and src: "src < length (store s)"
    and heard: "admitted s src fr f key" "\<not> isMulticast (srcMAC f)" "admin (sfdb s) (key, srcMAC f) = None"
    and s1: "s1 = deliver clk acc src fr s"
    and reply: "src2 < length (store s1)" "admitted s1 src2 fr2 f2 key" "state (ent s1 src2) = Forwarding"
      "dstMAC f2 = srcMAC f" "srcMAC f2 \<noteq> srcMAC f" "at_lookup clk2 - at_learn clk \<le> maxAge (sfdb s)"
  shows "calls s1 (deliver clk2 acc2 src2 fr2 s1) =
    (if unicast_ok s1 (pe_id (ent s1 src2)) (attrs (ent s1 src2)) key src
     then [Sent src (pe_id (ent s1 src2)) (render f2 key (attrs (ent s1 src)))] else [])"
proof -
  have wf1: "sw_wf s1" unfolding s1 by (rule sw_wf_deliver [OF wf src])
  have id: "pe_id (ent s src) \<noteq> ''''" by (rule pe_id_nonempty [OF wf src])
  have t1: "sfdb s1 = learn (at_learn clk) key (srcMAC f) (pe_id (ent s src)) src (sfdb s)"
    using deliver_table(1) [OF heard(1)] heard(2) by (simp add: s1 learn_from_def)
  have "lookup (at_lookup clk2) key (srcMAC f) (sfdb s1) = (Some src, pe_id (ent s src))"
    using lookup_learn [OF sw_wfD(3) [OF wf] id, of "at_lookup clk2" key "srcMAC f" "at_learn clk" key "srcMAC f" src]
      heard(3) reply(6) by (simp add: t1)
  then have "spec_lookup (at_lookup clk2) (key, dstMAC f2) (table_after clk2 src2 f2 key s1) = (Some src, pe_id (ent s src))"
    using bridge_lookup [OF wf1 reply(1), of "at_lookup clk2" key "dstMAC f2" clk2 f2 key] reply(4,5) by simp
  then have "bridge_out clk2 src2 f2 key s1 =
      filter (unicast_ok s1 (pe_id (ent s1 src2)) (attrs (ent s1 src2)) key) [src]"
    using heard(2) reply(4) id by (simp add: bridge_out_def out_refs_def Let_def)
  then show ?thesis
    using deliver_events [OF wf1 reply(1,2), of clk2 acc2] reply(3) by (simp add: calls_append)
qed


theorem heard_station_gets_unicast_witness:
  "calls ex_heard (deliver ex_clk (\<lambda>r. True) 1 ex_reply ex_heard) = [Sent 0 ''b'' ex_reply]"
proof -
  have "admin (sfdb ex_sw) (100, [0x02, 0, 0, 0, 0, 1]) = None" "0 \<le> maxAge (sfdb ex_sw)"
    by (simp_all add: ex_sw_sel newFDB_def admin_def defaultFDBMaxAge_def)
  then show ?thesis
    using heard_station_gets_unicast [OF ex_sw_wf _ ex_admitted _ _ ex_heard_def _ ex_reply_admitted,
        where ?clk2.0 = ex_clk and ?acc2.0 = "\<lambda>r. True"]
    by (simp add: ex_frame_macs ex_reply_macs isMulticast_def ex_clk_def ex_heard_sel)
      (simp add: unicast_ok_def ex_heard_sel egressEligible_def render_def ex_eval)
qed

end
