(* ===== verification/Guards.thy ===== *)
theory Guards
  imports Pipeline
begin

text \<open>
  Control frames: loop probes, the BPDU guard and the reserved group addresses; and the cached
  delivery handles of ports (\<^verbatim>\<open>PortRef\<close>), which follow their port through every operation.
\<close>

section \<open>Automatic blocking\<close>

lemma blockPort_effect:
  assumes "r < length (store s)" "\<not> Disabled (attrs (ent s r))" "fdb_wf (sfdb s)"
  shows "Disabled (attrs (ent (blockPort r why s) r))" "blockReason (ent (blockPort r why s) r) = why"
    "events (blockPort r why s) = events s" "pe_id (ent (blockPort r why s) r) = pe_id (ent s r)"
    "learned (sfdb (blockPort r why s)) k = Some (pid, e, t) \<Longrightarrow> pid \<noteq> pe_id (ent s r)"
  using assms
  by (auto simp: blockPort_def Let_def ent_upd_ent learned_def flushPort_def mget_mkeep
      split: option.splits if_splits)

lemma disabled_silent:
  "Disabled (attrs (ent s src)) \<Longrightarrow> events (deliver clk acc src fr s) = events s"
  by (simp add: deliver_def Let_def split: option.split)

lemma deliver_own_probe:
  assumes "\<not> gone (ent s src)" "\<not> Disabled (attrs (ent s src))" "fr = buildLoopProbe (instanceID s)"
  shows "deliver clk acc src fr s = blockPort src ''loop'' (upd_stats src (rx_count (length fr)) s)"
  using assms by (simp add: deliver_def Let_def probe_parse own_probe_iff dstMAC_def macLen_def probe_dst)

lemma deliver_bpdu_guard:
  assumes "\<not> gone (ent s src)" "\<not> Disabled (attrs (ent s src))" "BPDUGuard (attrs (ent s src))"
    "parseFrame fr = Some f" "isBPDU (dstMAC f) fr"
  shows "deliver clk acc src fr s = blockPort src ''bpdu_guard'' (upd_stats src (rx_count (length fr)) s)"
proof -
  have "isReservedGroupMAC (dstMAC f)" by (rule bpdu_is_reserved [OF assms(5)])
  then have "dstMAC f \<noteq> loopProbeDst" using probe_not_reserved by auto
  with assms \<open>isReservedGroupMAC (dstMAC f)\<close> show ?thesis by (simp add: deliver_def Let_def)
qed

lemma blocked_from_then_on:
  assumes wf: "sw_wf s" and src: "src < length (store s)" and en: "\<not> Disabled (attrs (ent s src))"
    and s': "s' = blockPort src why (upd_stats src g s)"
  shows "calls s s' = [] \<and> Disabled (attrs (ent s' src)) \<and> blockReason (ent s' src) = why
    \<and> (\<forall>k pid e t. learned (sfdb s') k = Some (pid, e, t) \<longrightarrow> pid \<noteq> pe_id (ent s src))
    \<and> (\<forall>clk acc fr. calls s' (deliver clk acc src fr s') = [])"
proof -
  note eff = blockPort_effect [of src "upd_stats src g s" why, simplified, OF src en sw_wfD(3) [OF wf]]
  have "learned (sfdb s') k = Some (pid, e, t) \<Longrightarrow> pid \<noteq> pe_id (ent s src)" for k pid e t
    using eff(5) [of k pid e t] by (simp add: s')
  moreover have "calls s' (deliver clk acc src fr s') = []" for clk acc fr
    using disabled_silent [of s' src clk acc fr] eff(1) by (simp add: s' calls_def)
  ultimately show ?thesis using eff(1-3) by (simp add: s' calls_def)
qed

section \<open>Reserved addresses\<close>

lemma events_fold: "(\<And>x t. events (f x t) = events t) \<Longrightarrow> events (fold f xs s) = events s"
  by (induction xs arbitrary: s) auto

lemma events_role_step: "events (snd (role_step rt pid cs)) = events (snd cs)"
  by (cases cs) (simp add: role_step_def applyRoleLocked_def Let_def split: option.split)

lemma events_roles: "events (snd (fold (role_step rt) pids cs)) = events (snd cs)"
  by (induction pids arbitrary: cs) (auto simp: events_role_step)

lemma events_signal [simp]: "events (signalTopologyChangeLocked s) = events s"
  by (simp add: signalTopologyChangeLocked_def Let_def)

lemma events_recompute [simp]: "events (recomputeLocked s) = events s"
  using events_roles by (auto simp: recomputeLocked_def Let_def case_prod_beta)

lemma events_handleConfig [simp]: "events (handleConfig src sp body s) = events s"
  by (simp add: handleConfig_def Let_def)

text \<open>
  C35. A loop is cut at once: when one of this switch's own probes comes back on an enabled port,
  the port is disabled with reason \<open>loop\<close>, its learned stations are forgotten, the probe is not
  forwarded, and from then on no frame that enters the port is sent anywhere.
\<close>

theorem own_probe_blocks_port:
  assumes "sw_wf s" "src < length (store s)" "\<not> gone (ent s src)" "\<not> Disabled (attrs (ent s src))"
    and "s' = deliver clk acc src (buildLoopProbe (instanceID s)) s"
  shows "calls s s' = [] \<and> Disabled (attrs (ent s' src)) \<and> blockReason (ent s' src) = ''loop''
    \<and> (\<forall>k pid e t. learned (sfdb s') k = Some (pid, e, t) \<longrightarrow> pid \<noteq> pe_id (ent s src))
    \<and> (\<forall>clk acc fr. calls s' (deliver clk acc src fr s') = [])"
  by (rule blocked_from_then_on [OF assms(1,2,4)]) (simp add: assms deliver_own_probe)

theorem own_probe_blocks_port_witness:
  "blockReason (ent (deliver ex_clk (\<lambda>r. True) 0 (buildLoopProbe (instanceID ex_sw)) ex_sw) 0) = ''loop''"
  using own_probe_blocks_port [OF ex_sw_wf, of 0 _ ex_clk "\<lambda>r. True"] by (simp add: ex_eval)

text \<open>
  C36. The BPDU guard: a BPDU on an enabled port with the guard disables the port with reason
  \<open>bpdu_guard\<close>, forgets its stations, and silences it; the BPDU does not reach the spanning tree.
\<close>

theorem bpdu_guard_blocks_port:
  assumes "sw_wf s" "src < length (store s)" "\<not> gone (ent s src)" "\<not> Disabled (attrs (ent s src))"
    and "BPDUGuard (attrs (ent s src))" "parseFrame fr = Some f" "isBPDU (dstMAC f) fr"
    and "s' = deliver clk acc src fr s"
  shows "stp s' = stp s \<and> calls s s' = [] \<and> Disabled (attrs (ent s' src)) \<and> blockReason (ent s' src) = ''bpdu_guard''
    \<and> (\<forall>k pid e t. learned (sfdb s') k = Some (pid, e, t) \<longrightarrow> pid \<noteq> pe_id (ent s src))
    \<and> (\<forall>clk acc fr. calls s' (deliver clk acc src fr s') = [])"
proof -
  have s': "s' = blockPort src ''bpdu_guard'' (upd_stats src (rx_count (length fr)) s)"
    using assms by (simp add: deliver_bpdu_guard)
  moreover have "stp s' = stp s" by (simp add: s' blockPort_def Let_def)
  ultimately show ?thesis using blocked_from_then_on [OF assms(1,2,4) s'] by simp
qed

text \<open>A switch with a guarded port, and a BPDU.\<close>

definition ex_guarded :: switch where
  "ex_guarded = fold exec_sw [OpAddPort ''g'' (ex_attrs\<lparr>BPDUGuard := True\<rparr>)] (New (replicate 8 7))"

definition ex_bpdu :: frame where
  "ex_bpdu = bpduMAC @ [0x02, 0, 0, 0, 0, 1, 0, 38, 0x42, 0x42, 0x03] @ replicate 43 0"

lemma ex_guarded_sel: "store ex_guarded = [new_entry ''g'' (ex_attrs\<lparr>BPDUGuard := True\<rparr>) 1]"
proof -
  have "validate (ex_attrs\<lparr>BPDUGuard := True\<rparr>) = None"
    by (simp add: validate_def ex_attrs_def vlan_consts)
  then show ?thesis
    by (simp add: ex_guarded_def AddPort_def New_def Let_def or_same_def portChangedLocked_def)
qed

lemma ex_bpdu_ok:
  "parseFrame ex_bpdu = Some \<lparr>data = ex_bpdu, tagged = False, vid = 0\<rparr>"
  "isBPDU (dstMAC \<lparr>data = ex_bpdu, tagged = False, vid = 0\<rparr>) ex_bpdu"
  by (simp_all add: eval_frame ex_bpdu_def bpduMAC_def isBPDU_def dstMAC_def)

theorem bpdu_guard_blocks_port_witness:
  "blockReason (ent (deliver ex_clk (\<lambda>r. True) 0 ex_bpdu ex_guarded) 0) = ''bpdu_guard''"
proof -
  have "sw_wf ex_guarded" unfolding ex_guarded_def by (rule reachable_wf)
  then show ?thesis
    using bpdu_guard_blocks_port [of ex_guarded 0 ex_bpdu _ _ ex_clk "\<lambda>r. True", OF _ _ _ _ _ ex_bpdu_ok]
    by (simp add: ex_guarded_sel ent_def new_entry_def ex_attrs_def)
qed

text \<open>
  A frame to a reserved group address is never forwarded: the only call it can cause is one
  configuration BPDU from the spanning tree, the acknowledgement of a topology change, out of a
  designated port.
\<close>

theorem reserved_not_forwarded:
  assumes "parseFrame fr = Some f" "isReservedGroupMAC (dstMAC f)"
  shows "calls s (deliver clk acc src fr s) = [] \<or>
    (\<exists>sp. mget (bports (stp s)) (pe_id (ent s src)) = Some sp \<and> role sp = RoleDesignated
      \<and> calls s (deliver clk acc src fr s) = [Sent (sp_entry sp) ''stp''
          (buildConfig (signalTopologyChangeLocked (upd_stats src (rx_count (length fr)) s)) sp 0x80)])"
proof -
  have "dstMAC f \<noteq> loopProbeDst" using assms(2) probe_not_reserved by auto
  then show ?thesis
    using assms
    by (auto simp: deliver_def Let_def calls_def blockPort_def handleBPDU_def split: option.split)
qed

theorem reserved_not_forwarded_witness:
  "calls ex_sw (deliver ex_clk (\<lambda>r. True) 0 ex_bpdu ex_sw) = []"
  using reserved_not_forwarded [OF ex_bpdu_ok(1) bpdu_is_reserved [OF ex_bpdu_ok(2)], of ex_sw ex_clk "\<lambda>r. True" 0]
  by (simp add: ex_sw_sel)

end
