(* ===== verification/Handles.thy ===== *)
theory Handles
  imports Guards
begin

text \<open>
  Cached delivery handles (\<^verbatim>\<open>PortRef\<close> of \<^verbatim>\<open>internal/switchcore/switch.go\<close>): entries keep their
  identity through every operation, so a handle that resolved its port once can be used for ever.
\<close>

section \<open>Identity of entries\<close>

definition keeps :: "switch \<Rightarrow> switch \<Rightarrow> bool" where
  "keeps s t \<longleftrightarrow> length (store s) \<le> length (store t) \<and> stopped t = stopped s
    \<and> (\<forall>r < length (store s). pe_id (ent t r) = pe_id (ent s r))"

lemma keeps_refl [simp]: "keeps s s"
  by (simp add: keeps_def)

lemma keeps_fold: "(\<And>x t. x \<in> set xs \<Longrightarrow> keeps s t \<Longrightarrow> keeps s (f x t)) \<Longrightarrow> keeps s t \<Longrightarrow> keeps s (fold f xs t)"
  by (rule fold_inv [where P = "keeps s"])

lemma keeps_upd [simp]:
  "keeps s t \<Longrightarrow> (\<And>e. pe_id (f e) = pe_id e) \<Longrightarrow> keeps s (upd_ent r f t)"
  "keeps s t \<Longrightarrow> keeps s (set_state r st t)" "keeps s t \<Longrightarrow> keeps s (upd_stats r g t)"
  "keeps s t \<Longrightarrow> keeps s (put_sp pid sp t)" "keeps s t \<Longrightarrow> keeps s (upd_stp b t)"
  "keeps s t \<Longrightarrow> keeps s (upd_fdb h t)" "keeps s t \<Longrightarrow> keeps s (emit ev t)"
  "keeps s t \<Longrightarrow> keeps s (t\<lparr>asyncs := n\<rparr>)" "keeps s t \<Longrightarrow> keeps s (t\<lparr>sfdb := d\<rparr>)"
  "keeps s t \<Longrightarrow> keeps s (t\<lparr>downCB := cs\<rparr>)" "keeps s t \<Longrightarrow> keeps s (t\<lparr>loopProbeNanos := i\<rparr>)"
  by (simp_all add: keeps_def ent_upd_ent ent_set_state) (simp_all add: ent_def)

lemma keeps_resync [simp]: "keeps s t \<Longrightarrow> keeps s (resyncPortsLocked t)"
proof -
  assume "keeps s t"
  then have "keeps s (fold enrol (ports t) t)"
    by (intro keeps_fold) (auto simp: enrol_def split: prod.split)
  then show ?thesis
    unfolding resyncPortsLocked_def Let_def
    by (rule keeps_fold [rotated]) (simp add: withdraw_def split: option.split)
qed

lemma keeps_signal [simp]: "keeps s t \<Longrightarrow> keeps s (signalTopologyChangeLocked t)"
  by (simp add: signalTopologyChangeLocked_def Let_def)

lemma keeps_role_step: "keeps s (snd cs) \<Longrightarrow> keeps s (snd (role_step rt pid cs))"
  by (cases cs) (simp add: role_step_def applyRoleLocked_def Let_def split: option.split)

lemma keeps_recompute [simp]: "keeps s t \<Longrightarrow> keeps s (recomputeLocked t)"
proof -
  assume "keeps s t"
  then have "keeps s (snd (fold (role_step rt) pids (c, upd_stp g t)))" for rt pids c g
    by (intro fold_inv [where P = "\<lambda>cs. keeps s (snd cs)"]) (auto intro: keeps_role_step)
  with \<open>keeps s t\<close> show ?thesis by (simp add: recomputeLocked_def Let_def case_prod_beta)
qed

lemma keeps_SetSTPConfig [simp]: "keeps s t \<Longrightarrow> keeps s (SetSTPConfig c t)"
proof -
  have rel: "keeps s u \<Longrightarrow> keeps s (fold (\<lambda>(pid, sp). set_state (sp_entry sp) Forwarding) qs u)"
    for qs :: "(string \<times> stpPort) list" and u
    by (intro keeps_fold) auto
  assume "keeps s t"
  with rel show ?thesis by (simp add: SetSTPConfig_def becomeRootLocked_def Let_def)
qed

lemma keeps_tick [simp]: "keeps s t \<Longrightarrow> keeps s (tickLocked dt t)"
proof -
  have prog: "keeps s u \<Longrightarrow> keeps s (fold (progress_step dt) pids u)" for u pids
    by (intro keeps_fold) (auto simp: progress_step_def Let_def split: option.split stpState.split)
  have tr: "keeps s u \<Longrightarrow> keeps s (transmitConfigsLocked u)" for u
    by (auto simp: transmitConfigsLocked_def Let_def intro!: keeps_fold)
  have hello: "keeps s u \<Longrightarrow> keeps s (helloLocked u)" for u
    using tr by (simp add: helloLocked_def Let_def split: option.split)
  assume "keeps s t"
  with prog hello show ?thesis
    by (simp add: tickLocked_def ageInfo_def Let_def)
qed

lemma keeps_handleBPDU [simp]: "keeps s t \<Longrightarrow> keeps s (handleBPDU src fr t)"
  by (simp add: handleBPDU_def handleConfig_def Let_def split: option.split)

lemma keeps_fwd_eq: "fwd_eq t u \<Longrightarrow> keeps s t \<Longrightarrow> keeps s u"
  by (simp add: fwd_eq_def keeps_def)

lemma keeps_forward:
  assumes "view_wf f" "keeps s t"
  shows "keeps s (forward clk acc src (pe_id (ent t src)) (attrs (ent t src)) key f t)"
  using forward_events [OF assms(1), where clk = clk and acc = acc and src = src and key = key and s = t]
    keeps_fwd_eq assms(2) by blast

lemma keeps_deliver [simp]:
  assumes "keeps s t"
  shows "keeps s (deliver clk acc src fr t)"
proof (cases "parseFrame fr")
  case (Some f)
  let ?t0 = "upd_stats src (rx_count (length fr)) t"
  have fwd: "keeps s (forward clk acc src (pe_id (ent t src)) (attrs (ent t src)) key f (learn_from clk src f key ?t0))" for key
  proof -
    have "keeps s (learn_from clk src f key ?t0)" using assms by (simp add: learn_from_def)
    from keeps_forward [OF parseFrame_wf [OF Some] this] show ?thesis by simp
  qed
  show ?thesis
  proof (cases "control_frame t fr f")
    case True
    then show ?thesis
      using assms Some by (auto simp: deliver_def Let_def control_frame_def blockPort_def)
  next
    case False
    show ?thesis
    proof (cases "\<exists>key. admitted t src fr f key")
      case True
      then obtain key where "admitted t src fr f key" ..
      then show ?thesis
        using assms fwd [of key] by (simp add: deliver_admitted Let_def learn_from_def)
    next
      case False
      then show ?thesis
        using deliver_refused [OF Some \<open>\<not> control_frame t fr f\<close> False] assms by simp
    qed
  qed
qed (use assms in \<open>simp add: deliver_def\<close>)

lemma keeps_portDown: "keeps s t \<Longrightarrow> keeps s (portDown pid t)"
  by (auto simp: portDown_def Let_def intro!: keeps_fold)

lemma keeps_AddPort: "AddPort pid a s = Inr s' \<Longrightarrow> keeps s s'"
  by (auto simp: AddPort_def Let_def keeps_def portChangedLocked_def ent_def nth_append split: option.splits if_splits)

lemma keeps_RemovePort: "keeps s (RemovePort pid s)"
proof (cases "mget (ports s) pid")
  case (Some r)
  have "keeps s (s\<lparr>ports := m\<rparr>)" for m by (simp add: keeps_def ent_def)
  then show ?thesis by (simp add: RemovePort_def Some keeps_portDown)
qed (simp add: RemovePort_def)

lemma keeps_exec:
  assumes "op \<noteq> OpClose"
  shows "keeps s (exec_sw op s)"
proof (cases op)
  case (OpAddPort pid a)
  then show ?thesis using keeps_AddPort [of pid a s] by (simp add: or_same_def split: sum.split)
next
  case (OpUpdatePortAttrs pid a)
  then show ?thesis by (simp add: or_same_def UpdatePortAttrs_def portChangedLocked_def Let_def split: option.split)
next
  case OpProbe
  then show ?thesis by (auto simp: loopProbe_def intro!: keeps_fold)
qed (use assms in \<open>simp_all add: or_same_def keeps_RemovePort NotifyDown_def keeps_portDown OnPortDown_def
    AddStaticFDB_def RemoveStaticFDB_def DeleteFDBEntry_def FlushFDB_def SetFDBMaxAge_def SetLoopProbeInterval_def
    ageLoop_def stpAsync_def stpRun_def Deliver_def Let_def case_prod_beta split: option.split sum.split\<close>)

section \<open>Handles\<close>

definition ref_ok :: "PortRef \<Rightarrow> switch \<Rightarrow> bool" where
  "ref_ok ref s \<longleftrightarrow> (\<forall>e. cached ref = Some e \<longrightarrow> e < length (store s) \<and> pe_id (ent s e) = ref_id ref)"

lemma ref_ok_keeps: "ref_ok ref s \<Longrightarrow> keeps s t \<Longrightarrow> ref_ok ref t"
  by (auto simp: ref_ok_def keeps_def)

lemma RefDeliver_step:
  assumes wf: "sw_wf s" and live: "\<not> stopped s" and ref: "ref_ok ref s"
  shows "snd (RefDeliver clk acc fr (ref, s)) = Deliver clk acc (ref_id ref) fr s
    \<and> ref_id (fst (RefDeliver clk acc fr (ref, s))) = ref_id ref
    \<and> ref_ok (fst (RefDeliver clk acc fr (ref, s))) (snd (RefDeliver clk acc fr (ref, s)))"
proof -
  have reg: "mget (ports s) (ref_id ref) = Some e" if "cached ref = Some e" "\<not> gone (ent s e)" for e
    using sw_wfD(11) [OF wf _ that(2) live] ref that(1) by (auto simp: ref_ok_def)
  have new: "ref_ok (ref\<lparr>cached := Some e\<rparr>) s" if "mget (ports s) (ref_id ref) = Some e" for e
    using sw_wfD(5) [OF wf that] by (simp add: ref_ok_def entry_ok_def)
  show ?thesis
    using reg new ref_ok_keeps [OF ref] ref_ok_keeps [OF new] ref
    by (auto simp: RefDeliver_def Deliver_def split: option.split)
qed

text \<open>
  What happens around a handle: an operation on the switch, or a delivery through the handle. The
  same trace without a handle resolves the port by its identifier every time.
\<close>

datatype ref_op = Around sw_op | Through clock "eref \<Rightarrow> bool" frame

fun exec_ref :: "ref_op \<Rightarrow> PortRef \<times> switch \<Rightarrow> PortRef \<times> switch" where
  "exec_ref (Around op) (ref, s) = (ref, exec_sw op s)"
| "exec_ref (Through clk acc fr) rs = RefDeliver clk acc fr rs"

fun exec_by_id :: "string \<Rightarrow> ref_op \<Rightarrow> switch \<Rightarrow> switch" where
  "exec_by_id pid (Around op) s = exec_sw op s"
| "exec_by_id pid (Through clk acc fr) s = Deliver clk acc pid fr s"

lemma stopped_Deliver: "stopped (Deliver clk acc pid fr s) = stopped s"
  using keeps_exec [of "OpDeliver clk acc pid fr" s] by (simp add: keeps_def)

lemma handle_run:
  assumes "sw_wf s" "\<not> stopped s" "ref_ok ref s" "Around OpClose \<notin> set ops"
  shows "snd (fold exec_ref ops (ref, s)) = fold (exec_by_id (ref_id ref)) ops s"
  using assms
proof (induction ops arbitrary: ref s)
  case (Cons op ops)
  show ?case
  proof (cases op)
    case (Around o')
    then have k: "keeps s (exec_sw o' s)" using Cons.prems(4) by (intro keeps_exec) auto
    then have "\<not> stopped (exec_sw o' s)" using Cons.prems(2) by (simp add: keeps_def)
    then show ?thesis
      using Cons.IH [OF sw_wf_exec [OF Cons.prems(1)] _ ref_ok_keeps [OF Cons.prems(3) k]] Cons.prems(4) Around by simp
  next
    case (Through clk acc fr)
    obtain ref' s' where r: "RefDeliver clk acc fr (ref, s) = (ref', s')" by fastforce
    have st: "s' = Deliver clk acc (ref_id ref) fr s" "ref_id ref' = ref_id ref" "ref_ok ref' s'"
      using RefDeliver_step [OF Cons.prems(1-3), of clk acc fr] unfolding r fst_conv snd_conv by blast+
    have "sw_wf s'" "\<not> stopped s'"
      using sw_wf_Deliver [OF Cons.prems(1)] Cons.prems(2) by (simp_all add: st(1) stopped_Deliver)
    then show ?thesis using Cons.IH [of s' ref'] st Cons.prems(4) Through r by simp
  qed
qed simp

text \<open>
  C4. A cached handle is transparent: along every trace of switch operations and deliveries from
  the creation of the handle to the closing of the switch, in which the port may be added, removed
  and added again, delivering through the handle has the effect of resolving the port's identifier
  anew for each frame.
\<close>

theorem cached_handle_transparent:
  assumes "Around OpClose \<notin> set ops"
  shows "snd (fold exec_ref ops (Ref pid, New random8)) = fold (exec_by_id pid) ops (New random8)"
proof -
  have "ref_ok (Ref pid) (New random8)" "ref_id (Ref pid) = pid" "\<not> stopped (New random8)"
    by (simp_all add: Ref_def ref_ok_def New_def Let_def)
  then show ?thesis using handle_run [OF sw_wf_New _ _ assms] by metis
qed

theorem cached_handle_transparent_witness:
  "let ops = [Around (OpAddPort ''a'' ex_attrs), Through ex_clk (\<lambda>r. True) ex_frame,
              Around (OpRemovePort ''a''), Through ex_clk (\<lambda>r. True) ex_frame]
   in snd (fold exec_ref ops (Ref ''a'', New [])) = fold (exec_by_id ''a'') ops (New [])"
  unfolding Let_def by (rule cached_handle_transparent) simp

end
