(* ===== verification/StpProps.thy ===== *)
theory StpProps
  imports Handles
begin

text \<open>
  The spanning tree: the election picks the best priority vector on offer, roles follow from it,
  a configuration BPDU carries the sender's claim, and the forward delay is respected.
\<close>

section \<open>Priority vectors\<close>

lemma better_alt:
  "better a b \<longleftrightarrow> pv_rootID a < pv_rootID b \<or> pv_rootID a = pv_rootID b \<and>
    (pv_cost a < pv_cost b \<or> pv_cost a = pv_cost b \<and>
      (pv_bridgeID a < pv_bridgeID b \<or> pv_bridgeID a = pv_bridgeID b \<and> pv_portID a < pv_portID b))"
  by (auto simp: better_def)

lemma better_total: "better a b \<or> a = b \<or> better b (a :: priorityVector)"
  by (cases a; cases b) (auto simp: better_alt)

lemma better_transitive: "better a b \<Longrightarrow> better b c \<Longrightarrow> better a c"
  unfolding better_alt by (elim disjE conjE) (use less_trans in \<open>fastforce+\<close>)

interpretation pv: best_scan better
proof unfold_locales
  fix a b :: priorityVector assume "better a b"
  then show "\<not> better b a" by (auto simp: better_alt)
next
  fix a b c :: priorityVector assume ab: "better a b"
  consider "better c b" | "c = b" | "better b c" using better_total [of c b] by blast
  then show "better a c \<or> better c b"
    using ab better_transitive [OF ab] by cases simp_all
qed

section \<open>Election\<close>

text \<open>The ports whose information takes part: heard from another bridge, and not expired.\<close>

definition offers :: "switch \<Rightarrow> string \<times> stpPort \<Rightarrow> bool" where
  "offers s q \<longleftrightarrow> hasInfo (snd q) \<and> pv_bridgeID (info (snd q)) \<noteq> bridgeID (stp s)"

lemma elect_scan:
  "fst (fold (elect_step s) qs (b, rt)) = pv.scan (map (candidate s \<circ> snd) (filter (offers s) qs)) b"
  by (induction qs arbitrary: b rt) (auto simp: elect_step_def offers_def split: prod.splits)

lemma elect_source:
  "snd (fold (elect_step s) qs (b, rt)) = rt \<and> fst (fold (elect_step s) qs (b, rt)) = b \<or>
    (\<exists>q \<in> set qs. offers s q \<and> snd (fold (elect_step s) qs (b, rt)) = Some (fst q)
      \<and> fst (fold (elect_step s) qs (b, rt)) = candidate s (snd q))"
proof (induction qs arbitrary: b rt)
  case (Cons q qs)
  have "elect_step s q (b, rt) = (b, rt) \<or> offers s q \<and> elect_step s q (b, rt) = (candidate s (snd q), Some (fst q))"
    by (auto simp: elect_step_def offers_def split: prod.splits)
  then show ?case using Cons.IH [of b rt] Cons.IH [of "candidate s (snd q)" "Some (fst q)"] by auto
qed simp

lemma elect_best:
  assumes "elect s = (best, rt)"
  shows "\<not> better (own_claim (stp s)) best"
    and "q \<in> set (bports (stp s)) \<Longrightarrow> offers s q \<Longrightarrow> \<not> better (candidate s (snd q)) best"
    and "rt = None \<Longrightarrow> best = own_claim (stp s)"
    and "rt = Some pid \<Longrightarrow> \<exists>sp. (pid, sp) \<in> set (bports (stp s)) \<and> offers s (pid, sp) \<and> best = candidate s sp"
proof -
  have scan: "best = pv.scan (map (candidate s \<circ> snd) (filter (offers s) (bports (stp s)))) (own_claim (stp s))"
    using elect_scan [of s "bports (stp s)" "own_claim (stp s)" None] assms by (simp add: elect_def)
  show "\<not> better (own_claim (stp s)) best"
    unfolding scan by (rule pv.scan_no_worse)
  show "\<not> better (candidate s (snd q)) best" if "q \<in> set (bports (stp s))" "offers s q"
    unfolding scan using that by (intro pv.scan_best) auto
  show "rt = None \<Longrightarrow> best = own_claim (stp s)"
    "rt = Some pid \<Longrightarrow> \<exists>sp. (pid, sp) \<in> set (bports (stp s)) \<and> offers s (pid, sp) \<and> best = candidate s sp"
    using elect_source [of s "bports (stp s)" "own_claim (stp s)" None] assms by (auto simp: elect_def)
qed

section \<open>Roles\<close>

text \<open>What the role loop leaves alone: all that the election and the designation of a port read.\<close>

definition same_port :: "stpPort \<Rightarrow> stpPort \<Rightarrow> bool" where
  "same_port sp sp' \<longleftrightarrow> sp_entry sp' = sp_entry sp \<and> hasInfo sp' = hasInfo sp \<and> info sp' = info sp
    \<and> infoAge sp' = infoAge sp"

definition same_tree :: "switch \<Rightarrow> switch \<Rightarrow> bool" where
  "same_tree s t \<longleftrightarrow> cfg (stp t) = cfg (stp s) \<and> bmac (stp t) = bmac (stp s) \<and> rootID (stp t) = rootID (stp s)
    \<and> rootCost (stp t) = rootCost (stp s) \<and> rootPort (stp t) = rootPort (stp s) \<and> ports t = ports s
    \<and> (\<forall>r. attrs (ent t r) = attrs (ent s r) \<and> portNum (ent t r) = portNum (ent s r) \<and> gone (ent t r) = gone (ent s r))"

lemma same_tree_refl [simp]: "same_tree s s"
  by (simp add: same_tree_def)

lemma same_tree_trans: "same_tree s t \<Longrightarrow> same_tree t u \<Longrightarrow> same_tree s u"
  by (simp add: same_tree_def)

lemma same_tree_upd [simp]:
  "same_tree s (set_state r st s)" "same_tree s (put_sp pid sp s)" "same_tree s (upd_fdb h s)" "same_tree s (emit ev s)"
  by (simp_all add: same_tree_def ent_set_state)

lemma same_tree_bridgeID: "same_tree s t \<Longrightarrow> bridgeID (stp t) = bridgeID (stp s)"
  by (simp add: same_tree_def bridgeID_def)

lemma designated_cong:
  "same_tree s t \<Longrightarrow> same_port sp sp' \<Longrightarrow> designatedLocked t sp' = designatedLocked s sp"
  using same_tree_bridgeID [of s t]
  by (simp add: same_tree_def same_port_def designatedLocked_def portIDValue_def Let_def)

definition role_for :: "switch \<Rightarrow> string option \<Rightarrow> string \<Rightarrow> stpPort \<Rightarrow> stpRole" where
  "role_for s rt pid sp = (if rt = Some pid then RoleRoot
     else if designatedLocked s sp then RoleDesignated else RoleBlocked)"

lemma role_step_effect:
  assumes "role_step rt pid (c, s) = (c', t)"
  shows "same_tree s t"
    and "mget (bports (stp t)) q = (if q = pid then
      map_option (\<lambda>sp. sp\<lparr>role := role_for s rt pid sp,
        stateTimer := (if role_for s rt pid sp \<noteq> RoleBlocked \<and> state (ent s (sp_entry sp)) = Blocking
                       then 0 else stateTimer sp)\<rparr>) (mget (bports (stp s)) pid)
      else mget (bports (stp s)) q)"
  using assms
  by (auto simp: role_step_def applyRoleLocked_def role_for_def Let_def mget_mput same_tree_def ent_set_state
      split: option.splits if_splits)


lemma role_for_cong:
  "same_tree s t \<Longrightarrow> same_port sp sp' \<Longrightarrow> role_for t rt pid sp' = role_for s rt pid sp"
  by (simp add: role_for_def designated_cong)

lemma same_port_refl [simp]: "same_port sp sp"
  by (simp add: same_port_def)

lemma same_port_trans: "same_port a b \<Longrightarrow> same_port b c \<Longrightarrow> same_port a c"
  by (simp add: same_port_def)

lemma roles_effect:
  assumes "fold (role_step rt) pids (c, s) = (c', t)"
  shows "same_tree s t \<and> (\<forall>q sp'. mget (bports (stp t)) q = Some sp' \<longrightarrow>
    (\<exists>sp. mget (bports (stp s)) q = Some sp \<and> same_port sp sp'
      \<and> role sp' = (if q \<in> set pids then role_for s rt q sp else role sp)))"
  using assms
proof (induction pids arbitrary: c s)
  case (Cons pid pids)
  obtain c1 s1 where st: "role_step rt pid (c, s) = (c1, s1)" by fastforce
  note eff = role_step_effect [OF st]
  have ih: "same_tree s1 t" "\<And>q sp'. mget (bports (stp t)) q = Some sp' \<Longrightarrow>
      \<exists>sp. mget (bports (stp s1)) q = Some sp \<and> same_port sp sp'
        \<and> role sp' = (if q \<in> set pids then role_for s1 rt q sp else role sp)"
    using Cons.IH [of c1 s1] Cons.prems st by auto
  show ?case
  proof (intro conjI allI impI)
    show "same_tree s t" by (rule same_tree_trans [OF eff(1) ih(1)])
    fix q sp' assume "mget (bports (stp t)) q = Some sp'"
    from ih(2) [OF this] obtain sp1 where
      sp1: "mget (bports (stp s1)) q = Some sp1" "same_port sp1 sp'"
        "role sp' = (if q \<in> set pids then role_for s1 rt q sp1 else role sp1)" by blast
    then obtain sp where sp: "mget (bports (stp s)) q = Some sp" "same_port sp sp1"
        "role sp1 = (if q = pid then role_for s rt q sp else role sp)"
      by (auto simp: eff(2) same_port_def split: if_splits)
    then have "role sp' = (if q \<in> set (pid # pids) then role_for s rt q sp else role sp)"
      using sp1(3) role_for_cong [OF eff(1) sp(2)] by auto
    then show "\<exists>sp. mget (bports (stp s)) q = Some sp \<and> same_port sp sp'
        \<and> role sp' = (if q \<in> set (pid # pids) then role_for s rt q sp else role sp)"
      using sp(1) same_port_trans [OF sp(2) sp1(2)] by blast
  qed
qed simp

text \<open>The state after the root fields are set, before the roles are.\<close>

definition rooted :: "switch \<Rightarrow> switch" where
  "rooted s = (let (best, rt) = elect s in
    upd_stp (\<lambda>b. b\<lparr>rootID := pv_rootID best, rootCost := pv_cost best,
      rootPort := (case rt of Some pid \<Rightarrow> pid | None \<Rightarrow> '''')\<rparr>) s)"

lemma same_tree_signal: "same_tree s (signalTopologyChangeLocked s)"
  by (simp add: signalTopologyChangeLocked_def same_tree_def Let_def)

lemma bports_signal [simp]: "bports (stp (signalTopologyChangeLocked s)) = bports (stp s)"
  by (simp add: signalTopologyChangeLocked_def Let_def)

lemma bports_rooted [simp]: "bports (stp (rooted s)) = bports (stp s)"
  by (simp add: rooted_def case_prod_beta Let_def)

lemma recompute_effect:
  assumes "Enabled (cfg (stp s))"
  shows "same_tree (rooted s) (recomputeLocked s) \<and>
    (\<forall>q sp'. mget (bports (stp (recomputeLocked s))) q = Some sp' \<longrightarrow>
      (\<exists>sp. mget (bports (stp s)) q = Some sp \<and> same_port sp sp' \<and> role sp' = role_for (rooted s) (snd (elect s)) q sp))"
proof -
  obtain c t where f: "fold (role_step (snd (elect s))) (map fst (bports (stp (rooted s)))) (False, rooted s) = (c, t)"
    by fastforce
  have r: "recomputeLocked s = (if c then signalTopologyChangeLocked t else t)"
    using f assms by (simp add: recomputeLocked_def rooted_def case_prod_beta Let_def)
  have key: "q \<in> set (map fst (bports (stp s)))" if "mget (bports (stp s)) q = Some sp" for q sp
    using mget_Some_mem [OF that] by force
  from roles_effect [OF f]
  have tree: "same_tree (rooted s) t" and ports: "\<And>q sp'. mget (bports (stp t)) q = Some sp' \<Longrightarrow>
      \<exists>sp. mget (bports (stp s)) q = Some sp \<and> same_port sp sp'
        \<and> role sp' = (if q \<in> set (map fst (bports (stp s))) then role_for (rooted s) (snd (elect s)) q sp else role sp)"
    by auto
  have "same_tree (rooted s) (recomputeLocked s)"
    using r tree same_tree_trans [OF tree same_tree_signal] by simp
  moreover have "bports (stp (recomputeLocked s)) = bports (stp t)" by (simp add: r)
  ultimately show ?thesis using ports key by (metis (no_types, lifting))
qed


section \<open>Configuration BPDUs\<close>

text \<open>The message age a bridge announces: that of its root port's information, plus a second.\<close>

definition message_age :: "stpBridge \<Rightarrow> int" where
  "message_age b = (if rootPort b \<noteq> '''' then
     (case mget (bports b) (rootPort b) of Some rp \<Rightarrow> infoAge rp + 1000000000 | None \<Rightarrow> 0) else 0)"

lemma frameHeader_fields:
  assumes "length (bmac b) = 6"
  shows "frameHeader b n = bpduMAC @ [0x02] @ drop 1 (bmac b) @ put_be16 (word_of_nat (3 + n))
    @ [0x42, 0x42, 0x03] @ replicate n 0"
proof -
  have z: "(replicate (ethHeaderLen + 3 + n) 0 :: frame) =
      replicate 6 0 @ [0] @ replicate 5 0 @ replicate 2 0 @ [0, 0, 0] @ replicate n 0"
    by (simp flip: replicate_add replicate_Suc add: replicate_app_Cons_same ethHeaderLen_def)
  have l: "length bpduMAC = 6" "length (drop 1 (bmac b)) = 5" "bslice 1 6 (bmac b) = drop 1 (bmac b)"
    using assms by (simp_all add: bpduMAC_def bslice_def)
  show ?thesis unfolding frameHeader_def Let_def z l(3) using l(1,2)
    by (simp add: blit_fields del: drop_Suc_Cons)
qed

lemma buildConfig_fields:
  assumes "length (bmac (stp s)) = 6"
  shows "buildConfig s sp flags = bpduMAC @ [0x02] @ drop 1 (bmac (stp s)) @ put_be16 38 @ [0x42, 0x42, 0x03]
    @ [0, 0, 0, 0, flags] @ put_be64 (rootID (stp s)) @ put_be32 (rootCost (stp s)) @ put_be64 (bridgeID (stp s))
    @ put_be16 (portIDValue s sp) @ put_be16 (bpdu_time (message_age (stp s))) @ put_be16 (bpdu_time (MaxAge (cfg (stp s))))
    @ put_be16 (bpdu_time (HelloTime (cfg (stp s)))) @ put_be16 (bpdu_time (ForwardDelay (cfg (stp s)))) @ replicate 8 0"
proof -
  have z: "(replicate 35 0 :: frame) = [0, 0, 0, 0, 0] @ replicate 8 0 @ replicate 4 0 @ replicate 8 0
      @ replicate 2 0 @ replicate 2 0 @ replicate 2 0 @ replicate 2 0 @ replicate 2 0"
    by (simp flip: replicate_add replicate_Suc add: replicate_app_Cons_same)
  have l: "length bpduMAC = 6" "length (drop 1 (bmac (stp s))) = 5"
    using assms by (simp_all add: bpduMAC_def)
  have age: "(if rootPort (stp s) \<noteq> '''' then
     (case mget (bports (stp s)) (rootPort (stp s)) of Some rp \<Rightarrow> infoAge rp + 1000000000 | None \<Rightarrow> 0) else 0)
     = message_age (stp s)" by (simp add: message_age_def)
  show ?thesis unfolding buildConfig_def Let_def frameHeader_fields [OF assms] age z pad60_def ethHeaderLen_def using l
    by (simp add: blit_fields del: drop_Suc_Cons)
qed


lemma buildConfig_body:
  assumes "length (bmac (stp s)) = 6"
  shows "drop (ethHeaderLen + 3) (buildConfig s sp flags) = [0, 0, 0, 0, flags] @ put_be64 (rootID (stp s))
    @ put_be32 (rootCost (stp s)) @ put_be64 (bridgeID (stp s)) @ put_be16 (portIDValue s sp)
    @ put_be16 (bpdu_time (message_age (stp s))) @ put_be16 (bpdu_time (MaxAge (cfg (stp s))))
    @ put_be16 (bpdu_time (HelloTime (cfg (stp s)))) @ put_be16 (bpdu_time (ForwardDelay (cfg (stp s)))) @ replicate 8 0"
  using assms by (simp add: buildConfig_fields bpduMAC_def ethHeaderLen_def)

lemma config_fields_read:
  assumes "length (bmac (stp s)) = 6" "body = drop (ethHeaderLen + 3) (buildConfig s sp flags)"
  shows "bpduInfo body = \<lparr>pv_rootID = rootID (stp s), pv_cost = rootCost (stp s),
      pv_bridgeID = bridgeID (stp s), pv_portID = portIDValue s sp\<rparr>"
    and "body ! 3 = 0" "body ! 4 = flags" "length body = 43"
    and "be16 (bslice 27 29 body) = bpdu_time (message_age (stp s))"
  using assms(1)
  by (simp_all add: assms(2) buildConfig_body bpduInfo_def bslice_def)

lemma config_is_bpdu:
  assumes "length (bmac (stp s)) = 6"
  shows "parseFrame (buildConfig s sp flags) = Some \<lparr>data = buildConfig s sp flags, tagged = False, vid = 0\<rparr>"
    and "dstMAC \<lparr>data = buildConfig s sp flags, tagged = False, vid = 0\<rparr> = bpduMAC"
    and "isBPDU bpduMAC (buildConfig s sp flags)"
  using assms
  by (simp_all add: buildConfig_fields parseFrame_def dstMAC_def isBPDU_def bpduMAC_def bslice_def vlan_consts
      nth_append)

section \<open>A bridge\<close>

text \<open>
  The small switch with the protocol enabled: port \<open>a\<close> is designated and has heard a better root at
  cost 5, port \<open>b\<close> is blocked.
\<close>

definition ex_offer :: stpPort where
  "ex_offer = \<lparr>sp_entry = 0, role = RoleDesignated, hasInfo = True,
     info = \<lparr>pv_rootID = 1, pv_cost = 5, pv_bridgeID = 2, pv_portID = 3\<rparr>, infoAge = 0, stateTimer = 0\<rparr>"

definition ex_tree :: switch where
  "ex_tree = set_state 1 Blocking (put_sp ''b'' (new_sp 1) (set_state 0 Listening (put_sp ''a'' ex_offer
     (upd_stp (\<lambda>b. b\<lparr>cfg := (cfg b)\<lparr>Enabled := True\<rparr>\<rparr>) ex_sw))))"

lemma ex_tree_wf: "sw_wf ex_tree"
proof -
  let ?s0 = "upd_stp (\<lambda>b. b\<lparr>cfg := (cfg b)\<lparr>Enabled := True\<rparr>\<rparr>) ex_sw"
  have "sw_wf ?s0" by (simp add: sw_wf_upd_stp ex_sw_wf)
  then have "sw_wf (set_state 0 Listening (put_sp ''a'' ex_offer ?s0))"
    by (rule sw_wf_transition) (simp_all add: entry_ok_def ex_eval ex_offer_def)
  then show ?thesis unfolding ex_tree_def
    by (rule sw_wf_transition) (simp_all add: entry_ok_def ent_set_state ex_eval mget_mput new_sp_def)
qed

lemma ex_sw_stp: "stp ex_sw = newSTPBridge (newInstanceID (replicate 8 7))"
  by (simp add: ex_sw_def ex_ops_def AddPort_def ex_attrs_valid New_def Let_def or_same_def portChangedLocked_def
      mget_def mput_def)

lemma ex_tree_sel:
  "Enabled (cfg (stp ex_tree))" "length (bmac (stp ex_tree)) = 6"
  "mget (bports (stp ex_tree)) ''a'' = Some ex_offer" "mget (bports (stp ex_tree)) ''b'' = Some (new_sp 1)"
  by (simp_all add: ex_tree_def ex_sw_stp newSTPBridge_def mget_mput)

section \<open>Properties\<close>

lemma roles_dom:
  "fold (role_step rt) pids (c, s) = (c', t) \<Longrightarrow> mget (bports (stp t)) q = None \<longleftrightarrow> mget (bports (stp s)) q = None"
proof (induction pids arbitrary: c s)
  case (Cons pid pids)
  obtain c1 s1 where st: "role_step rt pid (c, s) = (c1, s1)" by fastforce
  with Cons.IH [of c1 s1] Cons.prems role_step_effect(2) [OF st, of q] show ?case by simp
qed simp

lemma recompute_dom:
  assumes "Enabled (cfg (stp s))"
  shows "mget (bports (stp (recomputeLocked s))) q = None \<longleftrightarrow> mget (bports (stp s)) q = None"
proof -
  obtain c t where f: "fold (role_step (snd (elect s))) (map fst (bports (stp (rooted s)))) (False, rooted s) = (c, t)"
    by fastforce
  have "recomputeLocked s = (if c then signalTopologyChangeLocked t else t)"
    using f assms by (simp add: recomputeLocked_def rooted_def case_prod_beta Let_def)
  then show ?thesis using roles_dom [OF f, of q] by simp
qed

lemma offers_name: "sw_wf s \<Longrightarrow> (pid, sp) \<in> set (bports (stp s)) \<Longrightarrow> pid \<noteq> ''''"
  using sw_wfD(7) [of s pid sp] mem_mget [OF sw_wfD(2)] pe_id_nonempty [of s "sp_entry sp"]
  by (auto simp: entry_ok_def)

lemma rooted_sel:
  "rootID (stp (rooted s)) = pv_rootID (fst (elect s))" "rootCost (stp (rooted s)) = pv_cost (fst (elect s))"
  "rootPort (stp (rooted s)) = (case snd (elect s) of Some pid \<Rightarrow> pid | None \<Rightarrow> '''')"
  by (simp_all add: rooted_def case_prod_beta Let_def)

lemma recompute_root:
  assumes "Enabled (cfg (stp s))"
  shows "rootID (stp (recomputeLocked s)) = pv_rootID (fst (elect s))"
    "rootCost (stp (recomputeLocked s)) = pv_cost (fst (elect s))"
    "rootPort (stp (recomputeLocked s)) = (case snd (elect s) of Some pid \<Rightarrow> pid | None \<Rightarrow> '''')"
  using recompute_effect [OF assms] by (simp_all add: same_tree_def rooted_sel)

text \<open>
  C29. Root election. After a recomputation the root identifier and path cost are those of the best
  vector on offer: the bridge's own claim, or the unexpired information another bridge gave on a
  port, with that port's cost added. The root port is empty exactly if the own claim won, and else
  names the port that made the winning offer.
\<close>

theorem election_optimal:
  assumes "sw_wf s" "Enabled (cfg (stp s))" "t = recomputeLocked s"
  shows "\<exists>best. rootID (stp t) = pv_rootID best \<and> rootCost (stp t) = pv_cost best
    \<and> \<not> better (own_claim (stp s)) best
    \<and> (\<forall>pid sp. mget (bports (stp s)) pid = Some sp \<longrightarrow> offers s (pid, sp) \<longrightarrow> \<not> better (candidate s sp) best)
    \<and> (if rootPort (stp t) = '''' then best = own_claim (stp s)
       else \<exists>sp. mget (bports (stp s)) (rootPort (stp t)) = Some sp \<and> offers s (rootPort (stp t), sp)
         \<and> best = candidate s sp)"
proof -
  obtain best rt where el: "elect s = (best, rt)" by fastforce
  note b = elect_best [OF el]
  have "\<not> better (candidate s sp) best" if "mget (bports (stp s)) pid = Some sp" "offers s (pid, sp)" for pid sp
    using b(2) [OF mget_Some_mem [OF that(1)] that(2)] by simp
  moreover have "if rootPort (stp t) = '''' then best = own_claim (stp s)
       else \<exists>sp. mget (bports (stp s)) (rootPort (stp t)) = Some sp \<and> offers s (rootPort (stp t), sp) \<and> best = candidate s sp"
    using b(3) b(4) recompute_root(3) [OF assms(2)] offers_name [OF assms(1)] mem_mget [OF sw_wfD(2) [OF assms(1)]]
    by (cases rt) (auto simp: assms(3) el)
  ultimately show ?thesis
    using b(1) recompute_root(1,2) [OF assms(2)] by (intro exI [of _ best]) (simp add: assms(3) el)
qed

theorem election_optimal_witness:
  "\<exists>best. rootID (stp (recomputeLocked ex_tree)) = pv_rootID best
    \<and> rootCost (stp (recomputeLocked ex_tree)) = pv_cost best \<and> \<not> better (own_claim (stp ex_tree)) best"
  using election_optimal [OF ex_tree_wf ex_tree_sel(1) refl] by blast

text \<open>
  C30. Port roles. After a recomputation a port is the root port exactly if the bridge's root port
  field names it, so there is at most one; any other port is blocked exactly if it holds
  information at least as good as what this bridge would send out of it, and designated otherwise.
  A blocked port's entry is in the blocking state and no other port's is.
\<close>

theorem roles_follow_election:
  assumes "sw_wf s" "Enabled (cfg (stp s))" "t = recomputeLocked s" "mget (bports (stp t)) pid = Some sp"
  shows "(role sp = RoleRoot \<longleftrightarrow> pid = rootPort (stp t))
    \<and> (role sp = RoleBlocked \<longleftrightarrow> pid \<noteq> rootPort (stp t) \<and> hasInfo sp \<and>
        \<not> better \<lparr>pv_rootID = rootID (stp t), pv_cost = rootCost (stp t), pv_bridgeID = bridgeID (stp t),
                 pv_portID = portIDValue t sp\<rparr> (info sp))
    \<and> (role sp = RoleBlocked \<longleftrightarrow> state (ent t (sp_entry sp)) = Blocking)"
proof -
  have wf: "sw_wf t" unfolding assms(3) by (rule sw_wf_recompute [OF assms(1)])
  from recompute_effect [OF assms(2)] assms(3,4) obtain sp0 where
    tree: "same_tree (rooted s) t" and sp: "same_port sp0 sp" and role: "role sp = role_for (rooted s) (snd (elect s)) pid sp0"
    by blast
  have "pid \<noteq> ''''" using offers_name [OF wf mget_Some_mem [OF assms(4)]] .
  then have rt: "snd (elect s) = Some pid \<longleftrightarrow> pid = rootPort (stp t)"
    using recompute_root(3) [OF assms(2)] by (auto simp: assms(3) split: option.splits)
  have "role sp = role_for t (snd (elect s)) pid sp"
    using role role_for_cong [OF tree sp] by simp
  then show ?thesis
    using sw_wfD(8) [OF wf assms(4)] by (auto simp: role_for_def rt designatedLocked_def Let_def split: if_splits)
qed

theorem roles_follow_election_witness:
  "\<exists>sp. mget (bports (stp (recomputeLocked ex_tree))) ''b'' = Some sp
    \<and> (role sp = RoleRoot \<longleftrightarrow> ''b'' = rootPort (stp (recomputeLocked ex_tree)))"
proof -
  obtain sp where sp: "mget (bports (stp (recomputeLocked ex_tree))) ''b'' = Some sp"
    using recompute_dom [OF ex_tree_sel(1), of "''b''"] ex_tree_sel(4) by auto
  from roles_follow_election [OF ex_tree_wf ex_tree_sel(1) refl sp] sp show ?thesis by blast
qed

text \<open>
  C37. BPDU round trip: the configuration message a bridge builds for a port is recognised as a
  BPDU by the receiving pipeline, and what the receiver reads out of it is the sender's claim: root
  identifier, root path cost, bridge identifier and port identifier, with the flags as given.
\<close>

theorem config_bpdu_round_trip:
  assumes "length (bmac (stp s)) = 6" "fr = buildConfig s sp flags" "body = drop (ethHeaderLen + 3) fr"
  shows "parseFrame fr = Some \<lparr>data = fr, tagged = False, vid = 0\<rparr>
    \<and> isBPDU (dstMAC \<lparr>data = fr, tagged = False, vid = 0\<rparr>) fr
    \<and> 35 \<le> length body \<and> body ! 3 = 0 \<and> body ! 4 = flags
    \<and> bpduInfo body = \<lparr>pv_rootID = rootID (stp s), pv_cost = rootCost (stp s),
        pv_bridgeID = bridgeID (stp s), pv_portID = portIDValue s sp\<rparr>"
  using config_is_bpdu [OF assms(1), where sp = sp and flags = flags]
    config_fields_read [OF assms(1), where sp = sp and flags = flags and body = body] assms(2,3)
  by simp

theorem config_bpdu_round_trip_witness:
  "bpduInfo (drop (ethHeaderLen + 3) (buildConfig ex_tree ex_offer 0x80)) =
    \<lparr>pv_rootID = rootID (stp ex_tree), pv_cost = rootCost (stp ex_tree), pv_bridgeID = bridgeID (stp ex_tree),
     pv_portID = portIDValue ex_tree ex_offer\<rparr>"
  using config_bpdu_round_trip [OF ex_tree_sel(2) refl refl, where sp = ex_offer and flags = "0x80"] by blast

text \<open>
  C28. No state the switch can reach lets a blocked port pass traffic: after any sequence of
  operations from a well-formed state, such as a new switch, a frame that is not a control frame and
  enters a port whose spanning-tree role is blocked is sent nowhere, and no copy of any such frame
  leaves through a blocked port.
\<close>

theorem blocked_port_passes_nothing:
  assumes "sw_wf s0" "s = fold exec_sw ops s0" "mget (bports (stp s)) pid = Some sp" "role sp = RoleBlocked"
    and "parseFrame fr = Some f" "\<not> control_frame s fr f"
  shows "calls s (deliver clk acc (sp_entry sp) fr s) = []
    \<and> (src < length (store s) \<longrightarrow> Sent (sp_entry sp) sid out \<notin> set (calls s (deliver clk acc src fr s)))"
proof -
  have wf: "sw_wf s" unfolding assms(2) by (rule sw.inv_run [OF assms(1)])
  have r: "sp_entry sp < length (store s)" using sw_wfD(7) [OF wf assms(3)] by (simp add: entry_ok_def)
  have st: "state (ent s (sp_entry sp)) = Blocking" using sw_wfD(8) [OF wf assms(3)] assms(4) by simp
  have "calls s (deliver clk acc (sp_entry sp) fr s) = []"
    using deliver_calls [OF wf r assms(5,6), of clk acc] st by auto
  moreover have "Sent (sp_entry sp) sid out \<notin> set (calls s (deliver clk acc src fr s))" if src: "src < length (store s)"
  proof
    assume "Sent (sp_entry sp) sid out \<in> set (calls s (deliver clk acc src fr s))"
    then obtain key where key: "sp_entry sp \<in> set (bridge_out clk src f key s)"
      using deliver_calls [OF wf src assms(5,6), of clk acc] by auto
    then show False using bridge_out_mem(4) [OF wf src key] st by simp
  qed
  ultimately show ?thesis by blast
qed

theorem blocked_port_passes_nothing_witness:
  "calls ex_tree (deliver ex_clk (\<lambda>r. True) 1 ex_frame ex_tree) = []"
proof -
  have "instanceID ex_tree = instanceID ex_sw" by (simp add: ex_tree_def)
  then have "\<not> control_frame ex_tree ex_frame \<lparr>data = ex_frame, tagged = False, vid = 0\<rparr>"
    using ex_admitted by (simp add: admitted_def control_frame_def)
  from blocked_port_passes_nothing [OF ex_tree_wf _ ex_tree_sel(4) _ ex_frame_parse this, of "[]" ex_clk "\<lambda>r. True"]
  show ?thesis by (simp add: new_sp_def)
qed

text \<open>
  Turning the protocol off opens every port: whatever the state, all ports leave the spanning
  tree and all entries are in the forwarding state at once.
\<close>

theorem disabling_opens_ports:
  assumes "sw_wf s" "\<not> Enabled c" "r < length (store s)"
  shows "bports (stp (SetSTPConfig c s)) = [] \<and> state (ent (SetSTPConfig c s) r) = Forwarding"
proof -
  define s1 where "s1 = upd_stp (\<lambda>b. b\<lparr>cfg := normalizeConfig c\<rparr>) s"
  have "sw_wf s1" using assms(1) by (simp add: s1_def sw_wf_upd_stp)
  then have "state (ent (fold (\<lambda>(pid, sp). set_state (sp_entry sp) Forwarding) (bports (stp s1)) s1) r) = Forwarding"
    using assms(3) by (intro all_forwarding_after_release) (simp_all add: s1_def)
  then show ?thesis using assms(2) by (simp add: SetSTPConfig_def Let_def s1_def [symmetric])
qed

theorem disabling_opens_ports_witness:
  "state (ent (SetSTPConfig defaultSTPConfig ex_tree) 1) = Forwarding"
proof -
  have "length (store ex_tree) = 3" by (simp add: ex_tree_def ex_sw_sel)
  then show ?thesis
    using disabling_opens_ports [OF ex_tree_wf, of defaultSTPConfig 1] by (simp add: defaultSTPConfig_def)
qed

end
