(* ===== verification/NetAddr.thy ===== *)
theory NetAddr
  imports VS_Prelude "HOL-Library.Product_Lexorder" "HOL-Library.List_Lexorder"
begin

text \<open>
  The parts of Go's \<^verbatim>\<open>net/netip\<close> and \<^verbatim>\<open>net\<close> the gateway uses: addresses with their order and
  successor, conversion from byte slices, and prefixes. The pool an address range denotes is
  what the allocation loops of the DHCP servers run over.
\<close>

section \<open>Addresses\<close>

type_synonym u128 = "128 word"

datatype Addr = NoAddr | A4 u32 | A6 u128 string

definition IsValid :: "Addr \<Rightarrow> bool" where
  "IsValid a \<longleftrightarrow> a \<noteq> NoAddr"

fun Is4 :: "Addr \<Rightarrow> bool" where
  "Is4 (A4 _) = True"
| "Is4 _ = False"

fun Is6 :: "Addr \<Rightarrow> bool" where
  "Is6 (A6 _ _) = True"
| "Is6 _ = False"

fun Is4In6 :: "Addr \<Rightarrow> bool" where
  "Is4In6 (A6 w _) = (drop_bit 32 w = 0xffff)"
| "Is4In6 _ = False"

definition IsUnspecified :: "Addr \<Rightarrow> bool" where
  "IsUnspecified a \<longleftrightarrow> a = A4 0 \<or> a = A6 0 []"

text \<open>\<^verbatim>\<open>Compare\<close> goes by family, then value, then zone.\<close>

fun addr_key :: "Addr \<Rightarrow> nat \<times> nat \<times> nat list" where
  "addr_key NoAddr = (0, 0, [])"
| "addr_key (A4 w) = (32, unat w, [])"
| "addr_key (A6 w z) = (128, unat w, map (\<lambda>c. of_char c) z)"

lemma addr_key_inj: "addr_key a = addr_key b \<Longrightarrow> a = b"
  by (cases a; cases b) (auto simp: unsigned_word_eqI dest: map_injective [OF _ inj_of_char])

instantiation Addr :: linorder
begin

definition less_eq_Addr :: "Addr \<Rightarrow> Addr \<Rightarrow> bool" where
  "less_eq_Addr a b \<longleftrightarrow> addr_key a \<le> addr_key b"

definition less_Addr :: "Addr \<Rightarrow> Addr \<Rightarrow> bool" where
  "less_Addr a b \<longleftrightarrow> addr_key a < addr_key b"

instance
proof
  fix a b c :: Addr
  show "(a < b) = (a \<le> b \<and> \<not> b \<le> a)" by (auto simp: less_eq_Addr_def less_Addr_def)
  show "a \<le> a" by (simp add: less_eq_Addr_def)
  show "a \<le> b \<Longrightarrow> b \<le> c \<Longrightarrow> a \<le> c" by (auto simp: less_eq_Addr_def)
  show "a \<le> b \<Longrightarrow> b \<le> a \<Longrightarrow> a = b" by (auto simp: less_eq_Addr_def intro: addr_key_inj)
  show "a \<le> b \<or> b \<le> a" by (auto simp: less_eq_Addr_def)
qed

end

text \<open>\<^verbatim>\<open>Next\<close> keeps the zone; past the last address of a family it is the invalid address.\<close>

fun Next :: "Addr \<Rightarrow> Addr" where
  "Next NoAddr = NoAddr"
| "Next (A4 w) = (if w + 1 = 0 then NoAddr else A4 (w + 1))"
| "Next (A6 w z) = (if w + 1 = 0 then NoAddr else A6 (w + 1) z)"

section \<open>Byte slices\<close>

type_synonym net_IP = "byte list"

text \<open>\<^verbatim>\<open>netip.AddrFromSlice\<close>; the second result is whether the length is right.\<close>

definition AddrFromSlice :: "byte list \<Rightarrow> Addr" where
  "AddrFromSlice b = (if length b = 4 then A4 (be32 b)
     else if length b = 16 then A6 (word_of_nat (get_be b)) [] else NoAddr)"

definition To4 :: "net_IP \<Rightarrow> net_IP" where
  "To4 ip = (if length ip = 4 then ip
     else if length ip = 16 \<and> take 12 ip = replicate 10 0 @ [0xff, 0xff] then drop 12 ip else [])"

definition To16 :: "net_IP \<Rightarrow> net_IP" where
  "To16 ip = (if length ip = 4 then replicate 10 0 @ [0xff, 0xff] @ ip else if length ip = 16 then ip else [])"

fun As16 :: "Addr \<Rightarrow> byte list" where
  "As16 (A6 w z) = put_be 16 (unat w)"
| "As16 (A4 w) = replicate 10 0 @ [0xff, 0xff] @ put_be 4 (unat w)"
| "As16 NoAddr = replicate 16 0"

lemma length_As16 [simp]: "length (As16 a) = 16"
  by (cases a) simp_all

section \<open>Prefixes\<close>

text \<open>A prefix is an address without zone and a number of bits, or invalid.\<close>

definition PrefixContains :: "Addr \<Rightarrow> nat \<Rightarrow> Addr \<Rightarrow> bool" where
  "PrefixContains p bits ip = (case (p, ip) of
       (A4 a, A4 b) \<Rightarrow> bits \<le> 32 \<and> drop_bit (32 - bits) (a XOR b) = 0
     | (A6 a _, A6 b z) \<Rightarrow> bits \<le> 128 \<and> z = [] \<and> drop_bit (128 - bits) (a XOR b) = 0
     | _ \<Rightarrow> False)"

section \<open>Address ranges\<close>

text \<open>
  The addresses the loop \<^verbatim>\<open>for ip := start; ip.IsValid() && !end.Less(ip); ip = ip.Next()\<close> visits, in
  order. It ends because \<^verbatim>\<open>Next\<close> runs out of addresses.
\<close>

fun headroom :: "Addr \<Rightarrow> nat" where
  "headroom NoAddr = 0"
| "headroom (A4 w) = 2 ^ 32 - unat w"
| "headroom (A6 w z) = 2 ^ 128 - unat w"

lemma unat_inc: "w + 1 \<noteq> 0 \<Longrightarrow> unat (w + 1) = Suc (unat (w :: 'a :: len word))"
  using unatSuc [of w] by (simp add: add.commute)

lemma headroom_Next: "a \<noteq> NoAddr \<Longrightarrow> headroom (Next a) < headroom a"
proof (cases a)
  case (A4 w)
  show ?thesis using unat_bound(3) [of w] by (auto simp: A4 unat_inc)
next
  case (A6 w z)
  have "unat w < 2 ^ 128" by (rule order_less_le_trans [OF unsigned_less]) simp
  then show ?thesis by (auto simp: A6 unat_inc)
qed simp

function pool :: "Addr \<Rightarrow> Addr \<Rightarrow> Addr list" where
  "pool ip hi = (if IsValid ip \<and> \<not> hi < ip then ip # pool (Next ip) hi else [])"
  by pat_completeness auto
termination
  by (relation "measure (headroom \<circ> fst)") (auto simp: IsValid_def headroom_Next)

declare pool.simps [simp del]

text \<open>A range within one family is the interval of its values.\<close>

lemma less_A4 [simp]: "A4 a < A4 b \<longleftrightarrow> a < b" "A4 a \<le> A4 b \<longleftrightarrow> a \<le> b"
  by (auto simp: less_Addr_def less_eq_Addr_def word_less_nat_alt word_le_nat_alt)

lemma less_A6 [simp]: "A6 a z < A6 b z \<longleftrightarrow> a < b" "A6 a z \<le> A6 b z \<longleftrightarrow> a \<le> b"
  by (auto simp: less_Addr_def less_eq_Addr_def word_less_nat_alt word_le_nat_alt)

lemma Next_greater: "IsValid (Next a) \<Longrightarrow> a < Next a"
  by (cases a) (auto simp: IsValid_def less_Addr_def unat_inc split: if_splits)

lemma pool_valid: "a \<in> set (pool ip hi) \<Longrightarrow> IsValid ip"
  by (subst (asm) pool.simps) (auto split: if_splits)

lemma pool_bounds: "a \<in> set (pool ip hi) \<Longrightarrow> ip \<le> a \<and> a \<le> hi \<and> IsValid a"
proof (induction ip hi rule: pool.induct)
  case (1 ip hi)
  from "1.prems" have c: "IsValid ip \<and> \<not> hi < ip" and a: "a = ip \<or> a \<in> set (pool (Next ip) hi)"
    by (subst (asm) pool.simps, auto split: if_splits)+
  from a show ?case
  proof
    assume m: "a \<in> set (pool (Next ip) hi)"
    have "ip < Next ip" by (rule Next_greater [OF pool_valid [OF m]])
    then show ?thesis using "1.IH" [OF c m] by auto
  qed (use c in auto)
qed

lemma pool_sorted: "sorted_wrt (<) (pool ip hi)"
proof (induction ip hi rule: pool.induct)
  case (1 ip hi)
  have "ip < a" if "a \<in> set (pool (Next ip) hi)" for a
    using Next_greater [OF pool_valid [OF that]] pool_bounds [OF that] by auto
  then show ?case using 1 by (subst pool.simps) simp
qed

lemma word_inc:
  fixes a w :: "'a :: len word"
  assumes "a < w"
  shows "a + 1 \<noteq> 0" "a + 1 \<le> w" "unat w - unat (a + 1) < unat w - unat a"
proof -
  show nz: "a + 1 \<noteq> 0"
  proof
    assume "a + 1 = 0"
    then have "a = - 1" by (simp add: eq_neg_iff_add_eq_0)
    with assms show False using word_n1_ge [of w] by simp
  qed
  show "a + 1 \<le> w" by (rule inc_le [OF assms])
  show "unat w - unat (a + 1) < unat w - unat a" using assms by (simp add: unat_inc [OF nz] word_less_nat_alt)
qed

lemma pool_Cons: "IsValid ip \<Longrightarrow> ip \<le> hi \<Longrightarrow> pool ip hi = ip # pool (Next ip) hi"
  by (subst pool.simps) auto

lemma pool_A4: "a \<le> w \<Longrightarrow> w \<le> b \<Longrightarrow> A4 w \<in> set (pool (A4 a) (A4 b))"
proof (induction "unat w - unat a" arbitrary: a rule: less_induct)
  case less
  have "pool (A4 a) (A4 b) = A4 a # pool (Next (A4 a)) (A4 b)"
    using less.prems by (intro pool_Cons) (auto simp: IsValid_def)
  then show ?case using less word_inc [of a w] by (cases "a = w") auto
qed

lemma pool_A6: "a \<le> w \<Longrightarrow> w \<le> b \<Longrightarrow> A6 w z \<in> set (pool (A6 a z) (A6 b z))"
proof (induction "unat w - unat a" arbitrary: a rule: less_induct)
  case less
  have "pool (A6 a z) (A6 b z) = A6 a z # pool (Next (A6 a z)) (A6 b z)"
    using less.prems by (intro pool_Cons) (auto simp: IsValid_def)
  then show ?case using less word_inc [of a w] by (cases "a = w") auto
qed

end
