(* ===== verification/Bindings.thy ===== *)
theory Bindings
  imports NetAddr
begin

text \<open>
  What the two DHCP servers of a gateway share (\<^verbatim>\<open>internal/gateway/binding.go\<close>): static bindings and
  the choice of the binding that applies to a client, and the lease table with its allocation loop.
  A lease table operation that reads the clock takes the reading as its argument \<^term>\<open>now\<close>.
  \<^verbatim>\<open>strings.EqualFold\<close> and \<^verbatim>\<open>strings.ToLower\<close> are modelled on ASCII strings, which printed hardware
  addresses and hexadecimal identifiers are.
\<close>

section \<open>Static bindings\<close>

definition lower_char :: "char \<Rightarrow> char" where
  "lower_char c = (let n = of_char c :: nat in if 65 \<le> n \<and> n \<le> 90 then char_of (n + 32) else c)"

definition ToLower :: "string \<Rightarrow> string" where
  "ToLower s = map lower_char s"

definition EqualFold :: "string \<Rightarrow> string \<Rightarrow> bool" where
  "EqualFold a b \<longleftrightarrow> ToLower a = ToLower b"

record StaticBinding =
  sb_ID :: string
  sb_Order :: int
  sb_PortID :: "string option"
  sb_MAC :: "string option"
  sb_ClientID :: "string option"
  sb_IP :: Addr

datatype binding_error = NeedsCondition | NeedsValidIP | NeedsID | NeedsIPv6 string | NeedsIPv4 string
  | DuplicateID string | InBinding string binding_error | BindingNotFound string | LeaseNotFound Addr

definition binding_validate :: "StaticBinding \<Rightarrow> binding_error option" where
  "binding_validate b =
     (if sb_PortID b = None \<and> sb_MAC b = None \<and> sb_ClientID b = None then Some NeedsCondition
      else if \<not> IsValid (sb_IP b) then Some NeedsValidIP
      else None)"

text \<open>
  The score of a binding: the number of its conditions, or nothing when one of them fails.
\<close>

definition condition :: "(string \<Rightarrow> string \<Rightarrow> bool) \<Rightarrow> string option \<Rightarrow> string \<Rightarrow> nat option" where
  "condition eq c x = (case c of None \<Rightarrow> Some 0 | Some y \<Rightarrow> if eq y x then Some 1 else None)"

definition binding_score :: "string \<Rightarrow> string \<Rightarrow> string \<Rightarrow> StaticBinding \<Rightarrow> nat option" where
  "binding_score portID mac clientID b =
     (case condition (=) (sb_PortID b) portID of None \<Rightarrow> None | Some i \<Rightarrow>
      (case condition EqualFold (sb_MAC b) mac of None \<Rightarrow> None | Some j \<Rightarrow>
       (case condition EqualFold (sb_ClientID b) clientID of None \<Rightarrow> None | Some k \<Rightarrow>
          Some (i + j + k))))"

definition match_step ::
  "string \<Rightarrow> string \<Rightarrow> string \<Rightarrow> StaticBinding \<Rightarrow> StaticBinding option \<times> nat \<Rightarrow> StaticBinding option \<times> nat" where
  "match_step portID mac clientID b acc =
     (case binding_score portID mac clientID b of
        None \<Rightarrow> acc
      | Some score \<Rightarrow>
          if score = 0 then acc
          else (case fst acc of
              None \<Rightarrow> (Some b, score)
            | Some best \<Rightarrow>
                if score > snd acc \<or> score = snd acc \<and> sb_Order b > sb_Order best
                then (Some b, score) else acc))"

definition matchBinding :: "StaticBinding list \<Rightarrow> string \<Rightarrow> string \<Rightarrow> string \<Rightarrow> StaticBinding option" where
  "matchBinding bindings portID mac clientID =
     fst (fold (match_step portID mac clientID) bindings (None, 0))"

type_synonym statics = "(string, StaticBinding) gomap"

definition wrong_family :: "bool \<Rightarrow> Addr \<Rightarrow> bool" where
  "wrong_family v6 a \<longleftrightarrow> (if v6 then \<not> Is6 a \<or> Is4In6 a else \<not> Is4 a)"

fun build_statics :: "bool \<Rightarrow> StaticBinding list \<Rightarrow> statics \<Rightarrow> binding_error + statics" where
  "build_statics v6 [] m = Inr m"
| "build_statics v6 (b # bs) m =
     (if sb_ID b = [] then Inl NeedsID
      else (case binding_validate b of
          Some e \<Rightarrow> Inl (InBinding (sb_ID b) e)
        | None \<Rightarrow>
            if wrong_family v6 (sb_IP b)
            then Inl (if v6 then NeedsIPv6 (sb_ID b) else NeedsIPv4 (sb_ID b))
            else if mget m (sb_ID b) \<noteq> None then Inl (DuplicateID (sb_ID b))
            else build_statics v6 bs (mput (sb_ID b) b m)))"

definition buildStaticSet :: "StaticBinding list \<Rightarrow> bool \<Rightarrow> binding_error + statics" where
  "buildStaticSet bs v6 = build_statics v6 bs []"

section \<open>Leases\<close>

record Lease =
  l_IP :: Addr
  l_MAC :: string
  l_ClientID :: string
  l_PortID :: string
  l_Expiry :: time
  l_Static :: bool

type_synonym leaseTable = "(Addr, Lease) gomap"

definition newLeaseTable :: leaseTable where
  "newLeaseTable = []"

definition clientKey :: "string \<Rightarrow> string \<Rightarrow> string" where
  "clientKey mac clientID = ToLower mac @ ''/'' @ ToLower clientID"

definition lease_get :: "time \<Rightarrow> leaseTable \<Rightarrow> Addr \<Rightarrow> Lease option" where
  "lease_get now t ip = (case mget t ip of
       None \<Rightarrow> None
     | Some l \<Rightarrow> if now > l_Expiry l then None else Some l)"

definition byClient :: "time \<Rightarrow> leaseTable \<Rightarrow> string \<Rightarrow> string \<Rightarrow> Lease option" where
  "byClient now t mac clientID =
     find (\<lambda>l. clientKey (l_MAC l) (l_ClientID l) = clientKey mac clientID \<and> \<not> now > l_Expiry l) (map snd t)"

definition lease_set :: "Lease \<Rightarrow> leaseTable \<Rightarrow> leaseTable" where
  "lease_set l t = mput (l_IP l) l t"

definition lease_release :: "Addr \<Rightarrow> leaseTable \<Rightarrow> bool \<times> leaseTable" where
  "lease_release ip t = (if mget t ip = None then (False, t) else (True, mdel ip t))"

definition releaseByPort :: "string \<Rightarrow> leaseTable \<Rightarrow> leaseTable" where
  "releaseByPort portID t = mkeep (\<lambda>ip l. l_PortID l \<noteq> portID) t"

definition inUse :: "time \<Rightarrow> leaseTable \<Rightarrow> Addr \<Rightarrow> string \<Rightarrow> string \<Rightarrow> bool" where
  "inUse now t ip mac clientID = (case mget t ip of
       None \<Rightarrow> False
     | Some l \<Rightarrow> if now > l_Expiry l then False
         else clientKey (l_MAC l) (l_ClientID l) \<noteq> clientKey mac clientID)"

definition expireSweep :: "time \<Rightarrow> leaseTable \<Rightarrow> leaseTable" where
  "expireSweep now t = mkeep (\<lambda>ip l. \<not> now > l_Expiry l) t"

definition lease_snapshot :: "time \<Rightarrow> leaseTable \<Rightarrow> Lease list" where
  "lease_snapshot now t = sort_key l_IP (filter (\<lambda>l. \<not> now > l_Expiry l) (map snd t))"

text \<open>
  The loop of \<^verbatim>\<open>allocate\<close>: the first address of the range that is not skipped and has no active
  lease is booked. The result is the invalid address when there is none.
\<close>

function allocate ::
  "time \<Rightarrow> Addr \<Rightarrow> Addr \<Rightarrow> (Addr \<Rightarrow> bool) \<Rightarrow> Lease \<Rightarrow> leaseTable \<Rightarrow> Addr \<times> leaseTable" where
  "allocate now ip hi skip l t =
     (if IsValid ip \<and> \<not> hi < ip then
        if skip ip then allocate now (Next ip) hi skip l t
        else if lease_get now t ip \<noteq> None then allocate now (Next ip) hi skip l t
        else (ip, mput ip (l\<lparr>l_IP := ip\<rparr>) t)
      else (NoAddr, t))"
  by pat_completeness auto
termination
  by (relation "measure (\<lambda>(now, ip, hi, skip, l, t). headroom ip)") (auto simp: IsValid_def headroom_Next)

declare allocate.simps [simp del]


section \<open>The choice of a binding\<close>

text \<open>A binding applies to a client when each of its conditions is a wildcard or holds.\<close>

definition meets :: "(string \<Rightarrow> string \<Rightarrow> bool) \<Rightarrow> string option \<Rightarrow> string \<Rightarrow> bool" where
  "meets eq c x \<longleftrightarrow> (\<forall>y. c = Some y \<longrightarrow> eq y x)"

definition applies :: "string \<Rightarrow> string \<Rightarrow> string \<Rightarrow> StaticBinding \<Rightarrow> bool" where
  "applies portID mac clientID b \<longleftrightarrow> meets (=) (sb_PortID b) portID
     \<and> meets EqualFold (sb_MAC b) mac \<and> meets EqualFold (sb_ClientID b) clientID"

definition conditions :: "StaticBinding \<Rightarrow> nat" where
  "conditions b = length (filter (\<lambda>c. c \<noteq> None) [sb_PortID b, sb_MAC b, sb_ClientID b])"

lemma binding_score_applies:
  "binding_score portID mac clientID b = (if applies portID mac clientID b then Some (conditions b) else None)"
  by (cases "sb_PortID b"; cases "sb_MAC b"; cases "sb_ClientID b")
    (auto simp: binding_score_def condition_def applies_def meets_def conditions_def)

lemma conditions_0: "conditions b = 0 \<longleftrightarrow> sb_PortID b = None \<and> sb_MAC b = None \<and> sb_ClientID b = None"
  by (auto simp: conditions_def)

text \<open>More conditions rank first, then the higher order.\<close>

definition outranks :: "StaticBinding \<Rightarrow> StaticBinding \<Rightarrow> bool" where
  "outranks a b \<longleftrightarrow> conditions a > conditions b \<or> conditions a = conditions b \<and> sb_Order a > sb_Order b"

interpretation rank: best_scan outranks
  by unfold_locales (auto simp: outranks_def)

definition contenders :: "string \<Rightarrow> string \<Rightarrow> string \<Rightarrow> StaticBinding list \<Rightarrow> StaticBinding list" where
  "contenders portID mac clientID bs = filter (\<lambda>b. applies portID mac clientID b \<and> conditions b \<noteq> 0) bs"

lemma match_fold:
  "fold (match_step portID mac clientID) bs (Some b, conditions b) =
     (let r = rank.scan (contenders portID mac clientID bs) b in (Some r, conditions r))"
  by (induction bs arbitrary: b)
    (auto simp: match_step_def binding_score_applies contenders_def outranks_def Let_def)

lemma matchBinding_scan:
  "matchBinding bs portID mac clientID = (case contenders portID mac clientID bs of
     [] \<Rightarrow> None | b # cs \<Rightarrow> Some (rank.scan cs b))"
proof (induction bs)
  case (Cons b bs)
  show ?case
  proof (cases "applies portID mac clientID b \<and> conditions b \<noteq> 0")
    case True
    then show ?thesis using match_fold [of portID mac clientID bs b]
      by (simp add: matchBinding_def match_step_def binding_score_applies contenders_def Let_def)
  next
    case False
    then have "match_step portID mac clientID b (None, 0) = (None, 0)"
      by (auto simp: match_step_def binding_score_applies)
    then show ?thesis using Cons False
      by (auto simp: matchBinding_def contenders_def)
  qed
qed (simp add: matchBinding_def contenders_def)

lemma matchBinding_None:
  "matchBinding bs portID mac clientID = None \<longleftrightarrow>
     (\<forall>b \<in> set bs. applies portID mac clientID b \<longrightarrow> conditions b = 0)"
proof -
  have "matchBinding bs portID mac clientID = None \<longleftrightarrow> contenders portID mac clientID bs = []"
    by (auto simp: matchBinding_scan split: list.splits)
  then show ?thesis by (auto simp: contenders_def filter_empty_conv)
qed

lemma matchBinding_Some:
  assumes "matchBinding bs portID mac clientID = Some b"
  shows "b \<in> set bs" "applies portID mac clientID b" "0 < conditions b"
    "b' \<in> set bs \<Longrightarrow> applies portID mac clientID b' \<Longrightarrow> 0 < conditions b' \<Longrightarrow> \<not> outranks b' b"
proof -
  from assms obtain c cs where c: "contenders portID mac clientID bs = c # cs" and b: "b = rank.scan cs c"
    by (auto simp: matchBinding_scan split: list.splits)
  have "b \<in> set (contenders portID mac clientID bs)"
    using rank.scan_mem [of cs c] by (simp add: b c)
  then show "b \<in> set bs" "applies portID mac clientID b" "0 < conditions b"
    by (auto simp: contenders_def)
  assume "b' \<in> set bs" "applies portID mac clientID b'" "0 < conditions b'"
  then have "b' \<in> set (contenders portID mac clientID bs)"
    by (simp add: contenders_def)
  then show "\<not> outranks b' b"
    using rank.scan_best [of b' c cs] by (simp add: b c)
qed

section \<open>The lease table\<close>

text \<open>Every lease is filed under its own address.\<close>

definition leases_wf :: "(Addr \<Rightarrow> bool) \<Rightarrow> leaseTable \<Rightarrow> bool" where
  "leases_wf family t \<longleftrightarrow> mwf t \<and> (\<forall>ip l. mget t ip = Some l \<longrightarrow> l_IP l = ip \<and> family ip)"

lemma leases_wf_new [simp]: "leases_wf family newLeaseTable"
  by (simp add: leases_wf_def newLeaseTable_def)

lemma leases_wf_set [intro]: "leases_wf family t \<Longrightarrow> family (l_IP l) \<Longrightarrow> leases_wf family (lease_set l t)"
  by (auto simp: leases_wf_def lease_set_def mget_mput split: if_splits)

lemma leases_wf_release [intro]: "leases_wf family t \<Longrightarrow> leases_wf family (snd (lease_release ip t))"
  by (auto simp: leases_wf_def lease_release_def mget_mdel split: if_splits)

lemma leases_wf_keep [intro]: "leases_wf family t \<Longrightarrow> leases_wf family (mkeep P t)"
  by (auto simp: leases_wf_def mget_mkeep split: option.splits if_splits)

lemma leases_wf_sweep [intro]: "leases_wf family t \<Longrightarrow> leases_wf family (expireSweep now t)"
  by (auto simp: expireSweep_def)

lemma leases_wf_port [intro]: "leases_wf family t \<Longrightarrow> leases_wf family (releaseByPort p t)"
  by (auto simp: releaseByPort_def)

text \<open>The client a lease belongs to.\<close>

definition owner :: "Lease \<Rightarrow> string" where
  "owner l = clientKey (l_MAC l) (l_ClientID l)"

lemma inUse_alt: "inUse now t ip mac cid \<longleftrightarrow> (\<exists>l. lease_get now t ip = Some l \<and> owner l \<noteq> clientKey mac cid)"
  by (auto simp: inUse_def lease_get_def owner_def split: option.splits)

lemma byClient_Some:
  assumes "leases_wf family t" "byClient now t mac cid = Some l"
  shows "lease_get now t (l_IP l) = Some l" "owner l = clientKey mac cid" "family (l_IP l)"
proof -
  from assms(2) have "l \<in> snd ` set t" and o: "owner l = clientKey mac cid" and e: "\<not> now > l_Expiry l"
    by (auto simp: byClient_def find_Some_iff owner_def intro!: imageI)
  then obtain ip where "mget t ip = Some l"
    using assms(1) by (auto simp: leases_wf_def mem_mget_iff)
  with assms(1) have "mget t (l_IP l) = Some l" "family (l_IP l)" by (auto simp: leases_wf_def)
  with o e show "lease_get now t (l_IP l) = Some l" "owner l = clientKey mac cid" "family (l_IP l)"
    by (auto simp: lease_get_def)
qed

lemma byClient_None:
  assumes "mwf t" "byClient now t mac cid = None" "lease_get now t ip = Some l"
  shows "owner l \<noteq> clientKey mac cid"
proof -
  from assms(3) have "mget t ip = Some l" "\<not> now > l_Expiry l" by (auto simp: lease_get_def split: option.splits if_splits)
  with mget_Some_mem have "(ip, l) \<in> set t" by metis
  with assms(2) \<open>\<not> now > l_Expiry l\<close> show ?thesis
    by (auto simp: byClient_def find_None_iff owner_def)
qed

text \<open>The allocation loop is a search through the addresses of the range.\<close>

lemma allocate_find:
  "allocate now ip hi skip l t = (case find (\<lambda>a. \<not> skip a \<and> lease_get now t a = None) (pool ip hi) of
     None \<Rightarrow> (NoAddr, t) | Some a \<Rightarrow> (a, lease_set (l\<lparr>l_IP := a\<rparr>) t))"
proof (induction now ip hi skip l t rule: allocate.induct)
  case (1 now ip hi skip l t)
  then show ?case
    by (subst allocate.simps, subst pool.simps) (auto simp: lease_set_def)
qed


lemma pool_A4_iff: "a \<in> set (pool (A4 lo) (A4 hi)) \<longleftrightarrow> (\<exists>w. a = A4 w \<and> lo \<le> w \<and> w \<le> hi)"
proof
  assume "a \<in> set (pool (A4 lo) (A4 hi))"
  then have b: "A4 lo \<le> a" "a \<le> A4 hi" using pool_bounds by blast+
  then show "\<exists>w. a = A4 w \<and> lo \<le> w \<and> w \<le> hi"
    by (cases a) (auto simp: less_eq_Addr_def word_le_nat_alt)
qed (use pool_A4 in auto)

lemma find_sorted:
  assumes "find P xs = Some a" "sorted_wrt (<) (xs :: 'a :: linorder list)"
  shows "a \<in> set xs" "P a" "b \<in> set xs \<Longrightarrow> b < a \<Longrightarrow> \<not> P b"
proof -
  from assms(1) obtain i where i: "i < length xs" "P (xs ! i)" "a = xs ! i" "\<forall>j < i. \<not> P (xs ! j)"
    by (auto simp: find_Some_iff)
  then show "a \<in> set xs" "P a" by auto
  assume "b \<in> set xs" "b < a"
  then obtain j where j: "j < length xs" "b = xs ! j" by (auto simp: in_set_conv_nth)
  have "j < i"
  proof (rule ccontr)
    assume "\<not> j < i"
    then have "i = j \<or> i < j" by auto
    then have "a \<le> b" using i j sorted_wrt_nth_less [OF assms(2), of i j] by auto
    with \<open>b < a\<close> show False by auto
  qed
  with i j show "\<not> P b" by simp
qed

section \<open>Properties\<close>

text \<open>
  C14. The binding chosen for a client is one whose conditions all hold, no other such binding has
  more conditions, and among those with as many none has a higher order. No binding is
  chosen only when none with a condition applies.
\<close>

theorem match_binding_best:
  "case matchBinding bs portID mac clientID of
     None \<Rightarrow> \<forall>b \<in> set bs. applies portID mac clientID b \<longrightarrow> conditions b = 0
   | Some b \<Rightarrow> b \<in> set bs \<and> applies portID mac clientID b \<and> 0 < conditions b
       \<and> (\<forall>b' \<in> set bs. applies portID mac clientID b' \<longrightarrow>
            conditions b' < conditions b \<or> conditions b' = conditions b \<and> sb_Order b' \<le> sb_Order b)"
proof (cases "matchBinding bs portID mac clientID")
  case None
  then show ?thesis using matchBinding_None [of bs portID mac clientID] by simp
next
  case (Some b)
  have "conditions b' < conditions b \<or> conditions b' = conditions b \<and> sb_Order b' \<le> sb_Order b"
    if "b' \<in> set bs" "applies portID mac clientID b'" for b'
    using matchBinding_Some(3) [OF Some] matchBinding_Some(4) [OF Some that]
    by (auto simp: outranks_def)
  then show ?thesis using matchBinding_Some(1-3) [OF Some] by (simp add: Some)
qed

definition ex_binding :: "string \<Rightarrow> int \<Rightarrow> string option \<Rightarrow> string option \<Rightarrow> u32 \<Rightarrow> StaticBinding" where
  "ex_binding i k port mac ip =
     \<lparr>sb_ID = i, sb_Order = k, sb_PortID = port, sb_MAC = mac, sb_ClientID = None, sb_IP = A4 ip\<rparr>"

lemma EqualFold_example: "EqualFold ''AA'' ''aa''"
  by code_simp

theorem match_binding_best_witness:
  "matchBinding [ex_binding ''a'' 9 (Some ''p1'') None 5, ex_binding ''b'' 1 (Some ''p1'') (Some ''AA'') 6]
     ''p1'' ''aa'' [] = Some (ex_binding ''b'' 1 (Some ''p1'') (Some ''AA'') 6)
   \<and> conditions (ex_binding ''a'' 9 (Some ''p1'') None 5) < 2"
  using match_binding_best [of "[ex_binding ''a'' 9 (Some ''p1'') None 5, ex_binding ''b'' 1 (Some ''p1'') (Some ''AA'') 6]"
      "''p1''" "''aa''" "[]"]
  by (simp add: matchBinding_def match_step_def binding_score_def condition_def ex_binding_def EqualFold_example
      conditions_def)

text \<open>
  C15. Allocation from an IPv4 range ends and books the first address of the range, in address
  order, that is not skipped and has no active lease. It fails, leaving the table as it
  was, only when every address of the range is skipped or leased, and that includes ranges
  that end at the last address of the family.
\<close>

theorem allocate_first_free:
  assumes "allocate now (A4 lo) (A4 hi) skip l t = (a, t')"
  shows "(\<exists>w. a = A4 w \<and> lo \<le> w \<and> w \<le> hi \<and> \<not> skip a \<and> lease_get now t a = None
            \<and> t' = lease_set (l\<lparr>l_IP := a\<rparr>) t
            \<and> (\<forall>v. lo \<le> v \<and> v < w \<longrightarrow> skip (A4 v) \<or> lease_get now t (A4 v) \<noteq> None))
       \<or> a = NoAddr \<and> t' = t \<and> (\<forall>v. lo \<le> v \<and> v \<le> hi \<longrightarrow> skip (A4 v) \<or> lease_get now t (A4 v) \<noteq> None)"
proof (cases "find (\<lambda>a. \<not> skip a \<and> lease_get now t a = None) (pool (A4 lo) (A4 hi))")
  case None
  then have "skip (A4 v) \<or> lease_get now t (A4 v) \<noteq> None" if "lo \<le> v" "v \<le> hi" for v
    using pool_A4 [OF that] by (auto simp: find_None_iff)
  then show ?thesis using assms None by (auto simp: allocate_find)
next
  case (Some b)
  note f = find_sorted [OF Some pool_sorted]
  have ab: "a = b" and t': "t' = lease_set (l\<lparr>l_IP := b\<rparr>) t" using assms Some by (auto simp: allocate_find)
  obtain w where w: "b = A4 w" "lo \<le> w" "w \<le> hi" using f(1) by (auto simp: pool_A4_iff)
  have "skip (A4 v) \<or> lease_get now t (A4 v) \<noteq> None" if "lo \<le> v" "v < w" for v
  proof -
    have "v \<le> hi" using that w by simp
    then show ?thesis using f(3) [of "A4 v"] pool_A4 [OF that(1)] that w by auto
  qed
  with f(2) w ab t' show ?thesis by auto
qed

definition ex_lease :: Lease where
  "ex_lease = \<lparr>l_IP = NoAddr, l_MAC = ''aa'', l_ClientID = [], l_PortID = ''p1'', l_Expiry = 100, l_Static = False\<rparr>"

theorem allocate_first_free_witness:
  "(\<exists>t'. allocate 5 (A4 0xfffffffe) (A4 0xffffffff) (\<lambda>a. False) ex_lease
     [(A4 0xfffffffe, ex_lease), (A4 0xffffffff, ex_lease\<lparr>l_Expiry := 4\<rparr>)] = (A4 0xffffffff, t'))
   \<and> lease_get 5 [(A4 0xfffffffe, ex_lease)] (A4 0xfffffffe) \<noteq> None"
proof -
  let ?t = "[(A4 0xfffffffe, ex_lease), (A4 0xffffffff, ex_lease\<lparr>l_Expiry := 4\<rparr>)]"
  obtain a t' where r: "allocate 5 (A4 0xfffffffe) (A4 0xffffffff) (\<lambda>a. False) ex_lease ?t = (a, t')"
    by (cases "allocate 5 (A4 0xfffffffe) (A4 0xffffffff) (\<lambda>a. False) ex_lease ?t")
  have g: "lease_get 5 ?t (A4 0xffffffff) = None" "lease_get 5 ?t (A4 0xfffffffe) \<noteq> None"
    by (simp_all add: lease_get_def mget_def ex_lease_def)
  have "a = A4 0xffffffff"
    using allocate_first_free [OF r]
  proof (elim disjE exE conjE)
    fix w assume w: "a = A4 w" "0xfffffffe \<le> w" "w \<le> 0xffffffff" "lease_get 5 ?t a = None"
    then have "w \<noteq> 0xfffffffe" using g(2) by auto
    then have "0xfffffffe < w" using w(2) by simp
    then have "0xfffffffe + 1 \<le> w" by (rule inc_le)
    then have "w = 0xffffffff" using w(3) by simp
    then show ?thesis using w(1) by simp
  next
    assume n: "\<forall>v. 0xfffffffe \<le> v \<and> v \<le> 0xffffffff \<longrightarrow> False \<or> lease_get 5 ?t (A4 v) \<noteq> None"
    have "(0xfffffffe :: u32) \<le> 0xffffffff \<and> (0xffffffff :: u32) \<le> 0xffffffff" by simp
    then show ?thesis using n g(1) by blast
  qed
  with r show ?thesis by (auto simp: lease_get_def mget_def ex_lease_def)
qed

end
