(* ===== verification/Ingress.thy ===== *)
theory Ingress
  imports NetAddr
begin

text \<open>
  The dissection of the frames a gateway receives (\<^verbatim>\<open>internal/gateway/craft.go\<close>), and the
  configuration of its addresses. The accessors of gVisor's \<^verbatim>\<open>header\<close> package are the fields of the record
  \<^verbatim>\<open>header_pkg\<close>, an argument of the definitions that use it. Sizes and protocol numbers are those of
  the standards. Frames a gateway sends are kept as the arguments of the functions that craft them.
\<close>

section \<open>Sizes and numbers\<close>

definition EthernetMinimumSize :: nat where "EthernetMinimumSize = 14"
definition IPv4MinimumSize :: nat where "IPv4MinimumSize = 20"
definition IPv6MinimumSize :: nat where "IPv6MinimumSize = 40"
definition UDPMinimumSize :: nat where "UDPMinimumSize = 8"
definition ICMPv6MinimumSize :: nat where "ICMPv6MinimumSize = 8"
definition IPv4ProtocolNumber :: u16 where "IPv4ProtocolNumber = 0x0800"
definition IPv6ProtocolNumber :: u16 where "IPv6ProtocolNumber = 0x86dd"
definition UDPProtocolNumber :: byte where "UDPProtocolNumber = 17"
definition ICMPv6ProtocolNumber :: byte where "ICMPv6ProtocolNumber = 58"

lemmas header_consts = EthernetMinimumSize_def IPv4MinimumSize_def IPv6MinimumSize_def UDPMinimumSize_def
  ICMPv6MinimumSize_def IPv4ProtocolNumber_def IPv6ProtocolNumber_def UDPProtocolNumber_def ICMPv6ProtocolNumber_def

section \<open>Accessors of the header package\<close>

record header_pkg =
  eth_SourceAddress :: "byte list \<Rightarrow> byte list"
  eth_Type :: "byte list \<Rightarrow> u16"
  ip4_IsValid :: "byte list \<Rightarrow> nat \<Rightarrow> bool"
  ip4_TransportProtocol :: "byte list \<Rightarrow> byte"
  ip4_FragmentOffset :: "byte list \<Rightarrow> u16"
  ip4_More :: "byte list \<Rightarrow> bool"
  ip4_HeaderLength :: "byte list \<Rightarrow> nat"
  ip4_SourceAddress :: "byte list \<Rightarrow> byte list"
  ip4_DestinationAddress :: "byte list \<Rightarrow> byte list"
  ip6_TransportProtocol :: "byte list \<Rightarrow> byte"
  ip6_SourceAddress :: "byte list \<Rightarrow> byte list"
  ip6_DestinationAddress :: "byte list \<Rightarrow> byte list"
  udp_SourcePort :: "byte list \<Rightarrow> u16"
  udp_DestinationPort :: "byte list \<Rightarrow> u16"
  udp_Payload :: "byte list \<Rightarrow> byte list"
  icmp6_Type :: "byte list \<Rightarrow> byte"

text \<open>What the code relies on: a packet that passes the validity check holds its own header.\<close>

definition header_ok :: "header_pkg \<Rightarrow> bool" where
  "header_ok h \<longleftrightarrow> (\<forall>b n. ip4_IsValid h b n \<longrightarrow> ip4_HeaderLength h b \<le> n)"

section \<open>Ingress packets\<close>

record ingressPacket =
  srcMAC :: "byte list"
  isUDP4 :: bool
  isUDP6 :: bool
  isICMP6 :: bool
  srcIP :: net_IP
  dstIP :: net_IP
  dstPort :: u16
  srcPort :: u16
  icmpTyp :: byte
  payload :: "byte list"

definition no_packet :: ingressPacket where
  "no_packet = \<lparr>srcMAC = [], isUDP4 = False, isUDP6 = False, isICMP6 = False, srcIP = [], dstIP = [],
     dstPort = 0, srcPort = 0, icmpTyp = 0, payload = []\<rparr>"

text \<open>
  The outer option is a slice out of range, which panics; the inner one is the \<^verbatim>\<open>ok\<close> result.
\<close>

definition parse_ipv4 :: "header_pkg \<Rightarrow> byte list \<Rightarrow> ingressPacket \<Rightarrow> ingressPacket option option" where
  "parse_ipv4 h body p =
     (if length body < IPv4MinimumSize then Some None
      else if \<not> ip4_IsValid h body (length body) \<or> ip4_TransportProtocol h body \<noteq> UDPProtocolNumber then Some None
      else if ip4_FragmentOffset h body \<noteq> 0 \<or> ip4_More h body then Some None
      else if ip4_HeaderLength h body > length body then None
      else (let udp = drop (ip4_HeaderLength h body) body in
        if length udp < UDPMinimumSize then Some None
        else Some (Some (p\<lparr>isUDP4 := True, srcIP := ip4_SourceAddress h body, dstIP := ip4_DestinationAddress h body,
               srcPort := udp_SourcePort h udp, dstPort := udp_DestinationPort h udp,
               payload := udp_Payload h udp\<rparr>))))"

definition parse_ipv6 :: "header_pkg \<Rightarrow> byte list \<Rightarrow> ingressPacket \<Rightarrow> ingressPacket option" where
  "parse_ipv6 h body p =
     (if length body < IPv6MinimumSize then None
      else (let p = p\<lparr>srcIP := ip6_SourceAddress h body, dstIP := ip6_DestinationAddress h body\<rparr>;
                rest = drop IPv6MinimumSize body in
        if ip6_TransportProtocol h body = UDPProtocolNumber then
          if length rest < UDPMinimumSize then None
          else Some (p\<lparr>isUDP6 := True, srcPort := udp_SourcePort h rest, dstPort := udp_DestinationPort h rest,
                 payload := udp_Payload h rest\<rparr>)
        else if ip6_TransportProtocol h body = ICMPv6ProtocolNumber then
          if length rest < ICMPv6MinimumSize then None
          else Some (p\<lparr>isICMP6 := True, icmpTyp := icmp6_Type h rest, payload := rest\<rparr>)
        else None))"

definition parseIngress :: "header_pkg \<Rightarrow> byte list \<Rightarrow> ingressPacket option option" where
  "parseIngress h frame =
     (if length frame < EthernetMinimumSize then Some None
      else (let p = no_packet\<lparr>srcMAC := eth_SourceAddress h frame\<rparr>; body = drop EthernetMinimumSize frame in
        if eth_Type h frame = IPv4ProtocolNumber then parse_ipv4 h body p
        else if eth_Type h frame = IPv6ProtocolNumber then Some (parse_ipv6 h body p)
        else Some None))"

lemma parseIngress_total: "header_ok h \<Longrightarrow> parseIngress h frame \<noteq> None"
  by (auto simp: parseIngress_def parse_ipv4_def header_ok_def Let_def not_le [symmetric])

text \<open>A packet is of one kind.\<close>

lemma parseIngress_kind:
  assumes "parseIngress h frame = Some (Some p)"
  shows "(if isUDP4 p then 1 else 0) + (if isUDP6 p then 1 else 0) + (if isICMP6 p then 1 else 0) = (1 :: nat)"
  using assms
  by (auto simp: parseIngress_def parse_ipv4_def parse_ipv6_def Let_def no_packet_def split: if_splits)

section \<open>Addresses of a gateway\<close>

record V4Config =
  v4_Address :: net_IP
  v4_PrefixLen :: int

record V6Config =
  v6_Address :: net_IP
  v6_PrefixLen :: int
  v6_LinkLocal :: net_IP

text \<open>What the services read of their gateway. It does not change once the gateway is built.\<close>

record gw_addrs =
  gw_IPv4 :: "V4Config option"
  gw_IPv6 :: "V6Config option"
  gw_MAC :: "byte list"
  gw_LinkLocal :: net_IP

text \<open>\<^verbatim>\<open>Contains\<close> does not look at the bits past the prefix, so masking them changes nothing.\<close>

definition in_prefix :: "Addr \<times> int \<Rightarrow> Addr \<Rightarrow> bool" where
  "in_prefix p ip \<longleftrightarrow> 0 \<le> snd p \<and> PrefixContains (fst p) (nat (snd p)) ip"

definition gatewayNet4 :: "V4Config \<Rightarrow> Addr \<times> int" where
  "gatewayNet4 v4 = (AddrFromSlice (To4 (v4_Address v4)), v4_PrefixLen v4)"

definition gatewayNet6 :: "V6Config \<Rightarrow> Addr \<times> int" where
  "gatewayNet6 v6 = (AddrFromSlice (To16 (v6_Address v6)), v6_PrefixLen v6)"

section \<open>Printed forms\<close>

text \<open>\<^verbatim>\<open>encoding/hex\<close> and \<^verbatim>\<open>net.HardwareAddr.String\<close>.\<close>

definition hex_digit :: "nat \<Rightarrow> char" where
  "hex_digit n = ''0123456789abcdef'' ! n"

definition hex_byte :: "byte \<Rightarrow> string" where
  "hex_byte b = [hex_digit (unat b div 16), hex_digit (unat b mod 16)]"

definition EncodeToString :: "byte list \<Rightarrow> string" where
  "EncodeToString bs = concat (map hex_byte bs)"

fun HardwareAddr_String :: "byte list \<Rightarrow> string" where
  "HardwareAddr_String [] = []"
| "HardwareAddr_String [b] = hex_byte b"
| "HardwareAddr_String (b # bs) = hex_byte b @ '':'' @ HardwareAddr_String bs"

section \<open>Byte forms of addresses\<close>

fun AsSlice :: "Addr \<Rightarrow> net_IP" where
  "AsSlice NoAddr = []"
| "AsSlice (A4 w) = put_be 4 (unat w)"
| "AsSlice (A6 w z) = put_be 16 (unat w)"

text \<open>\<^verbatim>\<open>net.IP.IsUnspecified\<close>: the zero address in any of its forms.\<close>

definition IP_IsUnspecified :: "net_IP \<Rightarrow> bool" where
  "IP_IsUnspecified ip \<longleftrightarrow> To4 ip = [0, 0, 0, 0] \<or> ip = replicate 16 0"

definition IPv4bcast :: net_IP where
  "IPv4bcast = replicate 10 0 @ replicate 6 0xff"

definition broadcastMAC :: "byte list" where
  "broadcastMAC = replicate 6 0xff"

section \<open>Frames sent\<close>

text \<open>
  Source and destination hardware address, source and destination address, then the ports and
  the payload of a datagram, or the body and hop limit of an ICMPv6 message.
\<close>

datatype out_frame =
    OutUDP4 "byte list" "byte list" net_IP net_IP u16 u16 "byte list"
  | OutUDP6 "byte list" "byte list" net_IP net_IP u16 u16 "byte list"
  | OutICMP6 "byte list" "byte list" net_IP net_IP "byte list" byte

section \<open>Example accessors\<close>

definition ex_headers :: header_pkg where
  "ex_headers = \<lparr>eth_SourceAddress = (\<lambda>f. take 6 (drop 6 f)), eth_Type = (\<lambda>f. be16 (drop 12 f)),
     ip4_IsValid = (\<lambda>b n. 20 \<le> n), ip4_TransportProtocol = (\<lambda>b. b ! 9), ip4_FragmentOffset = (\<lambda>b. 0),
     ip4_More = (\<lambda>b. False), ip4_HeaderLength = (\<lambda>b. 20), ip4_SourceAddress = (\<lambda>b. take 4 (drop 12 b)),
     ip4_DestinationAddress = (\<lambda>b. take 4 (drop 16 b)), ip6_TransportProtocol = (\<lambda>b. b ! 6),
     ip6_SourceAddress = (\<lambda>b. take 16 (drop 8 b)), ip6_DestinationAddress = (\<lambda>b. take 16 (drop 24 b)),
     udp_SourcePort = (\<lambda>u. be16 u), udp_DestinationPort = (\<lambda>u. be16 (drop 2 u)), udp_Payload = (\<lambda>u. drop 8 u),
     icmp6_Type = (\<lambda>u. u ! 0)\<rparr>"

lemma ex_headers_ok: "header_ok ex_headers"
  by (simp add: header_ok_def ex_headers_def)

end
