(* ===== verification/DhcpServer.thy ===== *)
theory DhcpServer
  imports Bindings Ingress
begin

text \<open>
  What the DHCPv4 and the DHCPv6 server have in common: their configuration and its validation,
  the static bindings, and the choice of an address. The source writes it twice, for \<^verbatim>\<open>dhcp4.go\<close> and
  \<^verbatim>\<open>dhcp6.go\<close>; here the family is an argument, and the two theories of the servers
  instantiate it. An operation runs atomically, with one reading of the clock.
\<close>

section \<open>State\<close>

record DHCPConfig =
  Enabled :: bool
  PoolStart :: Addr
  PoolEnd :: Addr
  LeaseTime :: int
  DNS :: "net_IP list"

record dhcpServer =
  d_cfg :: DHCPConfig
  d_statics :: statics
  d_leases :: leaseTable

definition newDHCPServer :: dhcpServer where
  "newDHCPServer = \<lparr>d_cfg = \<lparr>Enabled = False, PoolStart = NoAddr, PoolEnd = NoAddr, LeaseTime = 0, DNS = []\<rparr>,
     d_statics = [], d_leases = newLeaseTable\<rparr>"

datatype dhcp_error = NoNetwork | PoolFamily | PoolOrder | PoolOutside | BindingError binding_error

text \<open>Durations are in nanoseconds.\<close>

definition defaultLeaseTime :: int where
  "defaultLeaseTime = 3600 * 10 ^ 9"

section \<open>Configuration\<close>

text \<open>
  The argument \<^term>\<open>net\<close> is the network of the gateway in the family of the server and its own address
  there, if it has one.
\<close>

definition set_config ::
  "bool \<Rightarrow> ((Addr \<times> int) \<times> net_IP) option \<Rightarrow> DHCPConfig \<Rightarrow> dhcpServer \<Rightarrow> dhcp_error + dhcpServer" where
  "set_config v6 net cfg s =
     (if Enabled cfg then
        (case net of
           None \<Rightarrow> Inl NoNetwork
         | Some (network, own) \<Rightarrow>
             if wrong_family v6 (PoolStart cfg) \<or> wrong_family v6 (PoolEnd cfg) then Inl PoolFamily
             else if PoolEnd cfg < PoolStart cfg then Inl PoolOrder
             else if \<not> in_prefix network (PoolStart cfg) \<or> \<not> in_prefix network (PoolEnd cfg) then Inl PoolOutside
             else Inr (s\<lparr>d_cfg := cfg\<lparr>LeaseTime := if LeaseTime cfg \<le> 0 then defaultLeaseTime else LeaseTime cfg,
                    DNS := if DNS cfg = [] then [own] else DNS cfg\<rparr>\<rparr>))
      else Inr (s\<lparr>d_cfg := cfg\<rparr>))"

section \<open>Static bindings\<close>

definition put_static :: "bool \<Rightarrow> StaticBinding \<Rightarrow> dhcpServer \<Rightarrow> dhcp_error + dhcpServer" where
  "put_static v6 b s = (case binding_validate b of
       Some e \<Rightarrow> Inl (BindingError e)
     | None \<Rightarrow>
         if wrong_family v6 (sb_IP b)
         then Inl (BindingError (if v6 then NeedsIPv6 (sb_ID b) else NeedsIPv4 (sb_ID b)))
         else Inr (s\<lparr>d_statics := mput (sb_ID b) b (d_statics s)\<rparr>))"

definition replace_statics :: "bool \<Rightarrow> StaticBinding list \<Rightarrow> dhcpServer \<Rightarrow> dhcp_error + dhcpServer" where
  "replace_statics v6 bs s = (case buildStaticSet bs v6 of
       Inl e \<Rightarrow> Inl (BindingError e)
     | Inr m \<Rightarrow> Inr (s\<lparr>d_statics := m\<rparr>))"

definition list_static :: "dhcpServer \<Rightarrow> StaticBinding list" where
  "list_static s = map snd (d_statics s)"

definition delete_static :: "string \<Rightarrow> dhcpServer \<Rightarrow> dhcp_error + dhcpServer" where
  "delete_static i s = (if mget (d_statics s) i = None then Inl (BindingError (BindingNotFound i))
     else Inr (s\<lparr>d_statics := mdel i (d_statics s)\<rparr>))"

section \<open>Leases\<close>

definition list_leases :: "time \<Rightarrow> dhcpServer \<Rightarrow> Lease list" where
  "list_leases now s = lease_snapshot now (d_leases s)"

definition release_lease :: "Addr \<Rightarrow> dhcpServer \<Rightarrow> dhcp_error + dhcpServer" where
  "release_lease ip s = (let (ok, t) = lease_release ip (d_leases s) in
     if ok then Inr (s\<lparr>d_leases := t\<rparr>) else Inl (BindingError (LeaseNotFound ip)))"

definition port_down :: "string \<Rightarrow> dhcpServer \<Rightarrow> dhcpServer" where
  "port_down p s = s\<lparr>d_leases := releaseByPort p (d_leases s)\<rparr>"

definition sweep :: "time \<Rightarrow> dhcpServer \<Rightarrow> dhcpServer" where
  "sweep now s = s\<lparr>d_leases := expireSweep now (d_leases s)\<rparr>"

section \<open>The choice of an address\<close>

definition staticIPs :: "statics \<Rightarrow> Addr \<Rightarrow> bool" where
  "staticIPs m ip \<longleftrightarrow> list_ex (\<lambda>b. sb_IP b = ip) (map snd m)"

definition new_lease :: "time \<Rightarrow> DHCPConfig \<Rightarrow> string \<Rightarrow> string \<Rightarrow> string \<Rightarrow> Lease" where
  "new_lease now cfg port mac cid = \<lparr>l_IP = NoAddr, l_MAC = mac, l_ClientID = cid, l_PortID = port,
     l_Expiry = now + LeaseTime cfg, l_Static = False\<rparr>"

text \<open>
  Static bindings first, then the lease the client has, then the address it asks for (\<^term>\<open>rip\<close>, which
  a DHCPv6 client never does), then the pool.
\<close>

definition select_ip :: "time \<Rightarrow> Addr \<Rightarrow> DHCPConfig \<Rightarrow> string \<Rightarrow> string \<Rightarrow> string \<Rightarrow> Addr \<Rightarrow> statics \<Rightarrow> leaseTable
    \<Rightarrow> Addr \<times> leaseTable" where
  "select_ip now gwIP cfg port mac cid rip m t =
     (let lease = new_lease now cfg port mac cid in
      case matchBinding (map snd m) port mac cid of
        Some b \<Rightarrow>
          if inUse now t (sb_IP b) mac cid then (NoAddr, t)
          else (sb_IP b, lease_set (lease\<lparr>l_IP := sb_IP b, l_Static := True\<rparr>) t)
      | None \<Rightarrow>
          (case Option.bind (byClient now t mac cid) (\<lambda>cur. if staticIPs m (l_IP cur) then None else Some cur) of
             Some cur \<Rightarrow> (l_IP cur, lease_set (lease\<lparr>l_IP := l_IP cur\<rparr>) t)
           | None \<Rightarrow>
               if IsValid rip \<and> \<not> PoolEnd cfg < rip \<and> \<not> rip < PoolStart cfg \<and> rip \<noteq> gwIP
                  \<and> \<not> staticIPs m rip \<and> \<not> inUse now t rip mac cid
               then (rip, lease_set (lease\<lparr>l_IP := rip\<rparr>) t)
               else allocate now (PoolStart cfg) (PoolEnd cfg) (\<lambda>ip. ip = gwIP \<or> staticIPs m ip) lease t))"

section \<open>Well-formed servers\<close>

definition family :: "bool \<Rightarrow> Addr \<Rightarrow> bool" where
  "family v6 a \<longleftrightarrow> \<not> wrong_family v6 a"

definition ip_version :: "bool \<Rightarrow> Addr \<Rightarrow> bool" where
  "ip_version v6 a \<longleftrightarrow> (if v6 then Is6 a else Is4 a)"

definition statics_wf :: "bool \<Rightarrow> statics \<Rightarrow> bool" where
  "statics_wf v6 m \<longleftrightarrow> mwf m \<and> (\<forall>i b. mget m i = Some b \<longrightarrow> sb_ID b = i \<and> binding_validate b = None \<and> family v6 (sb_IP b))"

definition config_wf :: "bool \<Rightarrow> ((Addr \<times> int) \<times> net_IP) option \<Rightarrow> DHCPConfig \<Rightarrow> bool" where
  "config_wf v6 net cfg \<longleftrightarrow> (Enabled cfg \<longrightarrow> (\<exists>network own. net = Some (network, own) \<and> family v6 (PoolStart cfg)
     \<and> family v6 (PoolEnd cfg) \<and> PoolStart cfg \<le> PoolEnd cfg \<and> in_prefix network (PoolStart cfg)
     \<and> in_prefix network (PoolEnd cfg) \<and> 0 < LeaseTime cfg \<and> DNS cfg \<noteq> []))"

definition server_wf :: "bool \<Rightarrow> ((Addr \<times> int) \<times> net_IP) option \<Rightarrow> dhcpServer \<Rightarrow> bool" where
  "server_wf v6 net s \<longleftrightarrow> config_wf v6 net (d_cfg s) \<and> statics_wf v6 (d_statics s)
     \<and> leases_wf (ip_version v6) (d_leases s)"


lemma family_version: "family v6 a \<Longrightarrow> ip_version v6 a"
  by (auto simp: family_def wrong_family_def ip_version_def)

lemma version_valid: "ip_version v6 a \<Longrightarrow> IsValid a"
  by (cases a) (auto simp: ip_version_def IsValid_def split: if_splits)

lemma version_between: "ip_version v6 a \<Longrightarrow> ip_version v6 c \<Longrightarrow> a \<le> b \<Longrightarrow> b \<le> c \<Longrightarrow> ip_version v6 b"
  by (cases a; cases b; cases c) (auto simp: ip_version_def less_eq_Addr_def split: if_splits)

lemma staticIPs_iff: "staticIPs m ip \<longleftrightarrow> (\<exists>b \<in> snd ` set m. sb_IP b = ip)"
  by (auto simp: staticIPs_def list_ex_iff)

lemma statics_wf_mem: "statics_wf v6 m \<Longrightarrow> b \<in> snd ` set m \<Longrightarrow> family v6 (sb_IP b) \<and> binding_validate b = None"
  by (auto simp: statics_wf_def mem_mget_iff)

section \<open>Configuration and bindings keep the state well formed\<close>

lemma server_wf_new [simp]: "server_wf v6 net newDHCPServer"
  by (simp add: server_wf_def newDHCPServer_def config_wf_def statics_wf_def)

lemma set_config_wf: "server_wf v6 net s \<Longrightarrow> set_config v6 net cfg s = Inr s' \<Longrightarrow> server_wf v6 net s'"
  by (auto simp: set_config_def server_wf_def config_wf_def family_def defaultLeaseTime_def
      split: if_splits option.splits)

lemma put_static_wf: "server_wf v6 net s \<Longrightarrow> put_static v6 b s = Inr s' \<Longrightarrow> server_wf v6 net s'"
  by (auto simp: put_static_def server_wf_def statics_wf_def family_def mget_mput split: if_splits option.splits)

lemma build_statics_wf:
  "statics_wf v6 m \<Longrightarrow> build_statics v6 bs m = Inr m' \<Longrightarrow> statics_wf v6 m'"
proof (induction bs arbitrary: m)
  case (Cons b bs)
  have "statics_wf v6 (mput (sb_ID b) b m)" if "binding_validate b = None" "\<not> wrong_family v6 (sb_IP b)"
    using Cons.prems(1) that by (auto simp: statics_wf_def family_def mget_mput)
  then show ?case using Cons by (auto split: if_splits option.splits)
qed simp

lemma replace_statics_wf: "server_wf v6 net s \<Longrightarrow> replace_statics v6 bs s = Inr s' \<Longrightarrow> server_wf v6 net s'"
proof -
  have "statics_wf v6 []" by (simp add: statics_wf_def)
  then show "server_wf v6 net s \<Longrightarrow> replace_statics v6 bs s = Inr s' \<Longrightarrow> server_wf v6 net s'"
    using build_statics_wf [of v6 "[]" bs]
    by (auto simp: replace_statics_def buildStaticSet_def server_wf_def split: sum.splits)
qed

lemma delete_static_wf: "server_wf v6 net s \<Longrightarrow> delete_static i s = Inr s' \<Longrightarrow> server_wf v6 net s'"
  by (auto simp: delete_static_def server_wf_def statics_wf_def mget_mdel split: if_splits)

lemma release_lease_wf: "server_wf v6 net s \<Longrightarrow> release_lease ip s = Inr s' \<Longrightarrow> server_wf v6 net s'"
  using leases_wf_release [of "ip_version v6" "d_leases s" ip]
  by (auto simp: release_lease_def server_wf_def split: if_splits prod.splits)

lemma port_down_wf: "server_wf v6 net s \<Longrightarrow> server_wf v6 net (port_down p s)"
  by (auto simp: port_down_def server_wf_def)

lemma sweep_wf: "server_wf v6 net s \<Longrightarrow> server_wf v6 net (sweep now s)"
  by (auto simp: sweep_def server_wf_def)

text \<open>An operation that fails leaves the server as it was.\<close>

definition keep_on_error :: "'s \<Rightarrow> 'e + 's \<Rightarrow> 's" where
  "keep_on_error s r = (case r of Inl _ \<Rightarrow> s | Inr s' \<Rightarrow> s')"

lemma keep_on_error_wf:
  "server_wf v6 net s \<Longrightarrow> (\<And>s'. r = Inr s' \<Longrightarrow> server_wf v6 net s') \<Longrightarrow> server_wf v6 net (keep_on_error s r)"
  by (cases r) (auto simp: keep_on_error_def)

lemmas server_keeps = keep_on_error_wf [OF _ set_config_wf] keep_on_error_wf [OF _ put_static_wf]
  keep_on_error_wf [OF _ replace_statics_wf] keep_on_error_wf [OF _ delete_static_wf]
  keep_on_error_wf [OF _ release_lease_wf] port_down_wf sweep_wf

section \<open>What the choice guarantees\<close>

text \<open>
  The three ways an address is chosen: for a static binding, as the lease the client has, or free
  in the pool.
\<close>

definition choice_ok ::
  "time \<Rightarrow> Addr \<Rightarrow> DHCPConfig \<Rightarrow> string \<Rightarrow> string \<Rightarrow> string \<Rightarrow> statics \<Rightarrow> leaseTable \<Rightarrow> Addr \<Rightarrow> bool" where
  "choice_ok now gwIP cfg port mac cid m t ip \<longleftrightarrow>
     (case matchBinding (map snd m) port mac cid of
        Some b \<Rightarrow> ip = sb_IP b
      | None \<Rightarrow> \<not> staticIPs m ip \<and>
          ((\<exists>l. lease_get now t ip = Some l \<and> owner l = clientKey mac cid)
           \<or> ip \<noteq> gwIP \<and> PoolStart cfg \<le> ip \<and> ip \<le> PoolEnd cfg))"

lemma allocate_cases:
  assumes "allocate now lo hi skip l t = (ip, t')"
  obtains "ip = NoAddr" "t' = t"
    | "IsValid ip" "lo \<le> ip" "ip \<le> hi" "\<not> skip ip" "lease_get now t ip = None" "t' = lease_set (l\<lparr>l_IP := ip\<rparr>) t"
proof (cases "find (\<lambda>a. \<not> skip a \<and> lease_get now t a = None) (pool lo hi)")
  case None
  then show ?thesis using assms that(1) by (simp add: allocate_find)
next
  case (Some c)
  note f = find_sorted [OF Some pool_sorted]
  have "ip = c" "t' = lease_set (l\<lparr>l_IP := c\<rparr>) t" using assms Some by (auto simp: allocate_find)
  then show ?thesis using f(2) pool_bounds [OF f(1)] by (intro that(2)) auto
qed

lemma select_ip_cases:
  assumes "statics_wf v6 m" "leases_wf (ip_version v6) t"
    and "select_ip now gwIP cfg port mac cid rip m t = (ip, t')"
  obtains "ip = NoAddr" "t' = t"
    | l where "IsValid ip" "\<not> inUse now t ip mac cid" "choice_ok now gwIP cfg port mac cid m t ip"
        "t' = lease_set l t" "l_IP l = ip" "owner l = clientKey mac cid" "l_Expiry l = now + LeaseTime cfg"
proof (cases "matchBinding (map snd m) port mac cid")
  case (Some b)
  have "b \<in> snd ` set m" using matchBinding_Some(1) [OF Some] by simp
  then have "IsValid (sb_IP b)"
    using statics_wf_mem [OF assms(1)] family_version version_valid by blast
  with Some assms(3) show ?thesis
    by (auto simp: select_ip_def choice_ok_def new_lease_def owner_def Let_def split: if_splits intro: that)
next
  case None
  let ?keep = "Option.bind (byClient now t mac cid) (\<lambda>cur. if staticIPs m (l_IP cur) then None else Some cur)"
  let ?skip = "\<lambda>ip. ip = gwIP \<or> staticIPs m ip"
  let ?l = "new_lease now cfg port mac cid"
  have new: "owner (?l\<lparr>l_IP := a\<rparr>) = clientKey mac cid" "l_Expiry (?l\<lparr>l_IP := a\<rparr>) = now + LeaseTime cfg" for a
    by (simp_all add: new_lease_def owner_def)
  show ?thesis
  proof (cases ?keep)
    case (Some cur)
    then have c: "byClient now t mac cid = Some cur" "\<not> staticIPs m (l_IP cur)"
      by (auto simp: bind_eq_Some_conv split: if_splits)
    note b = byClient_Some [OF assms(2) c(1)]
    have "ip = l_IP cur" "t' = lease_set (?l\<lparr>l_IP := l_IP cur\<rparr>) t"
      using assms(3) None Some by (auto simp: select_ip_def)
    then show ?thesis using b c(2) None version_valid new
      by (intro that(2) [of "?l\<lparr>l_IP := l_IP cur\<rparr>"]) (auto simp: inUse_alt choice_ok_def)
  next
    case keep: None
    show ?thesis
    proof (cases "IsValid rip \<and> \<not> PoolEnd cfg < rip \<and> \<not> rip < PoolStart cfg \<and> rip \<noteq> gwIP
        \<and> \<not> staticIPs m rip \<and> \<not> inUse now t rip mac cid")
      case True
      have "ip = rip" "t' = lease_set (?l\<lparr>l_IP := rip\<rparr>) t"
        using assms(3) None keep True by (auto simp: select_ip_def)
      then show ?thesis using True None new
        by (intro that(2) [of "?l\<lparr>l_IP := rip\<rparr>"]) (auto simp: choice_ok_def)
    next
      case False
      then have a: "allocate now (PoolStart cfg) (PoolEnd cfg) ?skip ?l t = (ip, t')"
        using assms(3) None keep by (auto simp: select_ip_def Let_def split: if_splits)
      show ?thesis
        by (rule allocate_cases [OF a], rule that(1), assumption+, rule that(2) [of "?l\<lparr>l_IP := ip\<rparr>"])
          (use None new in \<open>auto simp: inUse_alt choice_ok_def\<close>)
    qed
  qed
qed


lemma select_ip_wf:
  assumes "statics_wf v6 m" "leases_wf (ip_version v6) t" "ip_version v6 (PoolStart cfg)" "ip_version v6 (PoolEnd cfg)"
    and "select_ip now gwIP cfg port mac cid rip m t = (ip, t')"
  shows "leases_wf (ip_version v6) t'" "IsValid ip \<Longrightarrow> ip_version v6 ip"
proof -
  have fam: "ip_version v6 ip" if c: "choice_ok now gwIP cfg port mac cid m t ip"
  proof (cases "matchBinding (map snd m) port mac cid")
    case None
    then consider l where "lease_get now t ip = Some l" | "PoolStart cfg \<le> ip" "ip \<le> PoolEnd cfg"
      using c by (auto simp: choice_ok_def)
    then show ?thesis
    proof cases
      case 1
      then have "mget t ip = Some l" by (auto simp: lease_get_def split: option.splits if_splits)
      then show ?thesis using assms(2) by (auto simp: leases_wf_def)
    qed (use assms(3,4) version_between in blast)
  next
    case (Some b)
    then show ?thesis using c matchBinding_Some(1) [OF Some] statics_wf_mem [OF assms(1), of b] family_version
      by (auto simp: choice_ok_def)
  qed
  show "leases_wf (ip_version v6) t'" "IsValid ip \<Longrightarrow> ip_version v6 ip"
    using assms(2) fam by (rule_tac [!] select_ip_cases [OF assms(1,2,5)]) (auto simp: IsValid_def intro!: leases_wf_set)
qed

section \<open>Leases in the presence of other clients\<close>

text \<open>The leases a client still holds at a given time.\<close>

definition held :: "time \<Rightarrow> string \<Rightarrow> leaseTable \<Rightarrow> (Addr \<times> Lease) set" where
  "held T c t = {(ip, l). mget t ip = Some l \<and> owner l = c \<and> T \<le> l_Expiry l}"

lemma held_get: "(ip, l) \<in> held T c t \<longleftrightarrow> lease_get T t ip = Some l \<and> owner l = c"
  by (auto simp: held_def lease_get_def split: option.splits)

lemma held_set_other:
  assumes "owner l \<noteq> c" "\<not> inUse now t (l_IP l) mac cid" "owner l = clientKey mac cid" "now \<le> T"
  shows "held T c (lease_set l t) = held T c t"
proof -
  have "l' \<noteq> l \<and> T > l_Expiry l'" if "mget t (l_IP l) = Some l'" "owner l' = c" for l'
    using assms that by (auto simp: inUse_alt lease_get_def split: if_splits)
  then show ?thesis using assms(1) by (auto simp: held_def lease_set_def mget_mput not_le [symmetric] split: if_splits)
qed

lemma held_select_other:
  assumes "statics_wf v6 m" "leases_wf (ip_version v6) t" "select_ip now gwIP cfg port mac cid rip m t = (ip, t')"
    and "clientKey mac cid \<noteq> c" "now \<le> T"
  shows "held T c t' = held T c t"
  by (rule select_ip_cases [OF assms(1-3)]) (use assms(4,5) held_set_other in auto)

lemma held_sweep: "mwf t \<Longrightarrow> now \<le> T \<Longrightarrow> held T c (expireSweep now t) = held T c t"
  by (auto simp: held_def expireSweep_def mget_mkeep split: option.splits if_splits)

text \<open>
  A service of many clients: steps that are harmless to a client leave the leases it holds and the
  configuration alone, and so does any sequence of them.
\<close>

locale lease_keeper =
  fixes step :: "'m \<Rightarrow> dhcpServer \<Rightarrow> dhcpServer"
    and harmless :: "string \<Rightarrow> time \<Rightarrow> 'm \<Rightarrow> bool"
    and wf :: "dhcpServer \<Rightarrow> bool"
  assumes held_step: "wf s \<Longrightarrow> harmless c T m \<Longrightarrow> held T c (d_leases (step m s)) = held T c (d_leases s)"
    and step_cfg: "wf s \<Longrightarrow> harmless c T m \<Longrightarrow> d_cfg (step m s) = d_cfg s"
    and step_statics: "wf s \<Longrightarrow> harmless c T m \<Longrightarrow> d_statics (step m s) = d_statics s"
    and step_wf: "wf s \<Longrightarrow> wf (step m s)"
begin

lemma held_run:
  assumes "wf s" "list_all (harmless c T) ms"
  shows "held T c (d_leases (fold step ms s)) = held T c (d_leases s)"
    "d_cfg (fold step ms s) = d_cfg s" "d_statics (fold step ms s) = d_statics s" "wf (fold step ms s)"
  using assms by (induction ms arbitrary: s) (simp_all add: held_step step_wf, (blast intro: step_cfg step_statics)+)

end

text \<open>
  A client that holds one address is given it again.
\<close>

lemma select_ip_again:
  assumes "statics_wf v6 m" "leases_wf (ip_version v6) t" "choice_ok now gwIP cfg port mac cid m t0 ip"
    and "(ip, l) \<in> held T (clientKey mac cid) t" "\<And>ip' l'. (ip', l') \<in> held T (clientKey mac cid) t \<Longrightarrow> ip' = ip"
  shows "fst (select_ip T gwIP cfg port mac cid rip m t) = ip"
proof (cases "matchBinding (map snd m) port mac cid")
  case (Some b)
  then have "ip = sb_IP b" using assms(3) by (simp add: choice_ok_def)
  moreover have "\<not> inUse T t ip mac cid" using assms(4) by (auto simp: held_get inUse_alt)
  ultimately show ?thesis using Some by (simp add: select_ip_def)
next
  case None
  have s: "\<not> staticIPs m ip" using assms(3) None by (simp add: choice_ok_def)
  obtain cur where cur: "byClient T t mac cid = Some cur"
    using byClient_None [of t T mac cid ip l] assms(2,4) by (auto simp: held_get leases_wf_def)
  then have "(l_IP cur, cur) \<in> held T (clientKey mac cid) t"
    using byClient_Some [OF assms(2)] by (simp add: held_get)
  then have "l_IP cur = ip" by (rule assms(5))
  then show ?thesis using None cur s by (simp add: select_ip_def)
qed


section \<open>A server as a service\<close>

text \<open>
  The operations of a server; what a frame does is left to the handler of its protocol.
\<close>

datatype dhcp_op = OpSetConfig DHCPConfig | OpPutStatic StaticBinding | OpReplaceStatics "StaticBinding list"
  | OpDeleteStatic string | OpReleaseLease Addr | OpPortDown string | OpSweep time | OpFrame time string "byte list"

type_synonym frame_handler = "time \<Rightarrow> string \<Rightarrow> byte list \<Rightarrow> dhcpServer \<Rightarrow> (bool \<times> out_frame list \<times> dhcpServer) option"

fun exec_op :: "bool \<Rightarrow> ((Addr \<times> int) \<times> net_IP) option \<Rightarrow> frame_handler \<Rightarrow> dhcp_op \<Rightarrow> dhcpServer \<Rightarrow> dhcpServer option" where
  "exec_op v6 net handle (OpSetConfig cfg) s = Some (keep_on_error s (set_config v6 net cfg s))"
| "exec_op v6 net handle (OpPutStatic b) s = Some (keep_on_error s (put_static v6 b s))"
| "exec_op v6 net handle (OpReplaceStatics bs) s = Some (keep_on_error s (replace_statics v6 bs s))"
| "exec_op v6 net handle (OpDeleteStatic i) s = Some (keep_on_error s (delete_static i s))"
| "exec_op v6 net handle (OpReleaseLease ip) s = Some (keep_on_error s (release_lease ip s))"
| "exec_op v6 net handle (OpPortDown p) s = Some (port_down p s)"
| "exec_op v6 net handle (OpSweep now) s = Some (sweep now s)"
| "exec_op v6 net handle (OpFrame now port frame) s = map_option (\<lambda>(_, _, s'). s') (handle now port frame s)"

definition run_op :: "bool \<Rightarrow> ((Addr \<times> int) \<times> net_IP) option \<Rightarrow> frame_handler \<Rightarrow> dhcp_op \<Rightarrow> dhcpServer option \<Rightarrow> dhcpServer option" where
  "run_op v6 net handle op so = Option.bind so (exec_op v6 net handle op)"

definition step_op :: "bool \<Rightarrow> ((Addr \<times> int) \<times> net_IP) option \<Rightarrow> frame_handler \<Rightarrow> dhcp_op \<Rightarrow> dhcpServer \<Rightarrow> dhcpServer" where
  "step_op v6 net handle op s = (case exec_op v6 net handle op s of None \<Rightarrow> s | Some s' \<Rightarrow> s')"

text \<open>Sweeps, and frames that spare a client, up to a given time.\<close>

fun harmless_op :: "(string \<Rightarrow> byte list \<Rightarrow> bool) \<Rightarrow> string \<Rightarrow> time \<Rightarrow> dhcp_op \<Rightarrow> bool" where
  "harmless_op spares c T (OpSweep now) \<longleftrightarrow> now \<le> T"
| "harmless_op spares c T (OpFrame now port frame) \<longleftrightarrow> now \<le> T \<and> spares c frame"
| "harmless_op spares c T _ \<longleftrightarrow> False"

text \<open>
  What a protocol promises: its handler keeps the server well formed, touches neither configuration nor
  bindings, leaves the leases of the clients a frame spares alone, and does not panic when the
  headers are read soundly.
\<close>

locale dhcp_service =
  fixes v6 :: bool and net :: "((Addr \<times> int) \<times> net_IP) option" and handle :: frame_handler
    and spares :: "string \<Rightarrow> byte list \<Rightarrow> bool" and sound :: bool
  assumes handle_wf: "server_wf v6 net s \<Longrightarrow> handle now port frame s = Some (b, out, s') \<Longrightarrow> server_wf v6 net s'"
    and handle_cfg: "server_wf v6 net s \<Longrightarrow> handle now port frame s = Some (b, out, s') \<Longrightarrow> d_cfg s' = d_cfg s"
    and handle_statics: "server_wf v6 net s \<Longrightarrow> handle now port frame s = Some (b, out, s') \<Longrightarrow> d_statics s' = d_statics s"
    and handle_held: "server_wf v6 net s \<Longrightarrow> handle now port frame s = Some (b, out, s') \<Longrightarrow> spares c frame \<Longrightarrow> now \<le> T
      \<Longrightarrow> held T c (d_leases s') = held T c (d_leases s)"
    and handle_total: "sound \<Longrightarrow> server_wf v6 net s \<Longrightarrow> handle now port frame s \<noteq> None"
begin

lemma exec_wf:
  assumes "server_wf v6 net s" "exec_op v6 net handle op s = Some s'"
  shows "server_wf v6 net s'"
proof (cases op)
  case (OpFrame now port frame)
  then obtain b out where "handle now port frame s = Some (b, out, s')" using assms(2) by auto
  then show ?thesis by (rule handle_wf [OF assms(1)])
qed (use assms in \<open>auto intro: server_keeps\<close>)

lemma exec_total: "sound \<Longrightarrow> server_wf v6 net s \<Longrightarrow> \<exists>s'. exec_op v6 net handle op s = Some s'"
  using handle_total [of s] by (cases op) (simp_all, meson)

lemma run_wf: "sound \<Longrightarrow> server_wf v6 net s \<Longrightarrow> \<exists>s'. fold (run_op v6 net handle) ops (Some s) = Some s' \<and> server_wf v6 net s'"
proof (induction ops arbitrary: s)
  case (Cons op ops)
  obtain s1 where s1: "exec_op v6 net handle op s = Some s1" using exec_total [OF Cons.prems] by blast
  have "server_wf v6 net s1" by (rule exec_wf [OF Cons.prems(2) s1])
  then show ?case using Cons.IH [OF Cons.prems(1)] s1 by (simp add: run_op_def)
qed simp

lemma run_step: "sound \<Longrightarrow> server_wf v6 net s \<Longrightarrow> fold (run_op v6 net handle) ops (Some s) = Some (fold (step_op v6 net handle) ops s)"
proof (induction ops arbitrary: s)
  case (Cons op ops)
  obtain s1 where s1: "exec_op v6 net handle op s = Some s1" using exec_total [OF Cons.prems] by blast
  have "server_wf v6 net s1" by (rule exec_wf [OF Cons.prems(2) s1])
  then show ?case using Cons.IH [OF Cons.prems(1)] s1 by (simp add: run_op_def step_op_def)
qed simp

lemma step_keeps:
  assumes wf: "server_wf v6 net s" and hl: "harmless_op spares c T op"
  shows "held T c (d_leases (step_op v6 net handle op s)) = held T c (d_leases s)"
    "d_cfg (step_op v6 net handle op s) = d_cfg s" "d_statics (step_op v6 net handle op s) = d_statics s"
proof -
  have mw: "mwf (d_leases s)" using wf by (simp add: server_wf_def leases_wf_def)
  have "held T c (d_leases (step_op v6 net handle op s)) = held T c (d_leases s) \<and>
    d_cfg (step_op v6 net handle op s) = d_cfg s \<and> d_statics (step_op v6 net handle op s) = d_statics s"
  proof (cases op)
    case (OpSweep now)
    then show ?thesis using hl mw by (simp add: step_op_def sweep_def held_sweep)
  next
    case (OpFrame now port frame)
    show ?thesis
    proof (cases "handle now port frame s")
      case (Some r)
      obtain b out s' where r: "r = (b, out, s')" by (cases r)
      have "step_op v6 net handle op s = s'" using Some r OpFrame by (simp add: step_op_def)
      then show ?thesis using handle_held [OF wf Some [unfolded r]] handle_cfg [OF wf Some [unfolded r]]
        handle_statics [OF wf Some [unfolded r]] hl OpFrame by simp
    qed (simp add: OpFrame step_op_def)
  qed (use hl in simp_all)
  then show "held T c (d_leases (step_op v6 net handle op s)) = held T c (d_leases s)"
    "d_cfg (step_op v6 net handle op s) = d_cfg s" "d_statics (step_op v6 net handle op s) = d_statics s"
    by simp_all
qed

end

sublocale dhcp_service \<subseteq> keeper: lease_keeper "step_op v6 net handle" "harmless_op spares" "server_wf v6 net"
proof unfold_locales
  fix s op assume wf: "server_wf v6 net s"
  show "server_wf v6 net (step_op v6 net handle op s)"
    using wf exec_wf [OF wf] by (auto simp: step_op_def split: option.splits)
qed (fact step_keeps)+

end
