(* ===== verification/Dhcp4.thy ===== *)
theory Dhcp4
  imports DhcpServer "HOL-Library.Signed_Division"
begin

text \<open>
  The DHCPv4 server of a gateway (\<^verbatim>\<open>internal/gateway/dhcp4.go\<close>). Decoding and encoding of messages is
  third-party code, \<^verbatim>\<open>insomniacslk/dhcp\<close>: the record \<^verbatim>\<open>DHCPv4\<close> has the fields of a decoded message that
  the server reads or writes, and \<^verbatim>\<open>dhcpv4_pkg\<close> the functions it calls. A handler returns the frames it
  sends and the new state, or nothing when it panics.
\<close>

section \<open>Messages\<close>

datatype MessageType = Discover | Offer | Request | Decline | Ack | Nak | Release | OtherType byte

record DHCPv4 =
  m4_OpCode :: byte
  m4_MessageType :: MessageType
  m4_ClientHWAddr :: "byte list"
  m4_ClientIPAddr :: net_IP
  m4_YourIPAddr :: net_IP
  m4_RequestedIPAddress :: net_IP
  m4_ClientIdentifier :: "byte list"
  m4_IsBroadcast :: bool

datatype modifier = WithMessageType MessageType | WithServerIP net_IP | OptServerIdentifier net_IP
  | OptSubnetMask "byte list" | OptRouter net_IP | OptDNS "net_IP list" | OptIPAddressLeaseTime int
  | OptRenewTimeValue int | OptRebindingTimeValue int

record dhcpv4_pkg =
  dhcp4_FromBytes :: "byte list \<Rightarrow> DHCPv4 option"
  dhcp4_NewReplyFromRequest :: "DHCPv4 \<Rightarrow> modifier list \<Rightarrow> DHCPv4 option"
  dhcp4_ToBytes :: "DHCPv4 \<Rightarrow> byte list"

definition OpcodeBootRequest :: byte where "OpcodeBootRequest = 1"

definition dhcp4ServerPort :: u16 where "dhcp4ServerPort = 67"
definition dhcp4ClientPort :: u16 where "dhcp4ClientPort = 68"

section \<open>Configuration and bindings\<close>

definition net4 :: "gw_addrs \<Rightarrow> ((Addr \<times> int) \<times> net_IP) option" where
  "net4 gw = map_option (\<lambda>v4. (gatewayNet4 v4, v4_Address v4)) (gw_IPv4 gw)"

definition SetConfig4 :: "gw_addrs \<Rightarrow> DHCPConfig \<Rightarrow> dhcpServer \<Rightarrow> dhcp_error + dhcpServer" where
  "SetConfig4 gw cfg s = set_config False (net4 gw) cfg s"

definition Config4 :: "dhcpServer \<Rightarrow> DHCPConfig" where
  "Config4 s = d_cfg s"

definition PutStatic4 :: "StaticBinding \<Rightarrow> dhcpServer \<Rightarrow> dhcp_error + dhcpServer" where
  "PutStatic4 b s = put_static False b s"

definition ReplaceStatics4 :: "StaticBinding list \<Rightarrow> dhcpServer \<Rightarrow> dhcp_error + dhcpServer" where
  "ReplaceStatics4 bs s = replace_statics False bs s"

definition ListStatic4 :: "dhcpServer \<Rightarrow> StaticBinding list" where
  "ListStatic4 s = list_static s"

definition DeleteStatic4 :: "string \<Rightarrow> dhcpServer \<Rightarrow> dhcp_error + dhcpServer" where
  "DeleteStatic4 i s = delete_static i s"

definition Leases4 :: "time \<Rightarrow> dhcpServer \<Rightarrow> Lease list" where
  "Leases4 now s = list_leases now s"

definition ReleaseLease4 :: "Addr \<Rightarrow> dhcpServer \<Rightarrow> dhcp_error + dhcpServer" where
  "ReleaseLease4 ip s = release_lease ip s"

definition PortDown4 :: "string \<Rightarrow> dhcpServer \<Rightarrow> dhcpServer" where
  "PortDown4 p s = port_down p s"

definition sweepLoop4 :: "time \<Rightarrow> dhcpServer \<Rightarrow> dhcpServer" where
  "sweepLoop4 now s = sweep now s"

section \<open>Replies\<close>

definition clientIDOf :: "DHCPv4 \<Rightarrow> string" where
  "clientIDOf req = EncodeToString (m4_ClientIdentifier req)"

definition clientMAC :: "DHCPv4 \<Rightarrow> string" where
  "clientMAC req = HardwareAddr_String (m4_ClientHWAddr req)"

text \<open>The caller's \<^verbatim>\<open>s.gw.IPv4()\<close> is dereferenced: without an IPv4 side the server panics.\<close>

definition selectIP :: "gw_addrs \<Rightarrow> time \<Rightarrow> string \<Rightarrow> DHCPConfig \<Rightarrow> DHCPv4 \<Rightarrow> dhcpServer
    \<Rightarrow> (Addr \<times> dhcpServer) option" where
  "selectIP gw now port cfg req s = (case gw_IPv4 gw of
       None \<Rightarrow> None
     | Some v4 \<Rightarrow>
         (let (ip, t) = select_ip now (AddrFromSlice (To4 (v4_Address v4))) cfg port (clientMAC req) (clientIDOf req)
                (AddrFromSlice (To4 (m4_RequestedIPAddress req))) (d_statics s) (d_leases s)
          in Some (ip, s\<lparr>d_leases := t\<rparr>)))"

definition CIDRMask32 :: "int \<Rightarrow> byte list" where
  "CIDRMask32 ones = (if ones < 0 \<or> ones > 32 then [] else put_be 4 (2 ^ 32 - 2 ^ (32 - nat ones)))"

text \<open>Multiplication of durations wraps at 64 bits.\<close>

definition dur_mul :: "int \<Rightarrow> int \<Rightarrow> int" where
  "dur_mul a b = sint (word_of_int (a * b) :: 64 word)"

definition transmit4 :: "dhcpv4_pkg \<Rightarrow> gw_addrs \<Rightarrow> V4Config \<Rightarrow> DHCPv4 \<Rightarrow> DHCPv4 \<Rightarrow> Addr \<Rightarrow> out_frame" where
  "transmit4 pkg gw v4 req reply yiaddr =
     (let (dstMAC, dstIP) =
        (if m4_ClientIPAddr req \<noteq> [] \<and> \<not> IP_IsUnspecified (m4_ClientIPAddr req)
         then (m4_ClientHWAddr req, m4_ClientIPAddr req)
         else if m4_MessageType reply = Nak \<or> m4_IsBroadcast req \<or> \<not> IsValid yiaddr
         then (broadcastMAC, IPv4bcast)
         else (m4_ClientHWAddr req, AsSlice yiaddr))
      in OutUDP4 (gw_MAC gw) dstMAC (v4_Address v4) dstIP dhcp4ServerPort dhcp4ClientPort (dhcp4_ToBytes pkg reply))"

definition reply_options :: "V4Config \<Rightarrow> DHCPConfig \<Rightarrow> MessageType \<Rightarrow> modifier list" where
  "reply_options v4 cfg typ = [WithMessageType typ, WithServerIP (v4_Address v4), OptServerIdentifier (v4_Address v4),
     OptSubnetMask (CIDRMask32 (v4_PrefixLen v4)), OptRouter (v4_Address v4), OptDNS (DNS cfg),
     OptIPAddressLeaseTime (LeaseTime cfg), OptRenewTimeValue (LeaseTime cfg sdiv 2),
     OptRebindingTimeValue (dur_mul (LeaseTime cfg) 7 sdiv 8)]"

definition sendReply :: "dhcpv4_pkg \<Rightarrow> gw_addrs \<Rightarrow> DHCPConfig \<Rightarrow> DHCPv4 \<Rightarrow> MessageType \<Rightarrow> Addr \<Rightarrow> out_frame list option" where
  "sendReply pkg gw cfg req typ ip = (case gw_IPv4 gw of
       None \<Rightarrow> None
     | Some v4 \<Rightarrow> Some (case dhcp4_NewReplyFromRequest pkg req (reply_options v4 cfg typ) of
           None \<Rightarrow> []
         | Some reply \<Rightarrow> [transmit4 pkg gw v4 req (reply\<lparr>m4_YourIPAddr := AsSlice ip\<rparr>) ip]))"

definition sendNak :: "dhcpv4_pkg \<Rightarrow> gw_addrs \<Rightarrow> DHCPv4 \<Rightarrow> out_frame list option" where
  "sendNak pkg gw req = (case gw_IPv4 gw of
       None \<Rightarrow> None
     | Some v4 \<Rightarrow> Some (case dhcp4_NewReplyFromRequest pkg req [WithMessageType Nak, OptServerIdentifier (v4_Address v4)] of
           None \<Rightarrow> []
         | Some reply \<Rightarrow> [transmit4 pkg gw v4 req reply NoAddr]))"

definition replyToDiscover :: "dhcpv4_pkg \<Rightarrow> gw_addrs \<Rightarrow> time \<Rightarrow> string \<Rightarrow> DHCPConfig \<Rightarrow> DHCPv4 \<Rightarrow> dhcpServer
    \<Rightarrow> (out_frame list \<times> dhcpServer) option" where
  "replyToDiscover pkg gw now port cfg req s = (case selectIP gw now port cfg req s of
       None \<Rightarrow> None
     | Some (ip, s') \<Rightarrow>
         if \<not> IsValid ip then Some ([], s')
         else map_option (\<lambda>out. (out, s')) (sendReply pkg gw cfg req Offer ip))"

text \<open>The address a request is for: option 50, or the client's own address.\<close>

definition usable_addr :: "Addr \<Rightarrow> bool" where
  "usable_addr a \<longleftrightarrow> IsValid a \<and> \<not> IsUnspecified a"

definition wanted :: "DHCPv4 \<Rightarrow> Addr" where
  "wanted req = (let rip = AddrFromSlice (To4 (m4_RequestedIPAddress req));
                     cip = AddrFromSlice (To4 (m4_ClientIPAddr req))
     in if usable_addr rip then rip else if usable_addr cip then cip else NoAddr)"

definition replyToRequest :: "dhcpv4_pkg \<Rightarrow> gw_addrs \<Rightarrow> time \<Rightarrow> string \<Rightarrow> DHCPConfig \<Rightarrow> DHCPv4 \<Rightarrow> dhcpServer
    \<Rightarrow> (out_frame list \<times> dhcpServer) option" where
  "replyToRequest pkg gw now port cfg req s =
     (if \<not> IsValid (wanted req) then map_option (\<lambda>out. (out, s)) (sendNak pkg gw req)
      else (case selectIP gw now port cfg req s of
          None \<Rightarrow> None
        | Some (got, s') \<Rightarrow> map_option (\<lambda>out. (out, s'))
            (if \<not> IsValid got \<or> got \<noteq> wanted req then sendNak pkg gw req
             else sendReply pkg gw cfg req Ack got)))"

section \<open>Frames\<close>

definition declined_lease :: "time \<Rightarrow> DHCPConfig \<Rightarrow> Addr \<Rightarrow> Lease" where
  "declined_lease now cfg ip = \<lparr>l_IP = ip, l_MAC = ''declined'', l_ClientID = [], l_PortID = [],
     l_Expiry = now + LeaseTime cfg, l_Static = False\<rparr>"

definition handle_msg4 :: "dhcpv4_pkg \<Rightarrow> gw_addrs \<Rightarrow> time \<Rightarrow> string \<Rightarrow> DHCPv4 \<Rightarrow> dhcpServer
    \<Rightarrow> (out_frame list \<times> dhcpServer) option" where
  "handle_msg4 pkg gw now port req s = (let cfg = d_cfg s in case m4_MessageType req of
       Discover \<Rightarrow> replyToDiscover pkg gw now port cfg req s
     | Request \<Rightarrow> replyToRequest pkg gw now port cfg req s
     | Release \<Rightarrow> (let ip = AddrFromSlice (To4 (m4_ClientIPAddr req)) in
         Some ([], if IsValid ip then s\<lparr>d_leases := snd (lease_release ip (d_leases s))\<rparr> else s))
     | Decline \<Rightarrow> (let ip = AddrFromSlice (To4 (m4_RequestedIPAddress req)) in
         Some ([], if IsValid ip then s\<lparr>d_leases := lease_set (declined_lease now cfg ip) (d_leases s)\<rparr> else s))
     | _ \<Rightarrow> Some ([], s))"

text \<open>The first result is whether the frame is consumed.\<close>

definition handleFrame4 :: "header_pkg \<Rightarrow> dhcpv4_pkg \<Rightarrow> gw_addrs \<Rightarrow> time \<Rightarrow> string \<Rightarrow> byte list \<Rightarrow> dhcpServer
    \<Rightarrow> (bool \<times> out_frame list \<times> dhcpServer) option" where
  "handleFrame4 h pkg gw now port frame s = (case parseIngress h frame of
       None \<Rightarrow> None
     | Some None \<Rightarrow> Some (False, [], s)
     | Some (Some pkt) \<Rightarrow>
         if \<not> isUDP4 pkt \<or> dstPort pkt \<noteq> dhcp4ServerPort then Some (False, [], s)
         else if \<not> Enabled (d_cfg s) then Some (True, [], s)
         else (case dhcp4_FromBytes pkg (payload pkt) of
             None \<Rightarrow> Some (True, [], s)
           | Some req \<Rightarrow>
               if m4_OpCode req \<noteq> OpcodeBootRequest then Some (True, [], s)
               else map_option (\<lambda>r. (True, r)) (handle_msg4 pkg gw now port req s)))"


section \<open>Runs of the server\<close>

definition run4 :: "header_pkg \<Rightarrow> dhcpv4_pkg \<Rightarrow> gw_addrs \<Rightarrow> dhcp_op \<Rightarrow> dhcpServer option \<Rightarrow> dhcpServer option" where
  "run4 h pkg gw = run_op False (net4 gw) (handleFrame4 h pkg gw)"

definition step4 :: "header_pkg \<Rightarrow> dhcpv4_pkg \<Rightarrow> gw_addrs \<Rightarrow> dhcp_op \<Rightarrow> dhcpServer \<Rightarrow> dhcpServer" where
  "step4 h pkg gw = step_op False (net4 gw) (handleFrame4 h pkg gw)"

text \<open>The message a frame carries to the server, if it does.\<close>

definition decode4 :: "header_pkg \<Rightarrow> dhcpv4_pkg \<Rightarrow> byte list \<Rightarrow> DHCPv4 option" where
  "decode4 h pkg frame = (case parseIngress h frame of
       Some (Some pkt) \<Rightarrow> if isUDP4 pkt \<and> dstPort pkt = dhcp4ServerPort then
           (case dhcp4_FromBytes pkg (payload pkt) of
              Some req \<Rightarrow> if m4_OpCode req = OpcodeBootRequest then Some req else None
            | None \<Rightarrow> None) else None
     | _ \<Rightarrow> None)"

definition client4 :: "DHCPv4 \<Rightarrow> string" where
  "client4 req = clientKey (clientMAC req) (clientIDOf req)"

lemma handleFrame4_decode:
  assumes "Enabled (d_cfg s)" "decode4 h pkg frame = Some req"
  shows "handleFrame4 h pkg gw now port frame s = map_option (\<lambda>r. (True, r)) (handle_msg4 pkg gw now port req s)"
  using assms by (auto simp: decode4_def handleFrame4_def split: option.splits if_splits)

lemma handleFrame4_cases:
  assumes "handleFrame4 h pkg gw now port frame s = Some (c, out, s')"
  obtains "s' = s" "out = []"
    | req where "decode4 h pkg frame = Some req" "Enabled (d_cfg s)" "c" "handle_msg4 pkg gw now port req s = Some (out, s')"
  using assms by (auto simp: decode4_def handleFrame4_def split: option.splits if_splits)

section \<open>Selection\<close>

lemma selectIP_total: "server_wf False (net4 gw) s \<Longrightarrow> Enabled (d_cfg s) \<Longrightarrow> \<exists>v4. gw_IPv4 gw = Some v4"
  by (auto simp: server_wf_def config_wf_def net4_def)

lemma selectIP_select:
  assumes "selectIP gw now port cfg req s = Some (ip, s')"
  obtains v4 t where "gw_IPv4 gw = Some v4" "s' = s\<lparr>d_leases := t\<rparr>"
    "select_ip now (AddrFromSlice (To4 (v4_Address v4))) cfg port (clientMAC req) (clientIDOf req)
       (AddrFromSlice (To4 (m4_RequestedIPAddress req))) (d_statics s) (d_leases s) = (ip, t)"
  using assms by (auto simp: selectIP_def split: option.splits prod.splits)

lemma selectIP_keeps:
  assumes "server_wf False (net4 gw) s" "Enabled (d_cfg s)" "selectIP gw now port (d_cfg s) req s = Some (ip, s')"
  shows "server_wf False (net4 gw) s'" "d_cfg s' = d_cfg s" "d_statics s' = d_statics s"
    "client4 req \<noteq> c \<Longrightarrow> now \<le> T \<Longrightarrow> held T c (d_leases s') = held T c (d_leases s)"
proof -
  obtain v4 t where "gw_IPv4 gw = Some v4" and s': "s' = s\<lparr>d_leases := t\<rparr>" and
    sel: "select_ip now (AddrFromSlice (To4 (v4_Address v4))) (d_cfg s) port (clientMAC req) (clientIDOf req)
       (AddrFromSlice (To4 (m4_RequestedIPAddress req))) (d_statics s) (d_leases s) = (ip, t)"
    by (rule selectIP_select [OF assms(3)])
  have wf: "statics_wf False (d_statics s)" "leases_wf (ip_version False) (d_leases s)"
    "ip_version False (PoolStart (d_cfg s))" "ip_version False (PoolEnd (d_cfg s))"
    using assms(1,2) family_version by (auto simp: server_wf_def config_wf_def)
  show "server_wf False (net4 gw) s'" "d_cfg s' = d_cfg s" "d_statics s' = d_statics s"
    using assms(1) select_ip_wf(1) [OF wf sel] by (simp_all add: s' server_wf_def)
  show "held T c (d_leases s') = held T c (d_leases s)" if "client4 req \<noteq> c" "now \<le> T"
    using held_select_other [OF wf(1,2) sel] that by (simp add: s' client4_def)
qed

section \<open>Every message keeps the state well formed\<close>

lemma send_total:
  assumes "gw_IPv4 gw = Some v4"
  shows "\<exists>out. sendReply pkg gw cfg req typ ip = Some out" "\<exists>out. sendNak pkg gw req = Some out"
  using assms by (auto simp: sendReply_def sendNak_def)

definition result_ok :: "gw_addrs \<Rightarrow> DHCPv4 \<Rightarrow> time \<Rightarrow> dhcpServer \<Rightarrow> (out_frame list \<times> dhcpServer) option \<Rightarrow> bool" where
  "result_ok gw req now s r \<longleftrightarrow> (\<exists>out s'. r = Some (out, s') \<and> server_wf False (net4 gw) s' \<and> d_cfg s' = d_cfg s
     \<and> d_statics s' = d_statics s \<and> (m4_MessageType req \<in> {Release, Decline} \<or>
       (\<forall>c T. client4 req \<noteq> c \<and> now \<le> T \<longrightarrow> held T c (d_leases s') = held T c (d_leases s))))"

lemma result_ok_select:
  assumes "server_wf False (net4 gw) s" "Enabled (d_cfg s)" "selectIP gw now port (d_cfg s) req s = Some (ip, s')"
  shows "result_ok gw req now s (Some (out, s'))"
  using selectIP_keeps [OF assms] by (auto simp: result_ok_def)

lemma discover_ok:
  assumes "server_wf False (net4 gw) s" "Enabled (d_cfg s)"
  shows "result_ok gw req now s (replyToDiscover pkg gw now port (d_cfg s) req s)"
proof -
  obtain v4 where v4: "gw_IPv4 gw = Some v4" using selectIP_total [OF assms] by blast
  obtain ip s' where sel: "selectIP gw now port (d_cfg s) req s = Some (ip, s')"
    by (cases "selectIP gw now port (d_cfg s) req s") (auto simp: selectIP_def v4 split: prod.splits)
  obtain out where out: "sendReply pkg gw (d_cfg s) req Offer ip = Some out" using send_total(1) [OF v4] by blast
  show ?thesis using result_ok_select [OF assms sel]
    by (simp add: replyToDiscover_def sel out)
qed

lemma request_ok:
  assumes "server_wf False (net4 gw) s" "Enabled (d_cfg s)"
  shows "result_ok gw req now s (replyToRequest pkg gw now port (d_cfg s) req s)"
proof -
  obtain v4 where v4: "gw_IPv4 gw = Some v4" using selectIP_total [OF assms] by blast
  obtain ip s' where sel: "selectIP gw now port (d_cfg s) req s = Some (ip, s')"
    by (cases "selectIP gw now port (d_cfg s) req s") (auto simp: selectIP_def v4 split: prod.splits)
  obtain out nak where out: "sendReply pkg gw (d_cfg s) req Ack (wanted req) = Some out" "sendNak pkg gw req = Some nak"
    using send_total [OF v4] by blast
  have "result_ok gw req now s (Some (nak, s))" using assms(1) by (simp add: result_ok_def)
  then show ?thesis using result_ok_select [OF assms sel]
    by (auto simp: replyToRequest_def sel out)
qed

lemma AddrFromSlice_To4: "IsValid (AddrFromSlice (To4 b)) \<Longrightarrow> ip_version False (AddrFromSlice (To4 b))"
  by (auto simp: AddrFromSlice_def To4_def ip_version_def IsValid_def split: if_splits)

lemma handle_msg4_ok:
  assumes "server_wf False (net4 gw) s" "Enabled (d_cfg s)"
  shows "result_ok gw req now s (handle_msg4 pkg gw now port req s)"
proof (cases "m4_MessageType req")
  case Release
  then show ?thesis using assms(1)
    by (auto simp: handle_msg4_def result_ok_def server_wf_def Let_def)
next
  case Decline
  then show ?thesis using assms(1)
    by (auto simp: handle_msg4_def result_ok_def server_wf_def Let_def declined_lease_def AddrFromSlice_To4)
next
  case Discover
  then show ?thesis using discover_ok [OF assms] by (simp add: handle_msg4_def)
next
  case Request
  then show ?thesis using request_ok [OF assms] by (simp add: handle_msg4_def)
qed (use assms(1) in \<open>auto simp: handle_msg4_def result_ok_def\<close>)


text \<open>
  Frames that hurt no other client: they carry no release and no decline, since the server
  does not check who sends those.
\<close>

definition spares4 :: "header_pkg \<Rightarrow> dhcpv4_pkg \<Rightarrow> string \<Rightarrow> byte list \<Rightarrow> bool" where
  "spares4 h pkg c frame \<longleftrightarrow> (case decode4 h pkg frame of
     None \<Rightarrow> True | Some req \<Rightarrow> m4_MessageType req \<notin> {Release, Decline} \<and> client4 req \<noteq> c)"

lemma frame4_result:
  assumes "server_wf False (net4 gw) s" "handleFrame4 h pkg gw now port frame s = Some (b, out, s')"
  obtains "s' = s" | req where "decode4 h pkg frame = Some req" "result_ok gw req now s (Some (out, s'))"
  by (rule handleFrame4_cases [OF assms(2)]) (metis that handle_msg4_ok [OF assms(1)])+

interpretation dhcp4: dhcp_service False "net4 gw" "handleFrame4 h pkg gw" "spares4 h pkg" "header_ok h"
  for h pkg gw
proof unfold_locales
  fix s now port frame
  assume wf: "server_wf False (net4 gw) s"
  show "handleFrame4 h pkg gw now port frame s \<noteq> None" if "header_ok h"
    using parseIngress_total [OF that, of frame] handle_msg4_ok [OF wf]
    by (fastforce simp: handleFrame4_def result_ok_def split: option.splits)
  fix b out s' assume r: "handleFrame4 h pkg gw now port frame s = Some (b, out, s')"
  show "server_wf False (net4 gw) s'"
    by (rule frame4_result [OF wf r]) (use wf in \<open>simp_all add: result_ok_def\<close>)
  show "d_cfg s' = d_cfg s" "d_statics s' = d_statics s"
    by (rule frame4_result [OF wf r]; simp add: result_ok_def)+
  show "held T c (d_leases s') = held T c (d_leases s)" if h: "spares4 h pkg c frame" "now \<le> T" for c T
    by (rule frame4_result [OF wf r]) (use h in \<open>auto simp: result_ok_def spares4_def\<close>)
qed

text \<open>What an answered client gets, and what it leaves alone.\<close>

lemma selectIP_exclusive:
  assumes "server_wf False (net4 gw) s" "gw_IPv4 gw = Some v4"
    and "selectIP gw now port (d_cfg s) req s = Some (ip, s')" "IsValid ip"
  shows "\<not> inUse now (d_leases s) ip (clientMAC req) (clientIDOf req)"
    and "choice_ok now (AddrFromSlice (To4 (v4_Address v4))) (d_cfg s) port (clientMAC req) (clientIDOf req)
           (d_statics s) (d_leases s) ip"
    and "\<exists>l. mget (d_leases s') ip = Some l \<and> owner l = client4 req \<and> l_Expiry l = now + LeaseTime (d_cfg s)"
    and "a \<noteq> ip \<Longrightarrow> mget (d_leases s') a = mget (d_leases s) a"
proof -
  obtain v t where s': "gw_IPv4 gw = Some v" "s' = s\<lparr>d_leases := t\<rparr>" and
    sel: "select_ip now (AddrFromSlice (To4 (v4_Address v))) (d_cfg s) port (clientMAC req) (clientIDOf req)
       (AddrFromSlice (To4 (m4_RequestedIPAddress req))) (d_statics s) (d_leases s) = (ip, t)"
    by (rule selectIP_select [OF assms(3)])
  have wf: "statics_wf False (d_statics s)" "leases_wf (ip_version False) (d_leases s)"
    using assms(1) by (simp_all add: server_wf_def)
  obtain l where l: "\<not> inUse now (d_leases s) ip (clientMAC req) (clientIDOf req)"
    "choice_ok now (AddrFromSlice (To4 (v4_Address v))) (d_cfg s) port (clientMAC req) (clientIDOf req)
           (d_statics s) (d_leases s) ip"
    "t = lease_set l (d_leases s)" "l_IP l = ip" "owner l = clientKey (clientMAC req) (clientIDOf req)"
    "l_Expiry l = now + LeaseTime (d_cfg s)"
    by (rule select_ip_cases [OF wf sel]) (use assms(4) in \<open>auto simp: IsValid_def\<close>)
  show "\<not> inUse now (d_leases s) ip (clientMAC req) (clientIDOf req)" by (rule l(1))
  show "choice_ok now (AddrFromSlice (To4 (v4_Address v4))) (d_cfg s) port (clientMAC req) (clientIDOf req)
           (d_statics s) (d_leases s) ip" using l(2) assms(2) s'(1) by simp
  show "\<exists>l. mget (d_leases s') ip = Some l \<and> owner l = client4 req \<and> l_Expiry l = now + LeaseTime (d_cfg s)"
    using l by (simp add: s' lease_set_def mget_mput client4_def)
  show "a \<noteq> ip \<Longrightarrow> mget (d_leases s') a = mget (d_leases s) a"
    using l by (simp add: s' lease_set_def mget_mput)
qed

section \<open>Properties\<close>

text \<open>
  C12. Whatever configuration calls and frames a DHCPv4 server has seen, in any order, it has not
  panicked and is well formed: an enabled configuration has a non-empty IPv4 pool inside the
  network of the gateway, a positive lease time and a name server; static bindings are filed under their identifier,
  have a condition and an IPv4 address; leases are filed under their own IPv4 address.
\<close>

theorem reachable_dhcp4_wf:
  assumes "header_ok h"
  shows "\<exists>s. fold (run4 h pkg gw) ops (Some newDHCPServer) = Some s \<and> server_wf False (net4 gw) s"
  unfolding run4_def by (rule dhcp4.run_wf [OF assms server_wf_new])

text \<open>
  C10. An address the DHCPv4 server gives a client is not leased to another client, is booked for the client
  until the lease time has passed, and is its static binding's, its own, or a free address of
  the pool that is neither the gateway's nor reserved by a binding. Every other lease stays as it was.
\<close>

theorem dhcp4_exclusive:
  assumes "server_wf False (net4 gw) s" "gw_IPv4 gw = Some v4"
    and "selectIP gw now port (d_cfg s) req s = Some (ip, s')" "IsValid ip"
  shows "\<not> inUse now (d_leases s) ip (clientMAC req) (clientIDOf req)
    \<and> choice_ok now (AddrFromSlice (To4 (v4_Address v4))) (d_cfg s) port (clientMAC req) (clientIDOf req)
           (d_statics s) (d_leases s) ip
    \<and> (\<exists>l. mget (d_leases s') ip = Some l \<and> owner l = client4 req \<and> l_Expiry l = now + LeaseTime (d_cfg s))
    \<and> (\<forall>a. a = ip \<or> mget (d_leases s') a = mget (d_leases s) a)"
  using selectIP_exclusive [OF assms] by blast




section \<open>An example server\<close>

text \<open>A toy encoding: the kind of message, the client and the last byte of the address asked for.\<close>

definition ex_msg :: "MessageType \<Rightarrow> byte \<Rightarrow> byte \<Rightarrow> DHCPv4" where
  "ex_msg typ c k = \<lparr>m4_OpCode = 1, m4_MessageType = typ, m4_ClientHWAddr = [c], m4_ClientIPAddr = [0, 0, 0, 0],
     m4_YourIPAddr = [0, 0, 0, 0], m4_RequestedIPAddress = (if k = 0 then [] else [10, 0, 0, k]),
     m4_ClientIdentifier = [], m4_IsBroadcast = False\<rparr>"

definition ex_dhcp4 :: dhcpv4_pkg where
  "ex_dhcp4 = \<lparr>dhcp4_FromBytes = (\<lambda>b. if length b = 3 then
       Some (ex_msg (if b ! 0 = 1 then Discover else if b ! 0 = 3 then Request else OtherType (b ! 0)) (b ! 1) (b ! 2))
       else None),
     dhcp4_NewReplyFromRequest = (\<lambda>req mods. Some req), dhcp4_ToBytes = (\<lambda>m. m4_YourIPAddr m)\<rparr>"

definition ex_gw :: gw_addrs where
  "ex_gw = \<lparr>gw_IPv4 = Some \<lparr>v4_Address = [10, 0, 0, 1], v4_PrefixLen = 24\<rparr>, gw_IPv6 = None, gw_MAC = [2, 0, 0, 0, 0, 1],
     gw_LinkLocal = []\<rparr>"

definition ex_cfg :: DHCPConfig where
  "ex_cfg = \<lparr>Enabled = True, PoolStart = A4 0x0a000001, PoolEnd = A4 0x0a000009, LeaseTime = 100, DNS = [[10, 0, 0, 1]]\<rparr>"

definition ex_server :: dhcpServer where
  "ex_server = newDHCPServer\<lparr>d_cfg := ex_cfg\<rparr>"

lemma ex_gw_addr: "AddrFromSlice (To4 [10, 0, 0, 1]) = A4 0x0a000001" "AddrFromSlice (To4 []) = NoAddr"
    "AddrFromSlice (To4 [10, 0, 0, 2]) = A4 0x0a000002"
  by (simp_all add: AddrFromSlice_def To4_def be32_def get_be_def)

lemma ex_server_wf: "server_wf False (net4 ex_gw) ex_server" "Enabled (d_cfg ex_server)"
proof -
  have "SetConfig4 ex_gw ex_cfg newDHCPServer = Inr ex_server"
    by (simp add: SetConfig4_def set_config_def net4_def ex_gw_def ex_cfg_def ex_server_def gatewayNet4_def ex_gw_addr
        wrong_family_def in_prefix_def PrefixContains_def)
  then show "server_wf False (net4 ex_gw) ex_server"
    unfolding SetConfig4_def by (rule set_config_wf [OF server_wf_new])
qed (simp add: ex_server_def ex_cfg_def)

theorem reachable_dhcp4_wf_witness:
  "\<exists>s. fold (run4 ex_headers ex_dhcp4 ex_gw) [OpSetConfig ex_cfg, OpSweep 5] (Some newDHCPServer) = Some s
     \<and> server_wf False (net4 ex_gw) s"
  by (rule reachable_dhcp4_wf [OF ex_headers_ok])


definition ex_frame :: "byte list \<Rightarrow> byte list" where
  "ex_frame msg = replicate 12 0 @ [8, 0] @ replicate 9 0 @ [17] @ replicate 10 0 @ [0, 68, 0, 67, 0, 0, 0, 0] @ msg"

lemma ex_decode: "decode4 ex_headers ex_dhcp4 (ex_frame msg) = dhcp4_FromBytes ex_dhcp4 msg"
proof -
  let ?udp = "[0, 68, 0, 67, 0, 0, 0, 0] @ msg"
  let ?body = "replicate 9 0 @ [17] @ replicate 10 0 @ ?udp"
  have e: "eth_Type ex_headers (ex_frame msg) = IPv4ProtocolNumber" "drop 14 (ex_frame msg) = ?body" "\<not> length (ex_frame msg) < 14"
    by (simp_all add: ex_headers_def ex_frame_def be16_def get_be_def IPv4ProtocolNumber_def)
  have b: "drop 20 ?body = ?udp" "?body ! 9 = 17"
    by (simp_all add: nth_append)
  have u: "be16 (drop 2 ?udp) = 67" "drop 8 ?udp = msg"
    by (simp_all add: be16_def get_be_def)
  have "parse_ipv4 ex_headers ?body p = Some (Some (p\<lparr>isUDP4 := True, srcIP := take 4 (drop 12 ?body),
      dstIP := take 4 (drop 16 ?body), srcPort := be16 ?udp, dstPort := 67, payload := msg\<rparr>))" for p
    using b u by (simp add: parse_ipv4_def ex_headers_def header_consts Let_def del: append_Cons append_assoc)
  then show ?thesis
    using e by (auto simp: decode4_def parseIngress_def Let_def EthernetMinimumSize_def dhcp4ServerPort_def ex_dhcp4_def ex_msg_def
        OpcodeBootRequest_def)
qed

lemma ex_clients: "client4 (ex_msg Discover 8 0) \<noteq> client4 (ex_msg Discover 7 0)"
    "client4 (ex_msg Request 7 2) = client4 (ex_msg Discover 7 0)"
  by code_simp+

lemma ex_select:
  "\<exists>s'. selectIP ex_gw 5 ''p1'' ex_cfg (ex_msg Discover 7 0) ex_server = Some (A4 0x0a000002, s')"
proof -
  let ?skip = "\<lambda>ip. ip = A4 0x0a000001 \<or> staticIPs [] ip"
  have a: "fst (allocate 5 (A4 0x0a000001) (A4 0x0a000009) ?skip l []) = A4 0x0a000002" for l
    by (simp add: allocate.simps [of _ "A4 0x0a000001"] allocate.simps [of _ "A4 0x0a000002"] IsValid_def
        staticIPs_def lease_get_def)
  have "fst (select_ip 5 (A4 0x0a000001) ex_cfg ''p1'' mac cid NoAddr [] []) = A4 0x0a000002" for mac cid
    using a by (simp add: select_ip_def matchBinding_def byClient_def IsValid_def Let_def) (simp add: ex_cfg_def)
  then obtain t where "select_ip 5 (A4 0x0a000001) ex_cfg ''p1'' (clientMAC (ex_msg Discover 7 0))
      (clientIDOf (ex_msg Discover 7 0)) NoAddr [] [] = (A4 0x0a000002, t)"
    by (metis prod.collapse)
  then show ?thesis
    by (simp add: selectIP_def ex_gw_def ex_gw_addr ex_server_def newDHCPServer_def newLeaseTable_def)
      (simp add: ex_msg_def ex_gw_addr)
qed


lemma ex_server_fields: "d_cfg ex_server = ex_cfg" "d_leases ex_server = []" "LeaseTime ex_cfg = 100"
  by (simp_all add: ex_server_def newDHCPServer_def newLeaseTable_def ex_cfg_def)

theorem dhcp4_exclusive_witness:
  "\<exists>s' l. selectIP ex_gw 5 ''p1'' ex_cfg (ex_msg Discover 7 0) ex_server = Some (A4 0x0a000002, s')
     \<and> mget (d_leases s') (A4 0x0a000002) = Some l \<and> owner l = client4 (ex_msg Discover 7 0) \<and> l_Expiry l = 105"
proof -
  obtain s' where sel: "selectIP ex_gw 5 ''p1'' ex_cfg (ex_msg Discover 7 0) ex_server = Some (A4 0x0a000002, s')"
    using ex_select by blast
  have v4: "gw_IPv4 ex_gw = Some \<lparr>v4_Address = [10, 0, 0, 1], v4_PrefixLen = 24\<rparr>" by (simp add: ex_gw_def)
  show ?thesis
    using dhcp4_exclusive [OF ex_server_wf(1) v4, of 5 "''p1''" "ex_msg Discover 7 0" "A4 0x0a000002" s'] sel
    by (auto simp: ex_server_fields IsValid_def)
qed


end
