(* ===== verification/Dhcp6.thy ===== *)
theory Dhcp6
  imports DhcpServer "HOL-Library.Signed_Division"
begin

text \<open>
  The stateful DHCPv6 server of a gateway (\<^verbatim>\<open>internal/gateway/dhcp6.go\<close>), over the bindings and leases it
  shares with DHCPv4. Messages are decoded and built by \<^verbatim>\<open>insomniacslk/dhcp\<close>: the record
  \<^verbatim>\<open>DHCPv6\<close> has what the server reads or writes of a message (its type, the bytes of the client
  identifier and the identity association, when present), and \<^verbatim>\<open>dhcpv6_pkg\<close> the functions it calls.
\<close>

section \<open>Messages\<close>

datatype MessageType6 = Solicit | Advertise | Request6 | Renew | Rebind | Reply | Release6 | InformationRequest
  | OtherType6 byte

record DHCPv6 =
  m6_MessageType :: MessageType6
  m6_ClientID :: "byte list option"
  m6_IANA :: "byte list option"

datatype decoded6 = PlainMessage DHCPv6 | RelayMessage

datatype DUID = DUIDLL "byte list"

datatype modifier6 = WithServerID DUID | WithDNS "net_IP list" | WithIANA net_IP int int

record dhcpv6_pkg =
  dhcp6_FromBytes :: "byte list \<Rightarrow> decoded6 option"
  dhcp6_NewAdvertiseFromSolicit :: "DHCPv6 \<Rightarrow> modifier6 list \<Rightarrow> DHCPv6 option"
  dhcp6_NewReplyFromMessage :: "DHCPv6 \<Rightarrow> modifier6 list \<Rightarrow> DHCPv6 option"
  dhcp6_ToBytes :: "DHCPv6 \<Rightarrow> byte list"

definition dhcp6ServerPort :: u16 where "dhcp6ServerPort = 547"
definition dhcp6ClientPort :: u16 where "dhcp6ClientPort = 546"

section \<open>Configuration and bindings\<close>

definition net6 :: "gw_addrs \<Rightarrow> ((Addr \<times> int) \<times> net_IP) option" where
  "net6 gw = map_option (\<lambda>v6. (gatewayNet6 v6, v6_Address v6)) (gw_IPv6 gw)"

definition SetConfig6 :: "gw_addrs \<Rightarrow> DHCPConfig \<Rightarrow> dhcpServer \<Rightarrow> dhcp_error + dhcpServer" where
  "SetConfig6 gw cfg s = set_config True (net6 gw) cfg s"

definition Config6 :: "dhcpServer \<Rightarrow> DHCPConfig" where
  "Config6 s = d_cfg s"

definition PutStatic6 :: "StaticBinding \<Rightarrow> dhcpServer \<Rightarrow> dhcp_error + dhcpServer" where
  "PutStatic6 b s = put_static True b s"

definition ReplaceStatics6 :: "StaticBinding list \<Rightarrow> dhcpServer \<Rightarrow> dhcp_error + dhcpServer" where
  "ReplaceStatics6 bs s = replace_statics True bs s"

definition ListStatic6 :: "dhcpServer \<Rightarrow> StaticBinding list" where
  "ListStatic6 s = list_static s"

definition DeleteStatic6 :: "string \<Rightarrow> dhcpServer \<Rightarrow> dhcp_error + dhcpServer" where
  "DeleteStatic6 i s = delete_static i s"

definition Leases6 :: "time \<Rightarrow> dhcpServer \<Rightarrow> Lease list" where
  "Leases6 now s = list_leases now s"

definition ReleaseLease6 :: "Addr \<Rightarrow> dhcpServer \<Rightarrow> dhcp_error + dhcpServer" where
  "ReleaseLease6 ip s = release_lease ip s"

definition PortDown6 :: "string \<Rightarrow> dhcpServer \<Rightarrow> dhcpServer" where
  "PortDown6 p s = port_down p s"

definition sweepLoop6 :: "time \<Rightarrow> dhcpServer \<Rightarrow> dhcpServer" where
  "sweepLoop6 now s = sweep now s"

definition serverDUID :: "gw_addrs \<Rightarrow> DUID" where
  "serverDUID gw = DUIDLL (gw_MAC gw)"

section \<open>Replies\<close>

text \<open>As for DHCPv4, a gateway without an IPv6 side panics here.\<close>

definition selectIP6 :: "gw_addrs \<Rightarrow> time \<Rightarrow> string \<Rightarrow> DHCPConfig \<Rightarrow> byte list \<Rightarrow> string \<Rightarrow> dhcpServer
    \<Rightarrow> (Addr \<times> dhcpServer) option" where
  "selectIP6 gw now port cfg smac duidHex s = (case gw_IPv6 gw of
       None \<Rightarrow> None
     | Some v6 \<Rightarrow>
         (let (ip, t) = select_ip now (AddrFromSlice (To16 (v6_Address v6))) cfg port (HardwareAddr_String smac) duidHex
                NoAddr (d_statics s) (d_leases s)
          in Some (ip, s\<lparr>d_leases := t\<rparr>)))"

definition transmit6 :: "dhcpv6_pkg \<Rightarrow> gw_addrs \<Rightarrow> ingressPacket \<Rightarrow> DHCPv6 \<Rightarrow> out_frame" where
  "transmit6 pkg gw pkt reply = OutUDP6 (gw_MAC gw) (srcMAC pkt) (gw_LinkLocal gw) (srcIP pkt)
     dhcp6ServerPort dhcp6ClientPort (dhcp6_ToBytes pkg reply)"

text \<open>The identity association of the reply keeps the identifier the client chose.\<close>

definition keep_iaid :: "byte list option \<Rightarrow> DHCPv6 \<Rightarrow> DHCPv6" where
  "keep_iaid iana reply = (case iana of
       None \<Rightarrow> reply
     | Some iaid \<Rightarrow> if m6_IANA reply = None then reply else reply\<lparr>m6_IANA := Some iaid\<rparr>)"

definition replyAddress :: "dhcpv6_pkg \<Rightarrow> gw_addrs \<Rightarrow> time \<Rightarrow> string \<Rightarrow> DHCPConfig \<Rightarrow> ingressPacket \<Rightarrow> DHCPv6 \<Rightarrow> byte list
    \<Rightarrow> bool \<Rightarrow> dhcpServer \<Rightarrow> (out_frame list \<times> dhcpServer) option" where
  "replyAddress pkg gw now port cfg pkt msg duid adv s =
     (case selectIP6 gw now port cfg (srcMAC pkt) (EncodeToString duid) s of
        None \<Rightarrow> None
      | Some (ip, s') \<Rightarrow>
          if \<not> IsValid ip then Some ([], s')
          else (let mods = [WithServerID (serverDUID gw), WithDNS (DNS cfg)] @
                      (if m6_IANA msg = None then [] else [WithIANA (AsSlice ip) (LeaseTime cfg sdiv 2) (LeaseTime cfg)]);
                    reply = (if adv then dhcp6_NewAdvertiseFromSolicit pkg msg mods
                             else dhcp6_NewReplyFromMessage pkg msg mods)
                in Some (case reply of
                     None \<Rightarrow> ([], s')
                   | Some r \<Rightarrow> ([transmit6 pkg gw pkt (keep_iaid (m6_IANA msg) r)], s'))))"

definition replyStatus :: "dhcpv6_pkg \<Rightarrow> gw_addrs \<Rightarrow> ingressPacket \<Rightarrow> DHCPv6 \<Rightarrow> out_frame list" where
  "replyStatus pkg gw pkt msg = (case dhcp6_NewReplyFromMessage pkg msg [WithServerID (serverDUID gw)] of
       None \<Rightarrow> [] | Some r \<Rightarrow> [transmit6 pkg gw pkt r])"

definition replyInformation :: "dhcpv6_pkg \<Rightarrow> gw_addrs \<Rightarrow> DHCPConfig \<Rightarrow> ingressPacket \<Rightarrow> DHCPv6 \<Rightarrow> out_frame list" where
  "replyInformation pkg gw cfg pkt msg =
     (case dhcp6_NewReplyFromMessage pkg msg [WithServerID (serverDUID gw), WithDNS (DNS cfg)] of
        None \<Rightarrow> [] | Some r \<Rightarrow> [transmit6 pkg gw pkt r])"

section \<open>Frames\<close>

definition release6 :: "time \<Rightarrow> ingressPacket \<Rightarrow> byte list \<Rightarrow> dhcpServer \<Rightarrow> dhcpServer" where
  "release6 now pkt duid s = (case byClient now (d_leases s) (HardwareAddr_String (srcMAC pkt)) (EncodeToString duid) of
       None \<Rightarrow> s
     | Some l \<Rightarrow> s\<lparr>d_leases := snd (lease_release (l_IP l) (d_leases s))\<rparr>)"

definition handle_msg6 :: "dhcpv6_pkg \<Rightarrow> gw_addrs \<Rightarrow> time \<Rightarrow> string \<Rightarrow> ingressPacket \<Rightarrow> DHCPv6 \<Rightarrow> byte list \<Rightarrow> dhcpServer
    \<Rightarrow> (out_frame list \<times> dhcpServer) option" where
  "handle_msg6 pkg gw now port pkt msg duid s = (let cfg = d_cfg s in
     if m6_MessageType msg = Solicit then replyAddress pkg gw now port cfg pkt msg duid True s
     else if m6_MessageType msg \<in> {Request6, Renew, Rebind} then replyAddress pkg gw now port cfg pkt msg duid False s
     else if m6_MessageType msg = Release6 then Some (replyStatus pkg gw pkt msg, release6 now pkt duid s)
     else if m6_MessageType msg = InformationRequest then Some (replyInformation pkg gw cfg pkt msg, s)
     else Some ([], s))"

definition handleFrame6 :: "header_pkg \<Rightarrow> dhcpv6_pkg \<Rightarrow> gw_addrs \<Rightarrow> time \<Rightarrow> string \<Rightarrow> byte list \<Rightarrow> dhcpServer
    \<Rightarrow> (bool \<times> out_frame list \<times> dhcpServer) option" where
  "handleFrame6 h pkg gw now port frame s = (case parseIngress h frame of
       None \<Rightarrow> None
     | Some None \<Rightarrow> Some (False, [], s)
     | Some (Some pkt) \<Rightarrow>
         if \<not> isUDP6 pkt \<or> dstPort pkt \<noteq> dhcp6ServerPort then Some (False, [], s)
         else if \<not> Enabled (d_cfg s) then Some (True, [], s)
         else (case dhcp6_FromBytes pkg (payload pkt) of
             Some (PlainMessage msg) \<Rightarrow>
               (case m6_ClientID msg of
                  None \<Rightarrow> Some (True, [], s)
                | Some duid \<Rightarrow> map_option (\<lambda>r. (True, r)) (handle_msg6 pkg gw now port pkt msg duid s))
           | _ \<Rightarrow> Some (True, [], s)))"


section \<open>Runs of the server\<close>

definition run6 :: "header_pkg \<Rightarrow> dhcpv6_pkg \<Rightarrow> gw_addrs \<Rightarrow> dhcp_op \<Rightarrow> dhcpServer option \<Rightarrow> dhcpServer option" where
  "run6 h pkg gw = run_op True (net6 gw) (handleFrame6 h pkg gw)"

text \<open>The message a frame carries to the server, with its packet and the client identifier.\<close>

definition decode6 :: "header_pkg \<Rightarrow> dhcpv6_pkg \<Rightarrow> byte list \<Rightarrow> (ingressPacket \<times> DHCPv6 \<times> byte list) option" where
  "decode6 h pkg frame = (case parseIngress h frame of
       Some (Some pkt) \<Rightarrow> if isUDP6 pkt \<and> dstPort pkt = dhcp6ServerPort then
           (case dhcp6_FromBytes pkg (payload pkt) of
              Some (PlainMessage msg) \<Rightarrow> map_option (\<lambda>duid. (pkt, msg, duid)) (m6_ClientID msg)
            | _ \<Rightarrow> None) else None
     | _ \<Rightarrow> None)"

definition client6 :: "ingressPacket \<Rightarrow> byte list \<Rightarrow> string" where
  "client6 pkt duid = clientKey (HardwareAddr_String (srcMAC pkt)) (EncodeToString duid)"

definition spares6 :: "header_pkg \<Rightarrow> dhcpv6_pkg \<Rightarrow> string \<Rightarrow> byte list \<Rightarrow> bool" where
  "spares6 h pkg c frame \<longleftrightarrow> (case decode6 h pkg frame of
     None \<Rightarrow> True | Some (pkt, msg, duid) \<Rightarrow> client6 pkt duid \<noteq> c)"

lemma handleFrame6_cases:
  assumes "handleFrame6 h pkg gw now port frame s = Some (b, out, s')"
  obtains "s' = s" "out = []"
    | pkt msg duid where "decode6 h pkg frame = Some (pkt, msg, duid)" "Enabled (d_cfg s)" "b"
        "handle_msg6 pkg gw now port pkt msg duid s = Some (out, s')"
  using assms by (auto simp: decode6_def handleFrame6_def split: option.splits if_splits decoded6.splits)

section \<open>Every message keeps the state well formed\<close>

definition result_ok6 :: "gw_addrs \<Rightarrow> string \<Rightarrow> time \<Rightarrow> dhcpServer \<Rightarrow> (out_frame list \<times> dhcpServer) option \<Rightarrow> bool" where
  "result_ok6 gw client now s r \<longleftrightarrow> (\<exists>out s'. r = Some (out, s') \<and> server_wf True (net6 gw) s' \<and> d_cfg s' = d_cfg s
     \<and> d_statics s' = d_statics s
     \<and> (\<forall>c T. client \<noteq> c \<and> now \<le> T \<longrightarrow> held T c (d_leases s') = held T c (d_leases s)))"

lemma result_ok6_same: "server_wf True (net6 gw) s \<Longrightarrow> result_ok6 gw client now s (Some (out, s))"
  by (simp add: result_ok6_def)

lemma selectIP6_keeps:
  assumes wf: "server_wf True (net6 gw) s" and en: "Enabled (d_cfg s)"
  obtains ip s' where "selectIP6 gw now port (d_cfg s) smac duidHex s = Some (ip, s')"
    "\<And>out. result_ok6 gw (clientKey (HardwareAddr_String smac) duidHex) now s (Some (out, s'))"
proof -
  obtain v6 where v6: "gw_IPv6 gw = Some v6" using wf en by (auto simp: server_wf_def config_wf_def net6_def)
  let ?sel = "select_ip now (AddrFromSlice (To16 (v6_Address v6))) (d_cfg s) port (HardwareAddr_String smac) duidHex
    NoAddr (d_statics s) (d_leases s)"
  obtain ip t where sel: "?sel = (ip, t)" by (cases ?sel)
  have w: "statics_wf True (d_statics s)" "leases_wf (ip_version True) (d_leases s)"
    "ip_version True (PoolStart (d_cfg s))" "ip_version True (PoolEnd (d_cfg s))"
    using wf en family_version by (auto simp: server_wf_def config_wf_def)
  have "leases_wf (ip_version True) t" by (rule select_ip_wf(1) [OF w sel])
  moreover have "held T c t = held T c (d_leases s)" if "clientKey (HardwareAddr_String smac) duidHex \<noteq> c" "now \<le> T" for c T
    by (rule held_select_other [OF w(1,2) sel that])
  ultimately have "result_ok6 gw (clientKey (HardwareAddr_String smac) duidHex) now s (Some (out, s\<lparr>d_leases := t\<rparr>))" for out
    using wf by (simp add: result_ok6_def server_wf_def)
  then show thesis using sel that by (simp add: selectIP6_def v6)
qed

lemma replyAddress_ok:
  assumes "server_wf True (net6 gw) s" "Enabled (d_cfg s)"
  shows "result_ok6 gw (client6 pkt duid) now s (replyAddress pkg gw now port (d_cfg s) pkt msg duid adv s)"
proof -
  obtain ip s' where sel: "selectIP6 gw now port (d_cfg s) (srcMAC pkt) (EncodeToString duid) s = Some (ip, s')"
    and ok: "\<And>out. result_ok6 gw (client6 pkt duid) now s (Some (out, s'))"
    unfolding client6_def by (rule selectIP6_keeps [OF assms, of now port "srcMAC pkt" "EncodeToString duid"]) blast
  show ?thesis by (auto simp: replyAddress_def sel ok Let_def split: option.splits)
qed

lemma release6_ok:
  assumes wf: "server_wf True (net6 gw) s"
  shows "result_ok6 gw (client6 pkt duid) now s (Some (out, release6 now pkt duid s))"
proof (cases "byClient now (d_leases s) (HardwareAddr_String (srcMAC pkt)) (EncodeToString duid)")
  case (Some l)
  have lw: "leases_wf (ip_version True) (d_leases s)" using wf by (simp add: server_wf_def)
  note b = byClient_Some [OF lw Some]
  have g: "mget (d_leases s) (l_IP l) = Some l" using b(1) by (auto simp: lease_get_def split: option.splits if_splits)
  have "held T c (mdel (l_IP l) (d_leases s)) = held T c (d_leases s)" if "client6 pkt duid \<noteq> c" for c T
    using that b(2) g by (auto simp: held_def mget_mdel client6_def split: if_splits)
  then show ?thesis using wf leases_wf_release [OF lw, of "l_IP l"] g
    by (simp add: result_ok6_def release6_def Some lease_release_def server_wf_def)
qed (simp add: release6_def result_ok6_same wf)

lemma handle_msg6_ok:
  assumes "server_wf True (net6 gw) s" "Enabled (d_cfg s)"
  shows "result_ok6 gw (client6 pkt duid) now s (handle_msg6 pkg gw now port pkt msg duid s)"
  by (simp add: handle_msg6_def Let_def replyAddress_ok [OF assms] release6_ok [OF assms(1)] result_ok6_same [OF assms(1)])

lemma frame6_result:
  assumes "server_wf True (net6 gw) s" "handleFrame6 h pkg gw now port frame s = Some (b, out, s')"
  obtains "s' = s" | pkt msg duid where "decode6 h pkg frame = Some (pkt, msg, duid)"
    "result_ok6 gw (client6 pkt duid) now s (Some (out, s'))"
  by (rule handleFrame6_cases [OF assms(2)]) (metis that handle_msg6_ok [OF assms(1)])+

interpretation dhcp6: dhcp_service True "net6 gw" "handleFrame6 h pkg gw" "spares6 h pkg" "header_ok h"
  for h pkg gw
proof unfold_locales
  fix s now port frame
  assume wf: "server_wf True (net6 gw) s"
  show "handleFrame6 h pkg gw now port frame s \<noteq> None" if "header_ok h"
    using parseIngress_total [OF that, of frame] handle_msg6_ok [OF wf]
    by (fastforce simp: handleFrame6_def result_ok6_def split: option.splits decoded6.splits)
  fix b out s' assume r: "handleFrame6 h pkg gw now port frame s = Some (b, out, s')"
  show "server_wf True (net6 gw) s'"
    by (rule frame6_result [OF wf r]) (use wf in \<open>simp_all add: result_ok6_def\<close>)
  show "d_cfg s' = d_cfg s" "d_statics s' = d_statics s"
    by (rule frame6_result [OF wf r]; simp add: result_ok6_def)+
  show "held T c (d_leases s') = held T c (d_leases s)" if h: "spares6 h pkg c frame" "now \<le> T" for c T
    by (rule frame6_result [OF wf r]) (use h in \<open>auto simp: result_ok6_def spares6_def\<close>)
qed

section \<open>Properties\<close>

text \<open>
  C17. DHCPv6 clients are isolated from one another. Whatever happened to the server before, messages
  of other clients (releases included) and sweeps of the table, up to a time, neither panic the server nor
  take away, change or add any lease a client holds at that time.
\<close>

theorem dhcp6_clients_isolated:
  assumes "header_ok h" "list_all (harmless_op (spares6 h pkg) c T) others"
  shows "\<exists>s s'. fold (run6 h pkg gw) ops (Some newDHCPServer) = Some s
    \<and> fold (run6 h pkg gw) others (Some s) = Some s'
    \<and> server_wf True (net6 gw) s' \<and> held T c (d_leases s') = held T c (d_leases s)"
proof -
  obtain s where s: "fold (run6 h pkg gw) ops (Some newDHCPServer) = Some s" "server_wf True (net6 gw) s"
    using dhcp6.run_wf [OF assms(1) server_wf_new] unfolding run6_def by blast
  show ?thesis using s dhcp6.run_step [OF assms(1) s(2)] dhcp6.keeper.held_run [OF s(2) assms(2)]
    unfolding run6_def by blast
qed


section \<open>An example server\<close>

definition ex_dhcp6 :: dhcpv6_pkg where
  "ex_dhcp6 = \<lparr>dhcp6_FromBytes = (\<lambda>b. Some (PlainMessage \<lparr>m6_MessageType = Release6, m6_ClientID = Some b, m6_IANA = None\<rparr>)),
     dhcp6_NewAdvertiseFromSolicit = (\<lambda>m mods. Some m), dhcp6_NewReplyFromMessage = (\<lambda>m mods. Some m),
     dhcp6_ToBytes = (\<lambda>m. [])\<rparr>"

definition ex_gw6 :: gw_addrs where
  "ex_gw6 = \<lparr>gw_IPv4 = None, gw_IPv6 = Some \<lparr>v6_Address = [0xfd] @ replicate 14 0 @ [1], v6_PrefixLen = 64, v6_LinkLocal = []\<rparr>,
     gw_MAC = [2, 0, 0, 0, 0, 1], gw_LinkLocal = [0xfe, 0x80] @ replicate 13 0 @ [1]\<rparr>"

definition ex_frame6 :: "byte list \<Rightarrow> byte list" where
  "ex_frame6 duid = replicate 12 7 @ [0x86, 0xdd] @ replicate 6 0 @ [17] @ replicate 33 0 @ [2, 0x22, 2, 0x23, 0, 0, 0, 0] @ duid"

lemma ex_decode6:
  "\<exists>pkt. decode6 ex_headers ex_dhcp6 (ex_frame6 duid) =
     Some (pkt, \<lparr>m6_MessageType = Release6, m6_ClientID = Some duid, m6_IANA = None\<rparr>, duid) \<and> srcMAC pkt = replicate 6 7"
proof -
  let ?udp = "[2, 0x22, 2, 0x23, 0, 0, 0, 0] @ duid"
  let ?body = "replicate 6 0 @ [17] @ replicate 33 0 @ ?udp"
  have e: "eth_Type ex_headers (ex_frame6 duid) = IPv6ProtocolNumber" "drop 14 (ex_frame6 duid) = ?body"
    "\<not> length (ex_frame6 duid) < 14" "eth_SourceAddress ex_headers (ex_frame6 duid) = replicate 6 7"
    by (simp_all add: ex_headers_def ex_frame6_def be16_def get_be_def IPv6ProtocolNumber_def)
  have b: "drop 40 ?body = ?udp" "?body ! 6 = 17" by (simp_all add: nth_append)
  have u: "be16 (drop 2 ?udp) = 547" "drop 8 ?udp = duid" by (simp_all add: be16_def get_be_def)
  have "\<exists>q. parse_ipv6 ex_headers ?body p = Some q \<and> isUDP6 q \<and> dstPort q = 547 \<and> payload q = duid \<and> srcMAC q = srcMAC p" for p
    using b u by (simp add: parse_ipv6_def ex_headers_def header_consts Let_def del: append_Cons append_assoc)
  then obtain q where "parse_ipv6 ex_headers ?body (no_packet\<lparr>srcMAC := replicate 6 7\<rparr>) = Some q"
    "isUDP6 q" "dstPort q = 547" "payload q = duid" "srcMAC q = replicate 6 7" by fastforce
  then show ?thesis
    using e by (simp add: decode6_def parseIngress_def Let_def EthernetMinimumSize_def dhcp6ServerPort_def ex_dhcp6_def
        IPv4ProtocolNumber_def IPv6ProtocolNumber_def)
qed

theorem dhcp6_clients_isolated_witness:
  "\<exists>s s'. fold (run6 ex_headers ex_dhcp6 ex_gw6) [OpSweep 1] (Some newDHCPServer) = Some s
    \<and> fold (run6 ex_headers ex_dhcp6 ex_gw6) [OpSweep 3, OpFrame 4 ''p1'' (ex_frame6 [1, 2])] (Some s) = Some s'
    \<and> held 9 ''/0305'' (d_leases s') = held 9 ''/0305'' (d_leases s)"
proof -
  obtain pkt where d: "decode6 ex_headers ex_dhcp6 (ex_frame6 [1, 2]) =
     Some (pkt, \<lparr>m6_MessageType = Release6, m6_ClientID = Some [1, 2], m6_IANA = None\<rparr>, [1, 2])"
    and m: "srcMAC pkt = replicate 6 7" using ex_decode6 by blast
  have "clientKey (HardwareAddr_String (replicate 6 7)) (EncodeToString [1, 2]) \<noteq> ''/0305''" by code_simp
  then have "list_all (harmless_op (spares6 ex_headers ex_dhcp6) ''/0305'' 9) [OpSweep 3, OpFrame 4 ''p1'' (ex_frame6 [1, 2])]"
    by (simp add: spares6_def d client6_def m)
  from dhcp6_clients_isolated [OF ex_headers_ok this, of ex_gw6 "[OpSweep 1]"] show ?thesis by blast
qed

end
