(* ===== verification/RouterAdv.thy ===== *)
theory RouterAdv
  imports Ingress "HOL-Library.Signed_Division"
begin

text \<open>
  The router advertisement service of a gateway (\<^verbatim>\<open>internal/gateway/ra.go\<close>): its configuration, the
  solicitations it answers, and the advertisement it builds byte by byte. Options are put into wire form by
  gVisor's \<^verbatim>\<open>header\<close> package; the argument \<^verbatim>\<open>ser\<close> is that function.
\<close>

section \<open>Configuration\<close>

definition defaultRAInterval :: int where "defaultRAInterval = 200 * time_Second"
definition defaultRouterLifetime :: int where "defaultRouterLifetime = 1800 * time_Second"
definition defaultValidLifetime :: int where "defaultValidLifetime = 30 * 24 * 3600 * time_Second"
definition defaultPreferredLifetime :: int where "defaultPreferredLifetime = 7 * 24 * 3600 * time_Second"

text \<open>A prefix is an address and a number of bits, which is -1 when the prefix is invalid.\<close>

record RAPrefix =
  rp_Prefix :: "Addr \<times> int"
  rp_ValidLifetime :: int
  rp_PreferredLifetime :: int
  rp_OnLink :: bool
  rp_Autonomous :: bool

record SLAACConfig =
  ra_Enabled :: bool
  ra_Interval :: int
  ra_Managed :: bool
  ra_Other :: bool
  ra_RouterLifetime :: int
  ra_Prefixes :: "RAPrefix list"

text \<open>The channel \<^verbatim>\<open>kick\<close> holds at most one token.\<close>

record raServer =
  ra_cfg :: SLAACConfig
  ra_kick :: bool

definition newRAServer :: raServer where
  "newRAServer = \<lparr>ra_cfg = \<lparr>ra_Enabled = False, ra_Interval = 0, ra_Managed = False, ra_Other = False,
     ra_RouterLifetime = 0, ra_Prefixes = []\<rparr>, ra_kick = False\<rparr>"

datatype ra_error = NoIPv6Network | PrefixNotIPv6 "Addr \<times> int"

definition or_default :: "int \<Rightarrow> int \<Rightarrow> int" where
  "or_default d x = (if x \<le> 0 then d else x)"

fun check_prefixes :: "RAPrefix list \<Rightarrow> ra_error + RAPrefix list" where
  "check_prefixes [] = Inr []"
| "check_prefixes (p # ps) =
     (if \<not> Is6 (fst (rp_Prefix p)) \<or> Is4In6 (fst (rp_Prefix p)) then Inl (PrefixNotIPv6 (rp_Prefix p))
      else (case check_prefixes ps of
          Inl e \<Rightarrow> Inl e
        | Inr qs \<Rightarrow> Inr (p\<lparr>rp_ValidLifetime := or_default defaultValidLifetime (rp_ValidLifetime p),
              rp_PreferredLifetime := or_default defaultPreferredLifetime (rp_PreferredLifetime p)\<rparr> # qs)))"

definition SetConfigRA :: "gw_addrs \<Rightarrow> SLAACConfig \<Rightarrow> raServer \<Rightarrow> ra_error + raServer" where
  "SetConfigRA gw cfg s =
     (if ra_Enabled cfg then
        if gw_IPv6 gw = None then Inl NoIPv6Network
        else (case check_prefixes (ra_Prefixes cfg) of
            Inl e \<Rightarrow> Inl e
          | Inr ps \<Rightarrow> Inr (s\<lparr>ra_cfg := cfg\<lparr>ra_Interval := or_default defaultRAInterval (ra_Interval cfg),
                ra_RouterLifetime := or_default defaultRouterLifetime (ra_RouterLifetime cfg),
                ra_Prefixes := ps\<rparr>, ra_kick := True\<rparr>))
      else Inr (s\<lparr>ra_cfg := cfg, ra_kick := True\<rparr>))"

definition ConfigRA :: "raServer \<Rightarrow> SLAACConfig" where
  "ConfigRA s = ra_cfg s"

section \<open>Advertisements\<close>

datatype ndp_option = SourceLinkLayerAddress "byte list" | PrefixInformation "byte list"

type_synonym ndp_serializer = "ndp_option list \<Rightarrow> byte list"

definition flag_bits :: "bool \<Rightarrow> bool \<Rightarrow> byte" where
  "flag_bits a b = (if a then 0x80 else 0) OR (if b then 0x40 else 0)"

definition seconds32 :: "int \<Rightarrow> u32" where
  "seconds32 d = word_of_int (d sdiv time_Second)"

definition seconds16 :: "int \<Rightarrow> u16" where
  "seconds16 d = word_of_int (d sdiv time_Second)"

definition buildPrefixInfo :: "RAPrefix \<Rightarrow> byte list" where
  "buildPrefixInfo p = [word_of_int (snd (rp_Prefix p)), flag_bits (rp_OnLink p) (rp_Autonomous p)]
     @ put_be32 (seconds32 (rp_ValidLifetime p)) @ put_be32 (seconds32 (rp_PreferredLifetime p))
     @ replicate 4 0 @ As16 (fst (rp_Prefix p))"

definition allNodesIP6 :: net_IP where
  "allNodesIP6 = [0xff, 0x02] @ replicate 13 0 @ [1]"

definition allNodesMAC :: "byte list" where
  "allNodesMAC = [0x33, 0x33, 0, 0, 0, 1]"

definition ICMPv6RouterAdvert :: byte where "ICMPv6RouterAdvert = 134"
definition ICMPv6RouterSolicit :: byte where "ICMPv6RouterSolicit = 133"
definition NDPHopLimit :: byte where "NDPHopLimit = 255"

text \<open>
  The body: type, code and checksum; hop limit, flags and router lifetime; two timers left at
  0; the options.
\<close>

definition ra_body :: "ndp_serializer \<Rightarrow> gw_addrs \<Rightarrow> SLAACConfig \<Rightarrow> byte list" where
  "ra_body ser gw cfg = [ICMPv6RouterAdvert, 0, 0, 0] @ [64, flag_bits (ra_Managed cfg) (ra_Other cfg)]
     @ put_be16 (seconds16 (ra_RouterLifetime cfg)) @ replicate 8 0
     @ ser (SourceLinkLayerAddress (gw_MAC gw) # map (PrefixInformation \<circ> buildPrefixInfo) (ra_Prefixes cfg))"

definition sendRA :: "ndp_serializer \<Rightarrow> gw_addrs \<Rightarrow> SLAACConfig \<Rightarrow> byte list \<Rightarrow> net_IP \<Rightarrow> out_frame" where
  "sendRA ser gw cfg dmac dip = OutICMP6 (gw_MAC gw) dmac (gw_LinkLocal gw) dip (ra_body ser gw cfg) NDPHopLimit"

text \<open>
  One turn of the loop: an advertisement to all nodes when enabled, and how long to wait at most. The
  wait ends with the timer, or by taking the token (\<^term>\<open>kicked\<close>).
\<close>

definition ra_loop :: "ndp_serializer \<Rightarrow> gw_addrs \<Rightarrow> bool \<Rightarrow> raServer \<Rightarrow> out_frame list \<times> int \<times> raServer" where
  "ra_loop ser gw kicked s =
     (if ra_Enabled (ra_cfg s) then [sendRA ser gw (ra_cfg s) allNodesMAC allNodesIP6] else [],
      if ra_Enabled (ra_cfg s) then ra_Interval (ra_cfg s) else 3600 * time_Second,
      if kicked then s\<lparr>ra_kick := False\<rparr> else s)"

definition handleFrameRA :: "header_pkg \<Rightarrow> ndp_serializer \<Rightarrow> gw_addrs \<Rightarrow> byte list \<Rightarrow> raServer
    \<Rightarrow> (bool \<times> out_frame list) option" where
  "handleFrameRA h ser gw frame s = (case parseIngress h frame of
       None \<Rightarrow> None
     | Some None \<Rightarrow> Some (False, [])
     | Some (Some pkt) \<Rightarrow>
         if \<not> isICMP6 pkt \<or> icmpTyp pkt \<noteq> ICMPv6RouterSolicit then Some (False, [])
         else if \<not> ra_Enabled (ra_cfg s) then Some (True, [])
         else (let (dmac, dip) = (if \<not> IP_IsUnspecified (srcIP pkt) then (srcMAC pkt, srcIP pkt)
                                  else (allNodesMAC, allNodesIP6))
               in Some (True, [sendRA ser gw (ra_cfg s) dmac dip])))"


section \<open>Properties\<close>

lemma flag_bits_read: "bit (flag_bits a b) 7 = a" "bit (flag_bits a b) 6 = b"
  by (simp_all add: flag_bits_def bit_simps)

lemma check_prefixes_ok:
  "check_prefixes ps = Inr qs \<Longrightarrow> list_all (\<lambda>q. Is6 (fst (rp_Prefix q)) \<and> \<not> Is4In6 (fst (rp_Prefix q))
     \<and> 0 < rp_ValidLifetime q \<and> 0 < rp_PreferredLifetime q) qs \<and> map rp_Prefix qs = map rp_Prefix ps"
  by (induction ps arbitrary: qs)
    (auto simp: or_default_def defaultValidLifetime_def defaultPreferredLifetime_def time_Second_def
      split: if_splits sum.splits)


lemma seconds32_small:
  assumes "0 \<le> d" "d < 2 ^ 32 * time_Second"
  shows "int (unat (seconds32 d)) = d div time_Second"
proof -
  have "d div time_Second < 2 ^ 32" using assms by (simp add: time_Second_def)
  moreover have "0 \<le> d div time_Second" using assms by (simp add: time_Second_def)
  moreover have "d sdiv time_Second = d div time_Second"
    using assms(1) by (cases "d = 0") (simp_all add: signed_divide_int_def time_Second_def)
  ultimately show ?thesis by (simp add: seconds32_def uint_word_of_int_eq take_bit_int_eq_self)
qed

lemma prefix_info_fields:
  assumes "rp_Prefix p = (A6 w z, n)" "0 \<le> n" "n \<le> 128"
  shows "length (buildPrefixInfo p) = 30" "int (unat (buildPrefixInfo p ! 0)) = n"
    "buildPrefixInfo p ! 1 = flag_bits (rp_OnLink p) (rp_Autonomous p)"
    "be32 (drop 2 (buildPrefixInfo p)) = seconds32 (rp_ValidLifetime p)"
    "be32 (drop 6 (buildPrefixInfo p)) = seconds32 (rp_PreferredLifetime p)"
    "get_be (drop 14 (buildPrefixInfo p)) = unat w"
proof -
  have "unat w < 256 ^ 16" by (rule order_less_le_trans [OF unsigned_less]) simp
  then show "get_be (drop 14 (buildPrefixInfo p)) = unat w"
    by (simp add: buildPrefixInfo_def assms get_put_be)
  have "take_bit 8 n = n" using assms(2,3) by (simp add: take_bit_int_eq_self)
  then show "int (unat (buildPrefixInfo p ! 0)) = n" by (simp add: buildPrefixInfo_def assms uint_word_of_int_eq)
qed (simp_all add: buildPrefixInfo_def)

text \<open>
  C13. What a host reads from a prefix option of an accepted configuration is what was configured: the prefix
  and its length, the two flags, and the lifetimes in whole seconds (the defaults where none was given).
\<close>

theorem prefix_option_round_trip:
  assumes "SetConfigRA gw cfg s = Inr s'" "ra_Enabled cfg" "p \<in> set (ra_Prefixes (ra_cfg s'))"
    and "rp_Prefix p = (A6 w z, n)" "0 \<le> n" "n \<le> 128"
    and "rp_ValidLifetime p < 2 ^ 32 * time_Second" "rp_PreferredLifetime p < 2 ^ 32 * time_Second"
  shows "let b = buildPrefixInfo p in length b = 30 \<and> int (unat (b ! 0)) = n \<and> get_be (drop 14 b) = unat w
    \<and> bit (b ! 1) 7 = rp_OnLink p \<and> bit (b ! 1) 6 = rp_Autonomous p
    \<and> int (unat (be32 (drop 2 b))) = rp_ValidLifetime p div time_Second
    \<and> int (unat (be32 (drop 6 b))) = rp_PreferredLifetime p div time_Second"
proof -
  obtain qs where "check_prefixes (ra_Prefixes cfg) = Inr qs" "ra_Prefixes (ra_cfg s') = qs"
    using assms(1,2) by (auto simp: SetConfigRA_def split: if_splits sum.splits)
  then have "0 < rp_ValidLifetime p" "0 < rp_PreferredLifetime p"
    using check_prefixes_ok assms(3) by (fastforce simp: list_all_iff)+
  then show ?thesis using prefix_info_fields [OF assms(4-6)] assms(7,8)
      seconds32_small [of "rp_ValidLifetime p"] seconds32_small [of "rp_PreferredLifetime p"]
    by (simp add: Let_def flag_bits_read)
qed

definition ex_prefix :: RAPrefix where
  "ex_prefix = \<lparr>rp_Prefix = (A6 (0xfd * 2 ^ 120) [], 64), rp_ValidLifetime = 0, rp_PreferredLifetime = 60 * 10 ^ 9,
     rp_OnLink = True, rp_Autonomous = True\<rparr>"

definition ex_slaac :: SLAACConfig where
  "ex_slaac = \<lparr>ra_Enabled = True, ra_Interval = 0, ra_Managed = False, ra_Other = True, ra_RouterLifetime = 0,
     ra_Prefixes = [ex_prefix]\<rparr>"

definition ex_gw_v6 :: gw_addrs where
  "ex_gw_v6 = \<lparr>gw_IPv4 = None, gw_IPv6 = Some \<lparr>v6_Address = [0xfd] @ replicate 14 0 @ [1], v6_PrefixLen = 64, v6_LinkLocal = []\<rparr>,
     gw_MAC = [2, 0, 0, 0, 0, 1], gw_LinkLocal = [0xfe, 0x80] @ replicate 13 0 @ [1]\<rparr>"

theorem prefix_option_round_trip_witness:
  "\<exists>s' p. SetConfigRA ex_gw_v6 ex_slaac newRAServer = Inr s' \<and> ra_Prefixes (ra_cfg s') = [p]
     \<and> length (buildPrefixInfo p) = 30 \<and> int (unat (be32 (drop 2 (buildPrefixInfo p)))) = 2592000"
proof -
  let ?p = "ex_prefix\<lparr>rp_ValidLifetime := defaultValidLifetime\<rparr>"
  have c: "check_prefixes [ex_prefix] = Inr [?p]"
    by (simp add: ex_prefix_def or_default_def)
  obtain s' where s': "SetConfigRA ex_gw_v6 ex_slaac newRAServer = Inr s'" "ra_Prefixes (ra_cfg s') = [?p]"
    using c by (simp add: SetConfigRA_def ex_slaac_def ex_gw_v6_def)
  have "let b = buildPrefixInfo ?p in length b = 30 \<and> int (unat (be32 (drop 2 b))) = defaultValidLifetime div time_Second"
    using prefix_option_round_trip [OF s'(1), of ?p "0xfd * 2 ^ 120" "[]" 64] s'(2)
    by (simp add: ex_slaac_def ex_prefix_def defaultValidLifetime_def time_Second_def Let_def)
  then show ?thesis using s' by (auto simp: Let_def defaultValidLifetime_def time_Second_def)
qed

end
