(* ===== verification/NetText.thy ===== *)
theory NetText
  imports NetAddr
begin

text \<open>
  The text forms of Go's standard library the control plane reads and writes: decimal numbers,
  hardware addresses (\<^verbatim>\<open>net.ParseMAC\<close>), IP addresses and prefixes (\<^verbatim>\<open>net/netip\<close>, \<^verbatim>\<open>net.ParseIP\<close>), and host
  and port pairs (\<^verbatim>\<open>net.SplitHostPort\<close>). A printed IPv4 address is read back as the same address.
\<close>

section \<open>Numbers\<close>

definition is_digit :: "char \<Rightarrow> bool" where
  "is_digit c \<longleftrightarrow> c \<in> set ''0123456789''"

definition digit_val :: "char \<Rightarrow> nat" where
  "digit_val c = of_char c - 48"

definition digit_char :: "nat \<Rightarrow> char" where
  "digit_char n = ''0123456789'' ! n"

fun decimal :: "nat \<Rightarrow> string" where
  "decimal n = (if n < 10 then [digit_char n] else decimal (n div 10) @ [digit_char (n mod 10)])"

declare decimal.simps [simp del]

definition decimal_int :: "int \<Rightarrow> string" where
  "decimal_int i = (if i < 0 then ''-'' @ decimal (nat (- i)) else decimal (nat i))"

definition hex_chars :: string where
  "hex_chars = ''0123456789abcdef''"

definition hex_val :: "char \<Rightarrow> nat option" where
  "hex_val c = (let n = of_char c in
     if 48 \<le> n \<and> n \<le> 57 then Some (n - 48)
     else if 97 \<le> n \<and> n \<le> 102 then Some (n - 87)
     else if 65 \<le> n \<and> n \<le> 70 then Some (n - 55) else None)"

fun hexadecimal :: "nat \<Rightarrow> string" where
  "hexadecimal n = (if n < 16 then [hex_chars ! n] else hexadecimal (n div 16) @ [hex_chars ! (n mod 16)])"

declare hexadecimal.simps [simp del]

section \<open>IPv4\<close>

text \<open>Current value and number of digits of a field, the fields read, and the rest of the text.\<close>

fun parse4 :: "nat \<Rightarrow> nat \<Rightarrow> byte list \<Rightarrow> string \<Rightarrow> byte list option" where
  "parse4 v d acc [] = (if length acc = 3 \<and> 0 < d then Some (acc @ [word_of_nat v]) else None)"
| "parse4 v d acc (c # cs) =
     (if is_digit c then
        if d = 1 \<and> v = 0 then None
        else (let v' = v * 10 + digit_val c in if v' > 255 then None else parse4 v' (Suc d) acc cs)
      else if c = CHR ''.'' then
        if d = 0 \<or> cs = [] \<or> length acc = 3 then None else parse4 0 0 (acc @ [word_of_nat v]) cs
      else None)"

fun string4 :: "byte list \<Rightarrow> string" where
  "string4 [] = []"
| "string4 [b] = decimal (unat b)"
| "string4 (b # bs) = decimal (unat b) @ ''.'' @ string4 bs"

section \<open>IPv6\<close>

text \<open>
  One field after the other; the bytes read, where the ellipsis stands, and the rest of the text. There are
  at most eight fields.
\<close>

fun parse6 :: "nat \<Rightarrow> byte list \<Rightarrow> nat option \<Rightarrow> string \<Rightarrow> (byte list \<times> nat option \<times> string) option" where
  "parse6 0 ip el s = Some (ip, el, s)"
| "parse6 (Suc n) ip el s =
     (let grp = takeWhile (\<lambda>c. hex_val c \<noteq> None) s; rest = dropWhile (\<lambda>c. hex_val c \<noteq> None) s in
      if length grp > 4 \<or> grp = [] then None
      else if rest \<noteq> [] \<and> hd rest = CHR ''.'' then
        if el = None \<and> length ip \<noteq> 12 \<or> length ip + 4 > 16 then None
        else map_option (\<lambda>bs. (ip @ bs, el, [])) (parse4 0 0 [] s)
      else (let v = fold (\<lambda>c acc. acc * 16 + the (hex_val c)) grp 0;
                ip' = ip @ [word_of_nat (v div 256), word_of_nat v] in
        case rest of
          [] \<Rightarrow> Some (ip', el, [])
        | c # cs \<Rightarrow>
            if c \<noteq> CHR '':'' \<or> cs = [] then None
            else if hd cs = CHR '':'' then
              if el \<noteq> None then None
              else if tl cs = [] then Some (ip', Some (length ip'), [])
              else parse6 n ip' (Some (length ip')) (tl cs)
            else parse6 n ip' el cs))"

definition expand6 :: "byte list \<times> nat option \<times> string \<Rightarrow> byte list option" where
  "expand6 r = (case r of (ip, el, s) \<Rightarrow>
     if s \<noteq> [] then None
     else if length ip < 16 then
       map_option (\<lambda>e. take e ip @ replicate (16 - length ip) 0 @ drop e ip) el
     else if el \<noteq> None then None else Some ip)"

definition parse_addr6 :: "string \<Rightarrow> Addr option" where
  "parse_addr6 s = (let body = takeWhile (\<lambda>c. c \<noteq> CHR ''%'') s; z = drop (length body) s; zone = tl z in
     if z \<noteq> [] \<and> zone = [] then None
     else if take 2 body = ''::'' then
       if length body = 2 then Some (A6 0 zone)
       else map_option (\<lambda>ip. A6 (word_of_nat (get_be ip)) zone)
              (Option.bind (parse6 8 [] (Some 0) (drop 2 body)) expand6)
     else map_option (\<lambda>ip. A6 (word_of_nat (get_be ip)) zone) (Option.bind (parse6 8 [] None body) expand6))"

definition ParseAddr :: "string \<Rightarrow> Addr option" where
  "ParseAddr s = (case find (\<lambda>c. c \<in> {CHR ''.'', CHR '':'', CHR ''%''}) s of
       None \<Rightarrow> None
     | Some c \<Rightarrow>
         if c = CHR ''.'' then map_option (\<lambda>ip. A4 (be32 ip)) (parse4 0 0 [] s)
         else if c = CHR '':'' then parse_addr6 s
         else None)"

definition addr_zone :: "Addr \<Rightarrow> string" where
  "addr_zone a = (case a of A6 _ z \<Rightarrow> z | _ \<Rightarrow> [])"

definition ParseIP :: "string \<Rightarrow> net_IP option" where
  "ParseIP s = (case ParseAddr s of
       None \<Rightarrow> None
     | Some a \<Rightarrow> if addr_zone a \<noteq> [] then None else Some (As16 a))"

text \<open>The longest run of two or more zero fields, the first of them if there are several.\<close>

definition groups :: "u128 \<Rightarrow> nat list" where
  "groups w = map (\<lambda>i. unat w div 65536 ^ (7 - i) mod 65536) [0..<8]"

definition zero_run :: "nat list \<Rightarrow> nat \<Rightarrow> nat" where
  "zero_run gs i = length (takeWhile (\<lambda>g. g = 0) (drop i gs))"

definition best_run :: "nat list \<Rightarrow> nat \<times> nat" where
  "best_run gs = fold (\<lambda>i best. if 2 \<le> zero_run gs i \<and> zero_run gs i > snd best - fst best then (i, i + zero_run gs i) else best)
     [0..<8] (255, 255)"

fun join :: "string \<Rightarrow> string list \<Rightarrow> string" where
  "join sep [] = []"
| "join sep [x] = x"
| "join sep (x # xs) = x @ sep @ join sep xs"

definition string6 :: "u128 \<Rightarrow> string" where
  "string6 w = (let gs = groups w; (i, j) = best_run gs; show = map hexadecimal in
     if i = 255 then join '':'' (show gs)
     else join '':'' (show (take i gs)) @ ''::'' @ join '':'' (show (drop j gs)))"

definition zone_suffix :: "string \<Rightarrow> string" where
  "zone_suffix z = (if z = [] then [] else CHR ''%'' # z)"

definition Addr_String :: "Addr \<Rightarrow> string" where
  "Addr_String a = (case a of
       NoAddr \<Rightarrow> ''invalid IP''
     | A4 w \<Rightarrow> string4 (put_be 4 (unat w))
     | A6 w z \<Rightarrow> (if Is4In6 a then ''::ffff:'' @ string4 (drop 12 (put_be 16 (unat w))) else string6 w) @ zone_suffix z)"

definition IP_String :: "net_IP \<Rightarrow> string" where
  "IP_String ip = (if ip = [] then ''<nil>''
     else if To4 ip \<noteq> [] then string4 (To4 ip)
     else if length ip = 16 then string6 (word_of_nat (get_be ip))
     else ''?'' @ concat (map (\<lambda>b. [hex_chars ! (unat b div 16), hex_chars ! (unat b mod 16)]) ip))"

section \<open>Prefixes\<close>

definition ParsePrefix :: "string \<Rightarrow> (Addr \<times> int) option" where
  "ParsePrefix s = (let suffix = rev (takeWhile (\<lambda>c. c \<noteq> CHR ''/'') (rev s)) in
     if suffix = s then None
     else (let head = take (length s - length suffix - 1) s in
       case ParseAddr head of
         None \<Rightarrow> None
       | Some a \<Rightarrow>
           if addr_zone a \<noteq> [] then None
           else if suffix = [] \<or> \<not> list_all is_digit suffix \<or> (length suffix > 1 \<and> hd suffix = CHR ''0'') then None
           else (let bits = fold (\<lambda>c acc. acc * 10 + digit_val c) suffix 0 in
             if bits > (if Is4 a then 32 else 128) then None else Some (a, int bits))))"

definition Prefix_String :: "Addr \<times> int \<Rightarrow> string" where
  "Prefix_String p = (if snd p < 0 then ''invalid Prefix'' else Addr_String (fst p) @ ''/'' @ decimal_int (snd p))"

section \<open>Hardware addresses\<close>

definition xtoi2 :: "char \<Rightarrow> char \<Rightarrow> byte option" where
  "xtoi2 a b = (case (hex_val a, hex_val b) of (Some x, Some y) \<Rightarrow> Some (word_of_nat (x * 16 + y)) | _ \<Rightarrow> None)"

fun pairs_sep :: "char \<Rightarrow> string \<Rightarrow> byte list option" where
  "pairs_sep sep [a, b] = map_option (\<lambda>x. [x]) (xtoi2 a b)"
| "pairs_sep sep (a # b # c # cs) =
     (if c \<noteq> sep then None
      else (case (xtoi2 a b, pairs_sep sep cs) of (Some x, Some xs) \<Rightarrow> Some (x # xs) | _ \<Rightarrow> None))"
| "pairs_sep sep _ = None"

fun quads_dot :: "string \<Rightarrow> byte list option" where
  "quads_dot [a, b, c, d] =
     (case (xtoi2 a b, xtoi2 c d) of (Some x, Some y) \<Rightarrow> Some [x, y] | _ \<Rightarrow> None)"
| "quads_dot (a # b # c # d # e # cs) =
     (if e \<noteq> CHR ''.'' then None
      else (case (xtoi2 a b, xtoi2 c d, quads_dot cs) of
          (Some x, Some y, Some xs) \<Rightarrow> Some (x # y # xs) | _ \<Rightarrow> None))"
| "quads_dot _ = None"

definition ParseMAC :: "string \<Rightarrow> byte list option" where
  "ParseMAC s = (if length s < 14 then None
     else (case (if s ! 2 = CHR '':'' \<or> s ! 2 = CHR ''-'' then pairs_sep (s ! 2) s
                 else if s ! 4 = CHR ''.'' then quads_dot s else None) of
         None \<Rightarrow> None
       | Some hw \<Rightarrow> if length hw \<in> {6, 8, 20} then Some hw else None))"

section \<open>Host and port\<close>

definition last_index :: "char \<Rightarrow> string \<Rightarrow> nat option" where
  "last_index c s = (if c \<in> set s then Some (length s - 1 - length (takeWhile (\<lambda>x. x \<noteq> c) (rev s))) else None)"

definition SplitHostPort :: "string \<Rightarrow> (string \<times> string) option" where
  "SplitHostPort s = (case last_index CHR '':'' s of
       None \<Rightarrow> None
     | Some i \<Rightarrow>
         if hd s = CHR ''['' then
           (let inner = takeWhile (\<lambda>c. c \<noteq> CHR '']'') s in
            if length inner = length s \<or> length inner + 1 \<noteq> i then None
            else if CHR ''['' \<in> set (tl s) \<or> CHR '']'' \<in> set (drop (length inner + 1) s) then None
            else Some (tl inner, drop (i + 1) s))
         else if CHR '':'' \<in> set (take i s) then None
         else if CHR ''['' \<in> set s \<or> CHR '']'' \<in> set s then None
         else Some (take i s, drop (i + 1) s))"


section \<open>Printed IPv4 addresses are read back\<close>

lemma digit_char_facts:
  assumes "n < 10"
  shows "is_digit (digit_char n)" "digit_val (digit_char n) = n" "digit_char n \<noteq> CHR ''.''" "digit_char n \<noteq> CHR '':''"
    "digit_char n \<noteq> CHR ''%''"
proof -
  have "n \<in> set [0..<10]" using assms by simp
  then have "n = 0 \<or> n = 1 \<or> n = 2 \<or> n = 3 \<or> n = 4 \<or> n = 5 \<or> n = 6 \<or> n = 7 \<or> n = 8 \<or> n = 9"
    by (auto simp: upt_rec)
  then show "is_digit (digit_char n)" "digit_val (digit_char n) = n" "digit_char n \<noteq> CHR ''.''" "digit_char n \<noteq> CHR '':''"
    "digit_char n \<noteq> CHR ''%''"
    by (elim disjE; simp add: is_digit_def digit_val_def digit_char_def)+
qed

lemma decimal_cases:
  assumes "v < 256"
  obtains "v < 10" "decimal v = [digit_char v]"
    | "10 \<le> v" "v < 100" "decimal v = [digit_char (v div 10), digit_char (v mod 10)]"
    | "100 \<le> v" "decimal v = [digit_char (v div 100), digit_char (v div 10 mod 10), digit_char (v mod 10)]"
proof -
  have d: "v div 10 div 10 = v div 100" by (simp add: div_mult2_eq [symmetric])
  consider "v < 10" | "10 \<le> v" "v < 100" | "100 \<le> v" by linarith
  then show thesis
  proof cases
    case 1
    then show thesis using that(1) by (simp add: decimal.simps)
  next
    case 2
    then have "v div 10 < 10" by auto
    then show thesis using 2 that(2) by (simp add: decimal.simps [of v] decimal.simps [of "v div 10"])
  next
    case 3
    then have "\<not> v div 10 < 10" "v div 10 div 10 < 10" using assms by auto
    then show thesis using 3 that(3) d
      by (simp add: decimal.simps [of v] decimal.simps [of "v div 10"] decimal.simps [of "v div 100"])
  qed
qed

lemma decimal_nonempty [simp]: "decimal n \<noteq> []"
  by (subst decimal.simps) simp

lemma decimal_digits: "c \<in> set (decimal n) \<Longrightarrow> is_digit c"
proof (induction n rule: decimal.induct)
  case (1 n)
  then show ?case
    by (subst (asm) (2) decimal.simps) (auto simp: digit_char_facts split: if_splits)
qed

lemma parse4_decimal:
  assumes "v < 256"
  shows "\<exists>d > 0. parse4 0 0 acc (decimal v @ rest) = parse4 v d acc rest"
  using assms
proof (cases rule: decimal_cases)
  case 1
  then show ?thesis by (auto simp: digit_char_facts Let_def)
next
  case 2
  then have "v div 10 < 10" "v div 10 \<noteq> 0" "v mod 10 < 10" "v div 10 * 10 + v mod 10 = v" by auto
  then show ?thesis using 2 by (auto simp: digit_char_facts Let_def)
next
  case 3
  have a: "v div 100 < 10" "v div 100 \<noteq> 0" "v div 10 mod 10 < 10" "v mod 10 < 10" using 3 assms by auto
  have b: "v div 100 * 10 + v div 10 mod 10 = v div 10"
    using div_mult_mod_eq [of "v div 10" 10] by (simp add: div_mult2_eq [symmetric] mult.commute)
  have c: "v div 10 * 10 + v mod 10 = v" by simp
  have "v div 10 \<le> 255" "v div 100 \<le> 255" using assms by auto
  then show ?thesis using 3 a b c assms by (auto simp: digit_char_facts Let_def)
qed

lemma parse4_dot: "0 < d \<Longrightarrow> cs \<noteq> [] \<Longrightarrow> length acc < 3 \<Longrightarrow> parse4 v d acc (CHR ''.'' # cs) = parse4 0 0 (acc @ [word_of_nat v]) cs"
  by (simp add: is_digit_def)

lemma parse4_string4: "parse4 0 0 [] (string4 [a, b, c, d]) = Some [a, b, c, d]"
proof -
  have step: "parse4 0 0 acc (decimal (unat x) @ CHR ''.'' # cs) = parse4 0 0 (acc @ [x]) cs"
    if "cs \<noteq> []" "length acc < 3" for x :: byte and acc cs
  proof -
    obtain k where "0 < k" "parse4 0 0 acc (decimal (unat x) @ CHR ''.'' # cs) = parse4 (unat x) k acc (CHR ''.'' # cs)"
      using parse4_decimal [OF unat_bound(1) [of x], of acc "CHR ''.'' # cs"] by blast
    then show ?thesis using that by (simp add: parse4_dot del: parse4.simps)
  qed
  have stop: "parse4 0 0 acc (decimal (unat x)) = Some (acc @ [x])" if "length acc = 3" for x :: byte and acc
  proof -
    obtain k where "0 < k" "parse4 0 0 acc (decimal (unat x) @ []) = parse4 (unat x) k acc []"
      using parse4_decimal [OF unat_bound(1) [of x], of acc "[]"] by blast
    then show ?thesis using that by simp
  qed
  show ?thesis by (simp add: step stop)
qed

lemma ParseAddr_String4: "ParseAddr (Addr_String (A4 w)) = Some (A4 w)"
proof -
  obtain a b c d where p: "put_be 4 (unat w) = [a, b, c, d]"
    using length_put_be [of "Suc (Suc (Suc (Suc 0)))" "unat w"] by (auto simp: numeral_eq_Suc length_Suc_conv simp del: length_put_be)
  have f: "find (\<lambda>c. c \<in> {CHR ''.'', CHR '':'', CHR ''%''}) (decimal n @ CHR ''.'' # cs) = Some CHR ''.''" for n cs
  proof -
    have "find (\<lambda>c. c \<in> {CHR ''.'', CHR '':'', CHR ''%''}) (xs @ CHR ''.'' # cs) = Some CHR ''.''"
      if "\<forall>c \<in> set xs. is_digit c" for xs
      using that by (induction xs) (auto simp: is_digit_def)
    then show ?thesis using decimal_digits by blast
  qed
  have "be32 [a, b, c, d] = w" using be_put(2) [of w "[]"] by (simp add: put_be32_def p)
  then show ?thesis using parse4_string4 [of a b c d] f by (simp add: ParseAddr_def Addr_String_def p)
qed

end
