(* ===== verification/Forwards.thy ===== *)
theory Forwards
  imports NetText "HOL-Library.Char_ord"
begin

text \<open>
  The port forwards of a gateway (\<^verbatim>\<open>internal/gateway/forwards.go\<close>): adding, deleting and declaratively
  replacing rules. Listeners and the table of remote forwards belong to slirpnetstack; their
  operations are the fields of \<^verbatim>\<open>fwd_pkg\<close>. What such an operation answers may depend on all calls made
  before, so those that can fail take the log of calls as an argument.
\<close>

section \<open>State\<close>

record ForwardSpec =
  fs_Type :: string
  fs_Network :: string
  fs_Bind :: string
  fs_Host :: string

record ForwardRec =
  f_ID :: string
  f_Type :: string
  f_Network :: string
  f_Bind :: string
  f_Host :: string

text \<open>Listeners are opaque; the key of a remote forward is chosen by the table.\<close>

record forwardRec =
  fr_rec :: ForwardRec
  fr_listener :: "nat option"
  fr_key :: string

type_synonym FwdAddr = nat

datatype fwd_call = PrimeArp net_IP | Listen string FwdAddr | TableAdd FwdAddr | CloseListener nat | TableRemove string string

record fwd_pkg =
  NewFwdAddr :: "string \<Rightarrow> string \<Rightarrow> string \<Rightarrow> string \<Rightarrow> string \<Rightarrow> FwdAddr option"
  fwd_listen :: "fwd_call list \<Rightarrow> string \<Rightarrow> FwdAddr \<Rightarrow> nat option"
  fwd_table_add :: "fwd_call list \<Rightarrow> FwdAddr \<Rightarrow> string option"

record fwdState =
  fwdSeq :: nat
  forwards :: "(string, forwardRec) gomap"
  fwd_calls :: "fwd_call list"

definition newForwards :: fwdState where
  "newForwards = \<lparr>fwdSeq = 0, forwards = [], fwd_calls = []\<rparr>"

datatype fwd_error = BadBind string | BadHost string | BadFwdAddr | ListenFailed | BadNetwork string | TableRefused
  | BadType string | ForwardNotFound string | DuplicateForward ForwardSpec | AddFailed ForwardSpec fwd_error

definition call :: "fwd_call \<Rightarrow> fwdState \<Rightarrow> fwdState" where
  "call c st = st\<lparr>fwd_calls := fwd_calls st @ [c]\<rparr>"

section \<open>Adding and deleting\<close>

definition record_forward :: "ForwardRec \<Rightarrow> nat option \<Rightarrow> string \<Rightarrow> fwdState \<Rightarrow> (fwd_error + ForwardRec) \<times> fwdState" where
  "record_forward r ln key st =
     (let n = Suc (fwdSeq st); r' = r\<lparr>f_ID := ''fwd-'' @ decimal n\<rparr>
      in (Inr r', st\<lparr>fwdSeq := n, forwards := mput (f_ID r') \<lparr>fr_rec = r', fr_listener = ln, fr_key = key\<rparr> (forwards st)\<rparr>))"

definition add_local :: "fwd_pkg \<Rightarrow> string \<Rightarrow> string \<Rightarrow> FwdAddr \<Rightarrow> ForwardRec \<Rightarrow> fwdState \<Rightarrow> (fwd_error + ForwardRec) \<times> fwdState" where
  "add_local pkg network hostH rf r st =
     (let st1 = (case ParseIP hostH of
            Some ip \<Rightarrow> if To4 ip \<noteq> [] then call (PrimeArp ip) st else st
          | None \<Rightarrow> st)
      in if network \<noteq> ''tcp'' \<and> network \<noteq> ''udp'' then (Inl (BadNetwork network), st1)
         else (case fwd_listen pkg (fwd_calls st1) network rf of
             None \<Rightarrow> (Inl ListenFailed, call (Listen network rf) st1)
           | Some ln \<Rightarrow> record_forward r (Some ln) [] (call (Listen network rf) st1)))"

definition add_remote :: "fwd_pkg \<Rightarrow> FwdAddr \<Rightarrow> ForwardRec \<Rightarrow> fwdState \<Rightarrow> (fwd_error + ForwardRec) \<times> fwdState" where
  "add_remote pkg rf r st = (case fwd_table_add pkg (fwd_calls st) rf of
       None \<Rightarrow> (Inl TableRefused, call (TableAdd rf) st)
     | Some key \<Rightarrow> record_forward r None key (call (TableAdd rf) st))"

definition AddForward :: "fwd_pkg \<Rightarrow> string \<Rightarrow> string \<Rightarrow> string \<Rightarrow> string \<Rightarrow> fwdState \<Rightarrow> (fwd_error + ForwardRec) \<times> fwdState" where
  "AddForward pkg typ network bnd host st = (case SplitHostPort bnd of
       None \<Rightarrow> (Inl (BadBind bnd), st)
     | Some (bindH, bindP) \<Rightarrow> (case SplitHostPort host of
           None \<Rightarrow> (Inl (BadHost host), st)
         | Some (hostH, hostP) \<Rightarrow> (case NewFwdAddr pkg network bindH bindP hostH hostP of
               None \<Rightarrow> (Inl BadFwdAddr, st)
             | Some rf \<Rightarrow>
                 (let r = \<lparr>f_ID = [], f_Type = typ, f_Network = network, f_Bind = bnd, f_Host = host\<rparr> in
                  if typ = ''local'' then add_local pkg network hostH rf r st
                  else if typ = ''remote'' then add_remote pkg rf r st
                  else (Inl (BadType typ), st)))))"

text \<open>A local record always has its listener, see \<^verbatim>\<open>fwd_wf\<close> below.\<close>

definition DeleteForward :: "string \<Rightarrow> fwdState \<Rightarrow> fwd_error option \<times> fwdState" where
  "DeleteForward i st = (case mget (forwards st) i of
       None \<Rightarrow> (Some (ForwardNotFound i), st)
     | Some rec \<Rightarrow>
         (let st1 = st\<lparr>forwards := mdel i (forwards st)\<rparr>; r = fr_rec rec in
          (None, if f_Type r = ''local'' then (case fr_listener rec of Some ln \<Rightarrow> call (CloseListener ln) st1 | None \<Rightarrow> st1)
                 else if f_Type r = ''remote'' then call (TableRemove (f_Network r) (fr_key rec)) st1
                 else st1)))"

definition ListForwards :: "fwdState \<Rightarrow> ForwardRec list" where
  "ListForwards st = sort_key f_ID (map (fr_rec \<circ> snd) (forwards st))"

definition closeForwards :: "fwdState \<Rightarrow> fwdState" where
  "closeForwards st = fold (\<lambda>rec s. case fr_listener rec of Some ln \<Rightarrow> call (CloseListener ln) s | None \<Rightarrow> s)
     (map snd (forwards st)) (st\<lparr>forwards := []\<rparr>)"

section \<open>Replacing the rules\<close>

definition spec_key :: "ForwardSpec \<Rightarrow> string" where
  "spec_key s = fs_Type s @ ''|'' @ fs_Network s @ ''|'' @ fs_Bind s @ ''|'' @ fs_Host s"

definition spec_of :: "ForwardRec \<Rightarrow> ForwardSpec" where
  "spec_of r = \<lparr>fs_Type = f_Type r, fs_Network = f_Network r, fs_Bind = f_Bind r, fs_Host = f_Host r\<rparr>"

fun build_want :: "ForwardSpec list \<Rightarrow> (string, ForwardSpec) gomap \<Rightarrow> fwd_error + (string, ForwardSpec) gomap" where
  "build_want [] want = Inr want"
| "build_want (d # ds) want =
     (if mget want (spec_key d) \<noteq> None then Inl (DuplicateForward d)
      else build_want ds (mput (spec_key d) d want))"

text \<open>The first pass: the keys kept and the identifiers to delete.\<close>

fun drop_unwanted :: "(string, ForwardSpec) gomap \<Rightarrow> (string \<times> forwardRec) list \<Rightarrow> string list \<Rightarrow> string list \<times> string list" where
  "drop_unwanted want [] have = (have, [])"
| "drop_unwanted want ((i, rec) # fs) have =
     (let k = spec_key (spec_of (fr_rec rec)) in
      if mget want k \<noteq> None \<and> k \<notin> set have then drop_unwanted want fs (k # have)
      else (let (h, del) = drop_unwanted want fs have in (h, i # del)))"

text \<open>The second pass.\<close>

fun add_missing :: "fwd_pkg \<Rightarrow> string list \<Rightarrow> (string \<times> ForwardSpec) list \<Rightarrow> fwdState \<Rightarrow> fwd_error option \<times> fwdState" where
  "add_missing pkg have [] st = (None, st)"
| "add_missing pkg have ((k, d) # ds) st =
     (if k \<in> set have then add_missing pkg have ds st
      else (case AddForward pkg (fs_Type d) (fs_Network d) (fs_Bind d) (fs_Host d) st of
          (Inl e, st1) \<Rightarrow> (Some (AddFailed d e), st1)
        | (Inr _, st1) \<Rightarrow> add_missing pkg have ds st1))"

definition ReplaceForwards :: "fwd_pkg \<Rightarrow> ForwardSpec list \<Rightarrow> fwdState \<Rightarrow> (fwd_error option \<times> ForwardRec list) \<times> fwdState" where
  "ReplaceForwards pkg desired st = (case build_want desired [] of
       Inl e \<Rightarrow> ((Some e, []), st)
     | Inr want \<Rightarrow>
         (let (have, del) = drop_unwanted want (forwards st) [];
              st1 = fold (\<lambda>i s. snd (DeleteForward i s)) del st;
              (e, st2) = add_missing pkg have want st1
          in ((e, ListForwards st2), st2)))"

section \<open>Well-formed forwards\<close>

definition fwd_id :: "nat \<Rightarrow> string" where
  "fwd_id n = ''fwd-'' @ decimal n"

definition rec_ok :: "nat \<Rightarrow> string \<Rightarrow> forwardRec \<Rightarrow> bool" where
  "rec_ok seq i rec \<longleftrightarrow> f_ID (fr_rec rec) = i \<and> (\<exists>n \<le> seq. i = fwd_id n)
     \<and> f_Type (fr_rec rec) \<in> {''local'', ''remote''}
     \<and> (f_Type (fr_rec rec) = ''local'' \<longrightarrow> fr_listener rec \<noteq> None)"

definition fwd_wf :: "fwdState \<Rightarrow> bool" where
  "fwd_wf st \<longleftrightarrow> mwf (forwards st) \<and> (\<forall>i rec. mget (forwards st) i = Some rec \<longrightarrow> rec_ok (fwdSeq st) i rec)"


lemma decimal_value: "fold (\<lambda>c a. a * 10 + digit_val c) (decimal n) 0 = n"
proof (induction n rule: decimal.induct)
  case (1 n)
  show ?case
  proof (cases "n < 10")
    case True
    then show ?thesis by (simp add: decimal.simps digit_char_facts)
  next
    case False
    then show ?thesis using 1 by (subst decimal.simps) (simp add: digit_char_facts)
  qed
qed

lemma decimal_inj: "decimal m = decimal n \<longleftrightarrow> m = n"
  by (metis decimal_value)

lemma fwd_id_inj: "fwd_id m = fwd_id n \<longleftrightarrow> m = n"
  by (simp add: fwd_id_def decimal_inj)

lemma fwd_wf_new [simp]: "fwd_wf newForwards"
  by (simp add: fwd_wf_def newForwards_def)

lemma fwd_wf_call [simp]: "fwd_wf (call c st) = fwd_wf st"
  by (simp add: fwd_wf_def call_def)

lemma forwards_call [simp]: "forwards (call c st) = forwards st" "fwdSeq (call c st) = fwdSeq st"
  by (simp_all add: call_def)

text \<open>A new identifier is fresh.\<close>

lemma fresh_id:
  assumes "fwd_wf st" "fwdSeq st < n"
  shows "mget (forwards st) (fwd_id n) = None"
proof (rule ccontr)
  assume "mget (forwards st) (fwd_id n) \<noteq> None"
  then obtain rec where "rec_ok (fwdSeq st) (fwd_id n) rec" using assms(1) by (auto simp: fwd_wf_def)
  then show False using assms(2) by (auto simp: rec_ok_def fwd_id_inj)
qed

lemma rec_ok_mono: "rec_ok m i rec \<Longrightarrow> m \<le> n \<Longrightarrow> rec_ok n i rec"
  unfolding rec_ok_def by (meson le_trans)

definition rule_key :: "forwardRec \<Rightarrow> string" where
  "rule_key rec = spec_key (spec_of (fr_rec rec))"

lemma record_forward_ok:
  assumes "fwd_wf st" "record_forward r ln key st = (x, st')" "f_Type r \<in> {''local'', ''remote''}"
    "f_Type r = ''local'' \<longrightarrow> ln \<noteq> None"
  obtains i rec where "fwd_wf st'" "mget (forwards st) i = None" "forwards st' = mput i rec (forwards st)"
    "rule_key rec = spec_key (spec_of r)" "x = Inr (fr_rec rec)"
proof -
  let ?i = "fwd_id (Suc (fwdSeq st))"
  let ?rec = "\<lparr>fr_rec = r\<lparr>f_ID := ?i\<rparr>, fr_listener = ln, fr_key = key\<rparr>"
  have st': "st' = st\<lparr>fwdSeq := Suc (fwdSeq st), forwards := mput ?i ?rec (forwards st)\<rparr>" and x: "x = Inr (fr_rec ?rec)"
    using assms(2) by (auto simp: record_forward_def Let_def fwd_id_def)
  have "rec_ok (Suc (fwdSeq st)) ?i ?rec" using assms(3,4) by (auto simp: rec_ok_def)
  then have "fwd_wf st'" using assms(1) rec_ok_mono [of "fwdSeq st" _ _ "Suc (fwdSeq st)"]
    by (simp add: fwd_wf_def st' mget_mput)
  then show thesis using that [of ?i ?rec] fresh_id [OF assms(1), of "Suc (fwdSeq st)"] x
    by (simp add: st' rule_key_def spec_of_def)
qed

lemma AddForward_fails:
  assumes "AddForward pkg typ network bnd host st = (Inl e, st')" "fwd_wf st"
  shows "fwd_wf st'" "forwards st' = forwards st"
  using assms
  by (auto simp: AddForward_def add_local_def add_remote_def record_forward_def Let_def
      split: option.splits if_splits prod.splits)

lemma add_local_ok:
  assumes "add_local pkg network hostH rf r st = (Inr x, st')" "fwd_wf st"
  obtains st1 ln where "fwd_wf st1" "forwards st1 = forwards st" "record_forward r (Some ln) [] st1 = (Inr x, st')"
proof -
  let ?st1 = "case ParseIP hostH of Some ip \<Rightarrow> if To4 ip \<noteq> [] then call (PrimeArp ip) st else st | None \<Rightarrow> st"
  have s1: "fwd_wf (call c ?st1)" "forwards (call c ?st1) = forwards st" for c
    using assms(2) by (simp_all split: option.splits)
  obtain ln where "record_forward r (Some ln) [] (call (Listen network rf) ?st1) = (Inr x, st')"
    using assms(1) by (auto simp: add_local_def Let_def split: option.splits if_splits)
  then show thesis by (rule that [OF s1])
qed

lemma add_remote_ok:
  assumes "add_remote pkg rf r st = (Inr x, st')" "fwd_wf st"
  obtains st1 key where "fwd_wf st1" "forwards st1 = forwards st" "record_forward r None key st1 = (Inr x, st')"
  using assms by (auto simp: add_remote_def split: option.splits intro: that [rotated 2])

lemma AddForward_ok:
  assumes "AddForward pkg typ network bnd host st = (Inr r, st')" "fwd_wf st"
  obtains i rec where "fwd_wf st'" "mget (forwards st) i = None" "forwards st' = mput i rec (forwards st)"
    "rule_key rec = spec_key \<lparr>fs_Type = typ, fs_Network = network, fs_Bind = bnd, fs_Host = host\<rparr>" "r = fr_rec rec"
proof -
  let ?r = "\<lparr>f_ID = [], f_Type = typ, f_Network = network, f_Bind = bnd, f_Host = host\<rparr>"
  obtain hostH rf where
    cs: "typ = ''local'' \<and> add_local pkg network hostH rf ?r st = (Inr r, st')
       \<or> typ = ''remote'' \<and> add_remote pkg rf ?r st = (Inr r, st')"
    using assms(1) by (auto simp: AddForward_def Let_def split: option.splits if_splits prod.splits)
  obtain st1 ln key where st1: "fwd_wf st1" "forwards st1 = forwards st" "record_forward ?r ln key st1 = (Inr r, st')"
    and ty: "typ \<in> {''local'', ''remote''}" "typ = ''local'' \<longrightarrow> ln \<noteq> None"
    using cs
  proof
    assume l: "typ = ''local'' \<and> add_local pkg network hostH rf ?r st = (Inr r, st')"
    show thesis by (rule add_local_ok [OF conjunct2 [OF l] assms(2)]) (rule that, use l in auto)
  next
    assume l: "typ = ''remote'' \<and> add_remote pkg rf ?r st = (Inr r, st')"
    show thesis by (rule add_remote_ok [OF conjunct2 [OF l] assms(2)]) (rule that, use l in auto)
  qed
  show thesis by (rule record_forward_ok [OF st1(1,3)]) (use ty st1(2) that in \<open>auto simp: spec_of_def\<close>)
qed

lemma DeleteForward_forwards: "forwards (snd (DeleteForward i st)) = (if mget (forwards st) i = None then forwards st else mdel i (forwards st))"
  by (auto simp: DeleteForward_def Let_def split: option.splits)

lemma fwd_wf_Delete [simp]: "fwd_wf st \<Longrightarrow> fwd_wf (snd (DeleteForward i st))"
  by (auto simp: DeleteForward_def Let_def fwd_wf_def mget_mdel call_def split: option.splits)

lemma deletes:
  assumes "fwd_wf st"
  shows "fwd_wf (fold (\<lambda>i s. snd (DeleteForward i s)) del st)"
    "mget (forwards (fold (\<lambda>i s. snd (DeleteForward i s)) del st)) j = (if j \<in> set del then None else mget (forwards st) j)"
  using assms by (induction del arbitrary: st) (auto simp: DeleteForward_forwards mget_mdel)

section \<open>Convergence\<close>

definition installed :: "fwdState \<Rightarrow> string set" where
  "installed st = {rule_key rec | i rec. mget (forwards st) i = Some rec}"

definition rules_unique :: "fwdState \<Rightarrow> bool" where
  "rules_unique st \<longleftrightarrow> (\<forall>i j p q. mget (forwards st) i = Some p \<and> mget (forwards st) j = Some q \<and> rule_key p = rule_key q \<longrightarrow> i = j)"

lemma dom_mget: "mget m k \<noteq> None \<longleftrightarrow> k \<in> fst ` set m"
  by (simp add: mget_None_iff)

definition want_ok :: "(string, ForwardSpec) gomap \<Rightarrow> bool" where
  "want_ok want \<longleftrightarrow> mwf want \<and> (\<forall>e \<in> set want. spec_key (snd e) = fst e)"

lemma want_ok_put:
  assumes "want_ok want"
  shows "want_ok (mput (spec_key d) d want)"
proof -
  have "spec_key (snd e) = fst e" if e: "e \<in> set (mput (spec_key d) d want)" for e
  proof (cases "fst e = spec_key d")
    case True
    have "mget (mput (spec_key d) d want) (fst e) = Some (snd e)"
      using e assms by (intro mem_mget) (simp_all add: want_ok_def)
    then show ?thesis using True by (simp add: mget_mput)
  next
    case False
    have "mget (mput (spec_key d) d want) (fst e) = Some (snd e)"
      using e assms by (intro mem_mget) (simp_all add: want_ok_def)
    then have "mget want (fst e) = Some (snd e)" using False by (simp add: mget_mput)
    then show ?thesis using assms mget_Some_mem [of want "fst e" "snd e"] by (simp add: want_ok_def)
  qed
  then show ?thesis using assms by (simp add: want_ok_def)
qed

lemma build_want_ok:
  "build_want ds want = Inr want' \<Longrightarrow> want_ok want \<Longrightarrow>
     want_ok want' \<and> fst ` set want' = fst ` set want \<union> set (map spec_key ds)"
proof (induction ds arbitrary: want)
  case (Cons d ds)
  have b: "build_want ds (mput (spec_key d) d want) = Inr want'"
    using Cons.prems(1) by (simp split: if_splits)
  have "fst ` set (mput (spec_key d) d want) = insert (spec_key d) (fst ` set want)"
    by (simp add: set_eq_iff dom_mget [symmetric] mget_mput)
  then show ?case using Cons.IH [OF b want_ok_put [OF Cons.prems(2)]] by simp
qed simp

text \<open>The rules the first pass keeps.\<close>

fun kept :: "(string, ForwardSpec) gomap \<Rightarrow> (string \<times> forwardRec) list \<Rightarrow> string list \<Rightarrow> (string \<times> forwardRec) list" where
  "kept want [] have = []"
| "kept want (e # fs) have =
     (if mget want (rule_key (snd e)) \<noteq> None \<and> rule_key (snd e) \<notin> set have
      then e # kept want fs (rule_key (snd e) # have) else kept want fs have)"

lemma kept_subset: "set (kept want fs have) \<subseteq> set fs"
  by (induction fs arbitrary: "have") auto

lemma kept_fresh: "e \<in> set (kept want fs have) \<Longrightarrow> rule_key (snd e) \<notin> set have \<and> mget want (rule_key (snd e)) \<noteq> None"
proof (induction fs arbitrary: "have")
  case (Cons a fs)
  then show ?case using Cons.IH [of "have"] Cons.IH [of "rule_key (snd a) # have"] by (auto split: if_splits)
qed simp

lemma kept_distinct: "distinct (map (rule_key \<circ> snd) (kept want fs have))"
proof (induction fs arbitrary: "have")
  case (Cons a fs)
  have "rule_key (snd a) \<notin> (rule_key \<circ> snd) ` set (kept want fs (rule_key (snd a) # have))"
    using kept_fresh by fastforce
  then show ?case using Cons.IH by simp
qed simp

lemma kept_complete:
  assumes "e \<in> set fs" "mget want (rule_key (snd e)) \<noteq> None"
  shows "rule_key (snd e) \<in> set have \<union> (rule_key \<circ> snd) ` set (kept want fs have)"
  using assms(1)
proof (induction fs arbitrary: "have")
  case (Cons a fs)
  consider "e = a" | "e \<in> set fs" using Cons.prems by auto
  then show ?case
  proof cases
    case 1
    then show ?thesis using assms(2) by auto
  next
    case 2
    show ?thesis using Cons.IH [OF 2, of "have"] Cons.IH [OF 2, of "rule_key (snd a) # have"] by auto
  qed
qed simp

lemma drop_unwanted_Cons:
  "drop_unwanted want (e # fs) have =
     (if mget want (rule_key (snd e)) \<noteq> None \<and> rule_key (snd e) \<notin> set have then drop_unwanted want fs (rule_key (snd e) # have)
      else (fst (drop_unwanted want fs have), fst e # snd (drop_unwanted want fs have)))"
  by (cases e) (simp add: rule_key_def Let_def split: prod.splits)

lemma drop_unwanted_have:
  "fst (drop_unwanted want fs have) = rev (map (rule_key \<circ> snd) (kept want fs have)) @ have"
  by (induction fs arbitrary: "have") (simp_all add: drop_unwanted_Cons)

lemma drop_unwanted_ids: "set (snd (drop_unwanted want fs have)) \<subseteq> fst ` set fs"
proof (induction fs arbitrary: "have")
  case (Cons a fs)
  show ?case using Cons.IH [of "have"] Cons.IH [of "rule_key (snd a) # have"] by (auto simp: drop_unwanted_Cons)
qed simp

lemma drop_unwanted_del:
  assumes "distinct (map fst fs)" "e \<in> set fs"
  shows "fst e \<in> set (snd (drop_unwanted want fs have)) \<longleftrightarrow> e \<notin> set (kept want fs have)"
  using assms
proof (induction fs arbitrary: "have")
  case (Cons a fs)
  have a: "fst a \<notin> fst ` set fs" using Cons.prems(1) by simp
  show ?case
  proof (cases "e = a")
    case True
    have "fst a \<notin> set (snd (drop_unwanted want fs hv))" "a \<notin> set (kept want fs hv)" for hv
      using a drop_unwanted_ids [of want fs hv] kept_subset [of want fs hv] by auto
    then show ?thesis using True by (simp add: drop_unwanted_Cons)
  next
    case False
    then have m: "e \<in> set fs" using Cons.prems(2) by simp
    then have e: "e \<in> set fs" "fst e \<noteq> fst a" using a by (simp, metis imageI)
    show ?thesis using Cons.IH [OF _ e(1)] Cons.prems(1) e(2) False by (simp add: drop_unwanted_Cons)
  qed
qed simp


lemma first_pass:
  assumes wf: "fwd_wf st" and dr: "drop_unwanted want (forwards st) [] = (h, del)"
  defines "st1 \<equiv> fold (\<lambda>i s. snd (DeleteForward i s)) del st"
  shows "fwd_wf st1" "mget (forwards st1) i = Some rec \<longleftrightarrow> (i, rec) \<in> set (kept want (forwards st) [])"
proof -
  show "fwd_wf st1" unfolding st1_def by (rule deletes(1) [OF wf])
  have dist: "distinct (map fst (forwards st))" and mw: "mwf (forwards st)" using wf by (simp_all add: fwd_wf_def mwf_def)
  have m: "mget (forwards st1) i = (if i \<in> set del then None else mget (forwards st) i)"
    unfolding st1_def by (rule deletes(2) [OF wf])
  show "mget (forwards st1) i = Some rec \<longleftrightarrow> (i, rec) \<in> set (kept want (forwards st) [])"
  proof
    assume g: "mget (forwards st1) i = Some rec"
    then have "(i, rec) \<in> set (forwards st)" "i \<notin> set del"
      using m mget_Some_mem [of "forwards st" i rec] by (auto split: if_splits)
    then show "(i, rec) \<in> set (kept want (forwards st) [])"
      using drop_unwanted_del [OF dist, of "(i, rec)" want "[]"] dr by simp
  next
    assume k: "(i, rec) \<in> set (kept want (forwards st) [])"
    then have f: "(i, rec) \<in> set (forwards st)" using kept_subset by blast
    then have "i \<notin> set del" using drop_unwanted_del [OF dist f, of want "[]"] k dr by simp
    then show "mget (forwards st1) i = Some rec" using m mem_mget [OF mw f] by simp
  qed
qed

lemma first_pass_keys:
  assumes wf: "fwd_wf st" and dr: "drop_unwanted want (forwards st) [] = (h, del)"
  shows "rules_unique (fold (\<lambda>i s. snd (DeleteForward i s)) del st)"
    "installed (fold (\<lambda>i s. snd (DeleteForward i s)) del st) = set h" "set h \<subseteq> fst ` set want"
proof -
  let ?st1 = "fold (\<lambda>i s. snd (DeleteForward i s)) del st" and ?K = "kept want (forwards st) []"
  note p1 = first_pass [OF wf dr]
  have h: "set h = (rule_key \<circ> snd) ` set ?K" using drop_unwanted_have [of want "forwards st" "[]"] dr by simp
  show "installed ?st1 = set h" unfolding h installed_def p1(2) by force
  show "rules_unique ?st1"
    unfolding rules_unique_def p1(2)
  proof (intro allI impI)
    fix i j p q assume "(i, p) \<in> set ?K \<and> (j, q) \<in> set ?K \<and> rule_key p = rule_key q"
    moreover have "inj_on (rule_key \<circ> snd) (set ?K)" using kept_distinct [of want "forwards st" "[]"] by (simp add: distinct_map)
    ultimately have "(i, p) = (j, q)" using inj_onD [of "rule_key \<circ> snd" "set ?K" "(i, p)" "(j, q)"] by simp
    then show "i = j" by simp
  qed
  show "set h \<subseteq> fst ` set want"
  proof
    fix k assume "k \<in> set h"
    then obtain e where "e \<in> set ?K" "k = rule_key (snd e)" unfolding h by auto
    then show "k \<in> fst ` set want" using kept_fresh [of e want "forwards st" "[]"] dom_mget [of want k] by blast
  qed
qed

lemma installed_put:
  "mget (forwards st) i = None \<Longrightarrow> forwards st' = mput i rec (forwards st) \<Longrightarrow> installed st' = insert (rule_key rec) (installed st)"
  by (auto simp: installed_def mget_mput) (metis option.simps(3))+

lemma rules_unique_put:
  assumes "rules_unique st" "forwards st' = mput i rec (forwards st)" "rule_key rec \<notin> installed st"
  shows "rules_unique st'"
proof -
  have "rule_key p \<noteq> rule_key rec" if "mget (forwards st) j = Some p" for j p
    using assms(3) that by (auto simp: installed_def)
  then show ?thesis using assms(1,2) unfolding rules_unique_def by (simp add: mget_mput) metis
qed

lemma second_pass:
  assumes "add_missing pkg have ds st = (None, st')" "fwd_wf st" "rules_unique st"
    and "distinct (map fst ds)" "\<forall>e \<in> set ds. spec_key (snd e) = fst e" "fst ` set ds \<inter> installed st \<subseteq> set have"
  shows "fwd_wf st' \<and> rules_unique st' \<and> installed st' = installed st \<union> (fst ` set ds - set have)
    \<and> (\<forall>i rec. mget (forwards st) i = Some rec \<longrightarrow> mget (forwards st') i = Some rec)"
  using assms
proof (induction pkg "have" ds st rule: add_missing.induct)
  case (2 pkg "have" k d ds st)
  show ?case
  proof (cases "k \<in> set have")
    case True
    then have "add_missing pkg have ds st = (None, st')" using "2.prems"(1) by simp
    then show ?thesis using "2.IH"(1) [OF True] "2.prems" True by auto
  next
    case False
    obtain r st1 where a: "AddForward pkg (fs_Type d) (fs_Network d) (fs_Bind d) (fs_Host d) st = (Inr r, st1)"
      "add_missing pkg have ds st1 = (None, st')"
      using "2.prems"(1) False by (auto split: prod.splits sum.splits)
    obtain i rec where s1: "fwd_wf st1" "mget (forwards st) i = None" "forwards st1 = mput i rec (forwards st)"
      and "rule_key rec = spec_key \<lparr>fs_Type = fs_Type d, fs_Network = fs_Network d, fs_Bind = fs_Bind d, fs_Host = fs_Host d\<rparr>"
      by (rule AddForward_ok [OF a(1) "2.prems"(2)])
    then have k: "rule_key rec = k" using "2.prems"(5) by (cases d) simp
    have new: "k \<notin> installed st" using "2.prems"(6) False by auto
    have u: "rules_unique st1" by (rule rules_unique_put [OF "2.prems"(3) s1(3)]) (use k new in simp)
    have ins: "installed st1 = insert k (installed st)" using installed_put [OF s1(2,3)] k by simp
    have "fst ` set ds \<inter> installed st1 \<subseteq> set have" using "2.prems"(4,6) ins by auto
    from "2.IH"(2) [OF False a(1) [symmetric] refl a(2) s1(1) u _ _ this] "2.prems"(4,5)
    have "fwd_wf st' \<and> rules_unique st' \<and> installed st' = installed st1 \<union> (fst ` set ds - set have)
      \<and> (\<forall>i rec. mget (forwards st1) i = Some rec \<longrightarrow> mget (forwards st') i = Some rec)" by simp
    moreover have "mget (forwards st1) j = Some q" if "mget (forwards st) j = Some q" for j q
      using that s1(2,3) by (auto simp: mget_mput)
    ultimately show ?thesis using ins False by auto
  qed
qed simp


section \<open>Properties\<close>

text \<open>
  C18. Replacing the forwards of a gateway converges: when it reports no error, exactly the desired rules are
  installed, each once, and for every desired rule that was installed before one of its
  instances is left alone, with its identifier and its listener.
\<close>

theorem replace_forwards_converges:
  assumes "fwd_wf st" "ReplaceForwards pkg desired st = ((None, rs), st')"
  shows "fwd_wf st' \<and> rules_unique st' \<and> installed st' = set (map spec_key desired)
    \<and> (\<forall>k \<in> set (map spec_key desired) \<inter> installed st. \<exists>i rec. rule_key rec = k
         \<and> mget (forwards st) i = Some rec \<and> mget (forwards st') i = Some rec)"
proof -
  obtain want h del where w: "build_want desired [] = Inr want" and dr: "drop_unwanted want (forwards st) [] = (h, del)"
    and am: "add_missing pkg h want (fold (\<lambda>i s. snd (DeleteForward i s)) del st) = (None, st')"
    using assms(2) by (auto simp: ReplaceForwards_def split: sum.splits prod.splits)
  let ?st1 = "fold (\<lambda>i s. snd (DeleteForward i s)) del st" and ?K = "kept want (forwards st) []"
  have ok: "want_ok want" "fst ` set want = set (map spec_key desired)"
    using build_want_ok [OF w] by (simp_all add: want_ok_def)
  note p1 = first_pass [OF assms(1) dr]
  note keys = first_pass_keys [OF assms(1) dr]
  have s2: "fwd_wf st' \<and> rules_unique st' \<and> installed st' = installed ?st1 \<union> (fst ` set want - set h)
    \<and> (\<forall>i rec. mget (forwards ?st1) i = Some rec \<longrightarrow> mget (forwards st') i = Some rec)"
    by (rule second_pass [OF am p1(1) keys(1)]) (use ok(1) keys(2) in \<open>auto simp: want_ok_def mwf_def\<close>)
  have old: "\<exists>i rec. rule_key rec = k \<and> mget (forwards st) i = Some rec \<and> mget (forwards st') i = Some rec"
    if k: "k \<in> set (map spec_key desired)" "k \<in> installed st" for k
  proof -
    obtain j q where jq: "mget (forwards st) j = Some q" "rule_key q = k" using k(2) by (auto simp: installed_def)
    have "mget want k \<noteq> None" unfolding dom_mget using k(1) ok(2) by simp
    then have "(j, q) \<in> set (forwards st)" "mget want (rule_key (snd (j, q))) \<noteq> None"
      using jq mget_Some_mem [of "forwards st" j q] by simp_all
    from kept_complete [OF this, of "[]"] obtain i rec where e: "(i, rec) \<in> set ?K" "rule_key rec = k"
      using \<open>rule_key q = k\<close> by auto
    have mw: "mwf (forwards st)" using assms(1) by (simp add: fwd_wf_def)
    have "mget (forwards st) i = Some rec" by (rule mem_mget [OF mw]) (use e(1) kept_subset in blast)
    moreover have "mget (forwards st') i = Some rec" using s2 e(1) p1(2) by blast
    ultimately show ?thesis using e(2) by blast
  qed
  have "installed st' = set (map spec_key desired)" using s2 keys(2,3) ok(2) by auto
  with s2 show ?thesis by (intro conjI ballI old) (simp_all only: Int_iff)
qed

definition ex_fwd_pkg :: fwd_pkg where
  "ex_fwd_pkg = \<lparr>NewFwdAddr = (\<lambda>network bindH bindP hostH hostP. Some 7), fwd_listen = (\<lambda>calls network rf. Some (length calls)),
     fwd_table_add = (\<lambda>calls rf. Some ''t'')\<rparr>"

definition ex_spec :: "string \<Rightarrow> ForwardSpec" where
  "ex_spec p = \<lparr>fs_Type = ''remote'', fs_Network = ''tcp'', fs_Bind = ''a:'' @ p, fs_Host = ''b:'' @ p\<rparr>"

theorem replace_forwards_converges_witness:
  "\<exists>rs st'. ReplaceForwards ex_fwd_pkg [ex_spec ''1'', ex_spec ''2''] newForwards = ((None, rs), st')
     \<and> installed st' = {spec_key (ex_spec ''1''), spec_key (ex_spec ''2'')}"
proof -
  have ne: "spec_key (ex_spec ''1'') \<noteq> spec_key (ex_spec ''2'')" by (simp add: spec_key_def ex_spec_def)
  have add: "\<exists>r st1. AddForward ex_fwd_pkg (fs_Type (ex_spec [c])) (fs_Network (ex_spec [c])) (fs_Bind (ex_spec [c]))
      (fs_Host (ex_spec [c])) st = (Inr r, st1)" if "c = CHR ''1'' \<or> c = CHR ''2''" for c st
    using that by (auto simp: AddForward_def ex_spec_def ex_fwd_pkg_def SplitHostPort_def last_index_def add_remote_def
        record_forward_def Let_def)
  have w: "build_want [ex_spec ''1'', ex_spec ''2''] [] =
      Inr [(spec_key (ex_spec ''1''), ex_spec ''1''), (spec_key (ex_spec ''2''), ex_spec ''2'')]"
    using ne by (simp add: mget_def mput_def)
  have "\<exists>st'. add_missing ex_fwd_pkg [] [(spec_key (ex_spec ''1''), ex_spec ''1''), (spec_key (ex_spec ''2''), ex_spec ''2'')] st
      = (None, st')" for st
  proof -
    obtain r1 st1 where "AddForward ex_fwd_pkg (fs_Type (ex_spec ''1'')) (fs_Network (ex_spec ''1'')) (fs_Bind (ex_spec ''1''))
      (fs_Host (ex_spec ''1'')) st = (Inr r1, st1)" using add [of "CHR ''1''" st] by blast
    moreover obtain r2 st2 where "AddForward ex_fwd_pkg (fs_Type (ex_spec ''2'')) (fs_Network (ex_spec ''2''))
      (fs_Bind (ex_spec ''2'')) (fs_Host (ex_spec ''2'')) st1 = (Inr r2, st2)" using add [of "CHR ''2''" st1] by blast
    ultimately show ?thesis by simp
  qed
  then obtain st' where "add_missing ex_fwd_pkg [] [(spec_key (ex_spec ''1''), ex_spec ''1''), (spec_key (ex_spec ''2''), ex_spec ''2'')]
      newForwards = (None, st')" by blast
  then obtain rs where r: "ReplaceForwards ex_fwd_pkg [ex_spec ''1'', ex_spec ''2''] newForwards = ((None, rs), st')"
    unfolding ReplaceForwards_def w by (simp add: newForwards_def del: add_missing.simps)
  show ?thesis using replace_forwards_converges [OF fwd_wf_new r] r by auto
qed

end
