(* ===== verification/Gateway.thy ===== *)
theory Gateway
  imports Dhcp4 Dhcp6 RouterAdv Forwards
begin

text \<open>
  A gateway (\<^verbatim>\<open>internal/gateway/gateway.go\<close>): its construction, the queue of frames the switch sends
  it, the worker that offers each frame to the DHCP and router advertisement services before it reaches the
  netstack, and closing. The netstack is third-party code: what reaches it is the list
  \<^verbatim>\<open>g_stack\<close>, and the frames the services answer with are the list \<^verbatim>\<open>g_out\<close>.
\<close>

section \<open>State\<close>

record gwConfig =
  gc_PortID :: string
  gc_MAC :: "byte list"
  gc_MTU :: u32
  gc_IPv4 :: "V4Config option"
  gc_IPv6 :: "V6Config option"
  gc_EnableInternetRouting :: bool
  gc_EnableHostRouting :: bool
  gc_Allow :: "string list"
  gc_Deny :: "string list"
  gc_DNSProxy :: bool

record Gateway =
  g_cfg :: gwConfig
  g_linkLocal :: net_IP
  g_dhcp4 :: dhcpServer
  g_dhcp6 :: dhcpServer
  g_ra :: raServer
  g_txq :: "(string \<times> byte list) list"
  g_done :: bool
  g_fwd :: fwdState
  g_stack :: "byte list list"
  g_out :: "out_frame list"

definition txQueueLen :: nat where "txQueueLen = 512"

text \<open>The accessors the services use.\<close>

definition addrs :: "Gateway \<Rightarrow> gw_addrs" where
  "addrs g = \<lparr>gw_IPv4 = gc_IPv4 (g_cfg g), gw_IPv6 = gc_IPv6 (g_cfg g), gw_MAC = gc_MAC (g_cfg g), gw_LinkLocal = g_linkLocal g\<rparr>"

text \<open>What the gateway calls outside its package.\<close>

record sns_pkg =
  sns_range_ok :: "string \<Rightarrow> bool"
  sns_ResolveLinkLocalV6 :: "string \<Rightarrow> byte list \<Rightarrow> net_IP option"
  sns_CreateNIC :: "gwConfig \<Rightarrow> bool"

record gw_pkgs =
  pk_header :: header_pkg
  pk_dhcp4 :: dhcpv4_pkg
  pk_dhcp6 :: dhcpv6_pkg
  pk_ndp :: ndp_serializer

section \<open>Construction\<close>

datatype gateway_error = NeedsFamily | NeedsMAC | NotIPv4 net_IP | NotIPv6 net_IP | BadAllow string | BadDeny string
  | BadLinkLocal | CreateNICFailed

definition check_family :: "gwConfig \<Rightarrow> gateway_error option" where
  "check_family cfg =
     (case gc_IPv4 cfg of Some v4 \<Rightarrow> if To4 (v4_Address v4) = [] then Some (NotIPv4 (v4_Address v4)) else None | None \<Rightarrow> None)"

definition check_family6 :: "gwConfig \<Rightarrow> gateway_error option" where
  "check_family6 cfg =
     (case gc_IPv6 cfg of
        Some v6 \<Rightarrow> if To4 (v6_Address v6) \<noteq> [] \<or> To16 (v6_Address v6) = [] then Some (NotIPv6 (v6_Address v6)) else None
      | None \<Rightarrow> None)"

definition llOverride :: "gwConfig \<Rightarrow> string" where
  "llOverride cfg = (case gc_IPv6 cfg of
       Some v6 \<Rightarrow> if v6_LinkLocal v6 \<noteq> [] then IP_String (v6_LinkLocal v6) else []
     | None \<Rightarrow> [])"

definition blank_gateway :: "gwConfig \<Rightarrow> net_IP \<Rightarrow> Gateway" where
  "blank_gateway cfg ll = \<lparr>g_cfg = cfg, g_linkLocal = ll, g_dhcp4 = newDHCPServer, g_dhcp6 = newDHCPServer,
     g_ra = newRAServer, g_txq = [], g_done = False, g_fwd = newForwards, g_stack = [], g_out = []\<rparr>"

definition NewGateway :: "sns_pkg \<Rightarrow> gwConfig \<Rightarrow> gateway_error + Gateway" where
  "NewGateway sns cfg0 =
     (if gc_IPv4 cfg0 = None \<and> gc_IPv6 cfg0 = None then Inl NeedsFamily
      else (let cfg = (if gc_MTU cfg0 = 0 then cfg0\<lparr>gc_MTU := 1500\<rparr> else cfg0) in
        if gc_MAC cfg = [] then Inl NeedsMAC
        else (case check_family cfg of Some e \<Rightarrow> Inl e | None \<Rightarrow>
             (case check_family6 cfg of Some e \<Rightarrow> Inl e | None \<Rightarrow>
             (case find (\<lambda>a. \<not> sns_range_ok sns a) (gc_Allow cfg) of Some a \<Rightarrow> Inl (BadAllow a) | None \<Rightarrow>
             (case find (\<lambda>a. \<not> sns_range_ok sns a) (gc_Deny cfg) of Some d \<Rightarrow> Inl (BadDeny d) | None \<Rightarrow>
             (case sns_ResolveLinkLocalV6 sns (llOverride cfg) (gc_MAC cfg) of None \<Rightarrow> Inl BadLinkLocal | Some ll \<Rightarrow>
                if \<not> sns_CreateNIC sns cfg then Inl CreateNICFailed
                else Inr (blank_gateway cfg ll))))))))"

section \<open>The port interface\<close>

definition GwSend :: "string \<Rightarrow> byte list \<Rightarrow> Gateway \<Rightarrow> bool \<times> Gateway" where
  "GwSend port frame g =
     (if g_done g then (False, g)
      else if length (g_txq g) < txQueueLen then (True, g\<lparr>g_txq := g_txq g @ [(port, frame)]\<rparr>)
      else (False, g))"

text \<open>The three handlers in the order they were registered; the first that consumes the frame ends the search.\<close>

definition runHandlers :: "gw_pkgs \<Rightarrow> time \<Rightarrow> string \<Rightarrow> byte list \<Rightarrow> Gateway \<Rightarrow> (bool \<times> Gateway) option" where
  "runHandlers pk now port frame g =
     (case handleFrame4 (pk_header pk) (pk_dhcp4 pk) (addrs g) now port frame (g_dhcp4 g) of
        None \<Rightarrow> None
      | Some (c4, out4, s4) \<Rightarrow>
          (let g = g\<lparr>g_dhcp4 := s4, g_out := g_out g @ out4\<rparr> in
           if c4 then Some (True, g)
           else (case handleFrame6 (pk_header pk) (pk_dhcp6 pk) (addrs g) now port frame (g_dhcp6 g) of
               None \<Rightarrow> None
             | Some (c6, out6, s6) \<Rightarrow>
                 (let g = g\<lparr>g_dhcp6 := s6, g_out := g_out g @ out6\<rparr> in
                  if c6 then Some (True, g)
                  else (case handleFrameRA (pk_header pk) (pk_ndp pk) (addrs g) frame (g_ra g) of
                      None \<Rightarrow> None
                    | Some (c, out) \<Rightarrow> Some (c, g\<lparr>g_out := g_out g @ out\<rparr>))))))"

text \<open>One turn of the worker that takes a frame from the queue; with an empty queue it waits.\<close>

definition txWorker :: "gw_pkgs \<Rightarrow> time \<Rightarrow> Gateway \<Rightarrow> Gateway option" where
  "txWorker pk now g = (case g_txq g of
       [] \<Rightarrow> Some g
     | (port, frame) # q \<Rightarrow>
         (case runHandlers pk now port frame (g\<lparr>g_txq := q\<rparr>) of
            None \<Rightarrow> None
          | Some (consumed, g') \<Rightarrow> Some (if consumed then g' else g'\<lparr>g_stack := g_stack g' @ [frame]\<rparr>)))"

definition GwPortDown :: "string \<Rightarrow> Gateway \<Rightarrow> Gateway" where
  "GwPortDown port g = g\<lparr>g_dhcp4 := PortDown4 port (g_dhcp4 g), g_dhcp6 := PortDown6 port (g_dhcp6 g)\<rparr>"

definition GwClose :: "Gateway \<Rightarrow> Gateway" where
  "GwClose g = (if g_done g then g else g\<lparr>g_done := True, g_fwd := closeForwards (g_fwd g)\<rparr>)"

section \<open>Runs\<close>

text \<open>
  The operations of a gateway. Those on its services are the ones of the control plane, without
  frames, which only the worker hands to them.
\<close>

datatype gw_op = SendFrame string "byte list" | Work time | OnDhcp4 dhcp_op | OnDhcp6 dhcp_op | OnRA SLAACConfig
  | OnPortDown string | OnClose

fun is_frame :: "dhcp_op \<Rightarrow> bool" where
  "is_frame (OpFrame _ _ _) = True"
| "is_frame _ = False"

text \<open>The second component collects the frames the gateway accepted.\<close>

fun exec_gw :: "gw_pkgs \<Rightarrow> gw_op \<Rightarrow> Gateway \<times> byte list list \<Rightarrow> (Gateway \<times> byte list list) option" where
  "exec_gw pk (SendFrame port frame) (g, acc) =
     (let (ok, g') = GwSend port frame g in Some (g', if ok then acc @ [frame] else acc))"
| "exec_gw pk (Work now) (g, acc) = map_option (\<lambda>g'. (g', acc)) (txWorker pk now g)"
| "exec_gw pk (OnDhcp4 op) (g, acc) =
     Some (if is_frame op then g else g\<lparr>g_dhcp4 := step4 (pk_header pk) (pk_dhcp4 pk) (addrs g) op (g_dhcp4 g)\<rparr>, acc)"
| "exec_gw pk (OnDhcp6 op) (g, acc) =
     Some (if is_frame op then g
           else g\<lparr>g_dhcp6 := step_op True (net6 (addrs g)) (handleFrame6 (pk_header pk) (pk_dhcp6 pk) (addrs g)) op (g_dhcp6 g)\<rparr>, acc)"
| "exec_gw pk (OnRA cfg) (g, acc) =
     Some (g\<lparr>g_ra := keep_on_error (g_ra g) (SetConfigRA (addrs g) cfg (g_ra g))\<rparr>, acc)"
| "exec_gw pk (OnPortDown port) (g, acc) = Some (GwPortDown port g, acc)"
| "exec_gw pk OnClose (g, acc) = Some (GwClose g, acc)"

definition run_gw :: "gw_pkgs \<Rightarrow> gw_op \<Rightarrow> (Gateway \<times> byte list list) option \<Rightarrow> (Gateway \<times> byte list list) option" where
  "run_gw pk op r = Option.bind r (exec_gw pk op)"

text \<open>The frames one of the services claims, whatever its configuration.\<close>

definition claimed :: "header_pkg \<Rightarrow> byte list \<Rightarrow> bool" where
  "claimed h frame \<longleftrightarrow> (case parseIngress h frame of
     Some (Some p) \<Rightarrow> isUDP4 p \<and> dstPort p = dhcp4ServerPort \<or> isUDP6 p \<and> dstPort p = dhcp6ServerPort
       \<or> isICMP6 p \<and> icmpTyp p = ICMPv6RouterSolicit
   | _ \<Rightarrow> False)"

definition gw_wf :: "Gateway \<Rightarrow> bool" where
  "gw_wf g \<longleftrightarrow> server_wf False (net4 (addrs g)) (g_dhcp4 g) \<and> server_wf True (net6 (addrs g)) (g_dhcp6 g)
     \<and> length (g_txq g) \<le> txQueueLen"


section \<open>Dispatch\<close>

lemma claims4:
  "handleFrame4 h pkg gw now port frame s = Some (c, out, s') \<Longrightarrow>
     (c \<longleftrightarrow> (\<exists>p. parseIngress h frame = Some (Some p) \<and> isUDP4 p \<and> dstPort p = dhcp4ServerPort)) \<and> (c \<or> out = [] \<and> s' = s)"
  by (auto simp: handleFrame4_def split: option.splits if_splits)

lemma claims6:
  "handleFrame6 h pkg gw now port frame s = Some (c, out, s') \<Longrightarrow>
     (c \<longleftrightarrow> (\<exists>p. parseIngress h frame = Some (Some p) \<and> isUDP6 p \<and> dstPort p = dhcp6ServerPort)) \<and> (c \<or> out = [] \<and> s' = s)"
  by (auto simp: handleFrame6_def split: option.splits if_splits decoded6.splits)

lemma claimsRA:
  "header_ok h \<Longrightarrow> \<exists>c out. handleFrameRA h ser gw frame s = Some (c, out)
     \<and> (c \<longleftrightarrow> (\<exists>p. parseIngress h frame = Some (Some p) \<and> isICMP6 p \<and> icmpTyp p = ICMPv6RouterSolicit)) \<and> (c \<or> out = [])"
  using parseIngress_total [of h frame]
  by (cases "parseIngress h frame") (auto simp: handleFrameRA_def split: option.splits if_splits)

lemma claimed_iff:
  "claimed h frame \<longleftrightarrow> (\<exists>p. parseIngress h frame = Some (Some p) \<and> (isUDP4 p \<and> dstPort p = dhcp4ServerPort
     \<or> isUDP6 p \<and> dstPort p = dhcp6ServerPort \<or> isICMP6 p \<and> icmpTyp p = ICMPv6RouterSolicit))"
  by (auto simp: claimed_def split: option.splits)

lemma addrs_update [simp]:
  "addrs (g\<lparr>g_dhcp4 := a\<rparr>) = addrs g" "addrs (g\<lparr>g_dhcp6 := a\<rparr>) = addrs g" "addrs (g\<lparr>g_ra := r\<rparr>) = addrs g"
  "addrs (g\<lparr>g_txq := q\<rparr>) = addrs g" "addrs (g\<lparr>g_done := d\<rparr>) = addrs g" "addrs (g\<lparr>g_fwd := f\<rparr>) = addrs g"
  "addrs (g\<lparr>g_stack := k\<rparr>) = addrs g" "addrs (g\<lparr>g_out := out\<rparr>) = addrs g"
  by (simp_all add: addrs_def)

text \<open>What handling a frame leaves alone.\<close>

definition same_queue :: "Gateway \<Rightarrow> Gateway \<Rightarrow> bool" where
  "same_queue g g' \<longleftrightarrow> g_stack g' = g_stack g \<and> g_txq g' = g_txq g \<and> addrs g' = addrs g"

lemma runHandlers_ok:
  assumes h: "header_ok (pk_header pk)" and wf: "gw_wf g"
  shows "\<exists>g'. runHandlers pk now port frame g = Some (claimed (pk_header pk) frame, g') \<and> gw_wf g' \<and> same_queue g g'
    \<and> (claimed (pk_header pk) frame \<or> g' = g)"
proof -
  let ?h = "pk_header pk" and ?a = "addrs g"
  have w: "server_wf False (net4 ?a) (g_dhcp4 g)" "server_wf True (net6 ?a) (g_dhcp6 g)" "length (g_txq g) \<le> txQueueLen"
    using wf by (simp_all add: gw_wf_def)
  obtain c4 out4 s4 where r4: "handleFrame4 ?h (pk_dhcp4 pk) ?a now port frame (g_dhcp4 g) = Some (c4, out4, s4)"
    using dhcp4.handle_total [OF h w(1)] by (metis not_None_eq prod_cases3)
  obtain c6 out6 s6 where r6: "handleFrame6 ?h (pk_dhcp6 pk) ?a now port frame (g_dhcp6 g) = Some (c6, out6, s6)"
    using dhcp6.handle_total [OF h w(2)] by (metis not_None_eq prod_cases3)
  obtain c out where r: "handleFrameRA ?h (pk_ndp pk) ?a frame (g_ra g) = Some (c, out)"
    and ra: "c \<longleftrightarrow> (\<exists>p. parseIngress ?h frame = Some (Some p) \<and> isICMP6 p \<and> icmpTyp p = ICMPv6RouterSolicit)" "c \<or> out = []"
    using claimsRA [OF h] by blast
  note k4 = claims4 [OF r4] and k6 = claims6 [OF r6]
  have cl: "claimed ?h frame \<longleftrightarrow> c4 \<or> c6 \<or> c" unfolding claimed_iff using k4 k6 ra(1) by blast
  have s4: "server_wf False (net4 ?a) s4" by (rule dhcp4.handle_wf [OF w(1) r4])
  have s6: "server_wf True (net6 ?a) s6" by (rule dhcp6.handle_wf [OF w(2) r6])
  show ?thesis
  proof (cases c4)
    case True
    then show ?thesis using s4 w cl by (simp add: runHandlers_def r4 gw_wf_def same_queue_def)
  next
    case n4: False
    then have e4: "out4 = []" "s4 = g_dhcp4 g" using k4 by blast+
    show ?thesis
    proof (cases c6)
      case True
      then show ?thesis using s6 w cl n4 by (simp add: runHandlers_def r4 e4 r6 gw_wf_def same_queue_def)
    next
      case False
      then have e6: "out6 = []" "s6 = g_dhcp6 g" using k6 by blast+
      show ?thesis using w cl n4 False ra(2) by (auto simp: runHandlers_def r4 e4 r6 e6 r gw_wf_def same_queue_def)
    qed
  qed
qed

text \<open>The frames no service claims, in the order they came: those with the netstack, then those waiting.\<close>

definition unclaimed :: "header_pkg \<Rightarrow> byte list list \<Rightarrow> byte list list" where
  "unclaimed h fs = filter (\<lambda>f. \<not> claimed h f) fs"

definition gw_inv :: "header_pkg \<Rightarrow> (Gateway \<times> byte list list) option \<Rightarrow> bool" where
  "gw_inv h r \<longleftrightarrow> (\<exists>g acc. r = Some (g, acc) \<and> gw_wf g \<and> g_stack g @ unclaimed h (map snd (g_txq g)) = unclaimed h acc)"

lemma txWorker_ok:
  assumes h: "header_ok (pk_header pk)" and wf: "gw_wf g"
  shows "\<exists>g'. txWorker pk now g = Some g' \<and> gw_wf g'
    \<and> g_stack g' @ unclaimed (pk_header pk) (map snd (g_txq g')) = g_stack g @ unclaimed (pk_header pk) (map snd (g_txq g))"
proof (cases "g_txq g")
  case (Cons e q)
  obtain port frame where e: "e = (port, frame)" by (cases e)
  have "gw_wf (g\<lparr>g_txq := q\<rparr>)" using wf Cons by (simp add: gw_wf_def)
  from runHandlers_ok [OF h this] obtain g' where
    "runHandlers pk now port frame (g\<lparr>g_txq := q\<rparr>) = Some (claimed (pk_header pk) frame, g')"
    "gw_wf g'" "same_queue (g\<lparr>g_txq := q\<rparr>) g'" by blast
  then show ?thesis
    by (auto simp: txWorker_def Cons e same_queue_def unclaimed_def gw_wf_def)
qed (use wf in \<open>simp add: txWorker_def\<close>)

lemma exec_gw_inv:
  assumes h: "header_ok (pk_header pk)" and inv: "gw_inv (pk_header pk) r"
  shows "gw_inv (pk_header pk) (run_gw pk op r)"
proof -
  obtain g acc where r: "r = Some (g, acc)" and wf: "gw_wf g"
    and q: "g_stack g @ unclaimed (pk_header pk) (map snd (g_txq g)) = unclaimed (pk_header pk) acc"
    using inv by (auto simp: gw_inv_def)
  have w: "server_wf False (net4 (addrs g)) (g_dhcp4 g)" "server_wf True (net6 (addrs g)) (g_dhcp6 g)"
    using wf by (simp_all add: gw_wf_def)
  show ?thesis
  proof (cases op)
    case (SendFrame port frame)
    then show ?thesis using wf q
      by (auto simp: gw_inv_def run_gw_def r GwSend_def gw_wf_def unclaimed_def simp flip: append_assoc)
  next
    case (Work now)
    then show ?thesis using txWorker_ok [OF h wf, of now] q by (auto simp: gw_inv_def run_gw_def r)
  next
    case (OnDhcp4 o4)
    then show ?thesis using wf q dhcp4.keeper.step_wf [OF w(1)]
      by (auto simp: gw_inv_def run_gw_def r gw_wf_def step4_def)
  next
    case (OnDhcp6 o6)
    then show ?thesis using wf q dhcp6.keeper.step_wf [OF w(2)]
      by (auto simp: gw_inv_def run_gw_def r gw_wf_def)
  qed (use wf q w in \<open>auto simp: gw_inv_def run_gw_def r gw_wf_def GwPortDown_def PortDown4_def PortDown6_def port_down_wf
      GwClose_def\<close>)
qed

interpretation gateways: invariant_system
  "\<lambda>op r. if header_ok (pk_header pk) then run_gw pk op r else r" "gw_inv (pk_header pk)" for pk
  by unfold_locales (simp add: exec_gw_inv)

section \<open>Properties\<close>

text \<open>
  C16. A gateway loses and reorders nothing. Whatever frames and control operations it gets, it does not
  panic; the netstack has been given, in order and unchanged, accepted frames that no service claims,
  and all the others of that kind still wait in its queue, which never exceeds its bound. DHCP requests and
  router solicitations never reach the netstack, not even when the service is disabled.
\<close>

theorem gateway_dispatch:
  assumes "header_ok (pk_header pk)" "NewGateway sns cfg = Inr g"
  shows "\<exists>g' acc. fold (run_gw pk) ops (Some (g, [])) = Some (g', acc) \<and> gw_wf g'
    \<and> g_stack g' @ unclaimed (pk_header pk) (map snd (g_txq g')) = unclaimed (pk_header pk) acc"
proof -
  have "gw_inv (pk_header pk) (Some (g, []))"
    using assms(2) by (auto simp: NewGateway_def blank_gateway_def gw_inv_def gw_wf_def unclaimed_def Let_def split: if_splits option.splits)
  then show ?thesis using gateways.inv_run [of pk "Some (g, [])" ops] assms(1) by (simp add: gw_inv_def)
qed


definition ex_pkgs :: gw_pkgs where
  "ex_pkgs = \<lparr>pk_header = ex_headers, pk_dhcp4 = ex_dhcp4, pk_dhcp6 = ex_dhcp6, pk_ndp = (\<lambda>opts. [])\<rparr>"

definition ex_sns :: sns_pkg where
  "ex_sns = \<lparr>sns_range_ok = (\<lambda>r. True), sns_ResolveLinkLocalV6 = (\<lambda>s mac. Some (gw_LinkLocal ex_gw6)),
     sns_CreateNIC = (\<lambda>cfg. True)\<rparr>"

definition ex_gwConfig :: gwConfig where
  "ex_gwConfig = \<lparr>gc_PortID = ''gw-vlan7'', gc_MAC = [2, 0, 0, 0, 0, 1], gc_MTU = 0,
     gc_IPv4 = Some \<lparr>v4_Address = [10, 0, 0, 1], v4_PrefixLen = 24\<rparr>, gc_IPv6 = None, gc_EnableInternetRouting = True,
     gc_EnableHostRouting = False, gc_Allow = [], gc_Deny = [], gc_DNSProxy = False\<rparr>"

theorem gateway_dispatch_witness:
  "\<exists>g g' acc. NewGateway ex_sns ex_gwConfig = Inr g
    \<and> fold (run_gw ex_pkgs) [SendFrame ''p1'' [1, 2, 3], Work 5, SendFrame ''p1'' (ex_frame [1, 8, 0])] (Some (g, [])) = Some (g', acc)
    \<and> gw_wf g' \<and> g_stack g' @ unclaimed ex_headers (map snd (g_txq g')) = unclaimed ex_headers acc"
proof -
  obtain g where g: "NewGateway ex_sns ex_gwConfig = Inr g"
    by (simp add: NewGateway_def ex_gwConfig_def ex_sns_def check_family_def check_family6_def llOverride_def To4_def Let_def)
  have h: "header_ok (pk_header ex_pkgs)" "pk_header ex_pkgs = ex_headers" using ex_headers_ok by (simp_all add: ex_pkgs_def)
  show ?thesis using gateway_dispatch [OF h(1) g] g unfolding h(2) by blast
qed

end
