(* ===== verification/GuestMem.thy ===== *)
theory GuestMem
  imports VS_Prelude "HOL-Library.Monad_Syntax"
begin

text \<open>
  Guest memory of a vhost-user session (\<^verbatim>\<open>internal/vhostuser/memory.go\<close>). A Go byte slice into
  mapped memory is an object, an offset and a length; two mappings of one file share the object, so
  aliasing is visible. A result \<open>None\<close> of an operation is a Go run-time panic; an error return is
  \<open>Inl\<close>. The guest does not run during an operation of the device.
\<close>

section \<open>Slices of shared memory\<close>

type_synonym gmem = "nat \<Rightarrow> nat \<Rightarrow> byte"

record slice =
  sl_obj :: nat
  sl_off :: nat
  sl_len :: nat

text \<open>\<^verbatim>\<open>b[i:j]\<close>; the capacity of every slice of the source is its length.\<close>

definition subslice :: "slice \<Rightarrow> nat \<Rightarrow> nat \<Rightarrow> slice option" where
  "subslice b i j = (if i \<le> j \<and> j \<le> sl_len b
     then Some \<lparr>sl_obj = sl_obj b, sl_off = sl_off b + i, sl_len = j - i\<rparr> else None)"

definition rd :: "gmem \<Rightarrow> slice \<Rightarrow> byte list" where
  "rd g b = map (\<lambda>i. g (sl_obj b) (sl_off b + i)) [0..<sl_len b]"

text \<open>\<^verbatim>\<open>copy(b, bs)\<close>: as many bytes as both have.\<close>

definition wr :: "slice \<Rightarrow> byte list \<Rightarrow> gmem \<Rightarrow> gmem" where
  "wr b bs g = (\<lambda>ob a. if ob = sl_obj b \<and> sl_off b \<le> a \<and> a < sl_off b + min (sl_len b) (length bs)
     then bs ! (a - sl_off b) else g ob a)"

definition cells :: "slice \<Rightarrow> (nat \<times> nat) set" where
  "cells b = {sl_obj b} \<times> {sl_off b ..< sl_off b + sl_len b}"

section \<open>The memory table\<close>

record memRegion =
  gpa :: u64
  rsize :: u64
  uva :: u64
  mapped :: slice
  raw :: slice

type_synonym memTable = "memRegion list"

datatype mem_error = ShortMemTable | BadRegionCount u32 | MissingFds | ShortRegions | MmapFailed nat
  | ZeroRange | NotMapped u64 u64

text \<open>
  \<^verbatim>\<open>unix.Mmap(fd, offset, length, ...)\<close> is an argument: it names the object behind the
  descriptor, or fails. The mapping starts at the file offset and has the requested length.
\<close>

type_synonym mmap_fn = "int \<Rightarrow> int \<Rightarrow> int \<Rightarrow> nat option"

definition as_int64 :: "u64 \<Rightarrow> int" where
  "as_int64 w = sint w"

definition region_at :: "byte list \<Rightarrow> nat \<Rightarrow> byte list" where
  "region_at payload i = drop (8 + i * 32) payload"

definition parseRegion :: "mmap_fn \<Rightarrow> u64 \<Rightarrow> byte list \<Rightarrow> int \<Rightarrow> nat \<Rightarrow> (mem_error + memRegion) option" where
  "parseRegion mmap pageMask p fd i =
    (let gp = le64 (bslice 0 8 p); sz = le64 (bslice 8 16 p); uv = le64 (bslice 16 24 p);
         mmapOffset = le64 (bslice 24 32 p);
         pad = mmapOffset AND pageMask
     in case mmap fd (as_int64 (mmapOffset - pad)) (as_int64 (sz + pad)) of
          None \<Rightarrow> Some (Inl (MmapFailed i))
        | Some ob \<Rightarrow>
            (let rw = \<lparr>sl_obj = ob, sl_off = unat (mmapOffset - pad), sl_len = nat (as_int64 (sz + pad))\<rparr>
             in map_option (\<lambda>m. Inr \<lparr>gpa = gp, rsize = sz, uva = uv, mapped = m, raw = rw\<rparr>)
                  (subslice rw (unat pad) (unat (pad + sz)))))"

text \<open>The loop over the regions; on a failed mapping the earlier ones are unmapped and dropped.\<close>

fun parseRegions :: "mmap_fn \<Rightarrow> u64 \<Rightarrow> byte list \<Rightarrow> int list \<Rightarrow> nat \<Rightarrow> nat \<Rightarrow> memTable \<Rightarrow> (mem_error + memTable) option" where
  "parseRegions mmap pageMask payload fds i 0 t = Some (Inr t)"
| "parseRegions mmap pageMask payload fds i (Suc k) t =
    (case parseRegion mmap pageMask (region_at payload i) (fds ! i) i of
       None \<Rightarrow> None
     | Some (Inl e) \<Rightarrow> Some (Inl e)
     | Some (Inr r) \<Rightarrow> parseRegions mmap pageMask payload fds (Suc i) k (t @ [r]))"

definition parseMemTable :: "mmap_fn \<Rightarrow> u64 \<Rightarrow> byte list \<Rightarrow> int list \<Rightarrow> (mem_error + memTable) option" where
  "parseMemTable mmap pageMask payload fds =
    (if length payload < 8 then Some (Inl ShortMemTable)
     else let n = le32 (bslice 0 4 payload)
          in if n = 0 \<or> n > 32 then Some (Inl (BadRegionCount n))
             else if length fds < unat n then Some (Inl MissingFds)
             else if length payload < 8 + unat n * 32 then Some (Inl ShortRegions)
             else parseRegions mmap pageMask payload fds 0 (unat n) [])"

text \<open>The slices \<^verbatim>\<open>close\<close> unmaps; the table is empty afterwards.\<close>

definition close_table :: "memTable \<Rightarrow> slice list \<times> memTable" where
  "close_table t = (map raw t, [])"

text \<open>
  The search of \<^verbatim>\<open>gpaSlice\<close> and \<^verbatim>\<open>uvaSlice\<close>: the first region whose bounds check passes decides.
  The check is on 64-bit unsigned numbers, which wrap.
\<close>

fun region_slice :: "(memRegion \<Rightarrow> u64) \<Rightarrow> u64 \<Rightarrow> u64 \<Rightarrow> memTable \<Rightarrow> (mem_error + slice) option" where
  "region_slice base a n [] = Some (Inl (NotMapped a n))"
| "region_slice base a n (r # rs) =
    (if a \<ge> base r \<and> a - base r + n \<le> rsize r
     then (let off = a - base r in map_option Inr (subslice (mapped r) (unat off) (unat (off + n))))
     else region_slice base a n rs)"

definition gpaSlice :: "memTable \<Rightarrow> u64 \<Rightarrow> u64 \<Rightarrow> (mem_error + slice) option" where
  "gpaSlice t a n = (if n = 0 then Some (Inl ZeroRange) else region_slice gpa a n t)"

definition uvaSlice :: "memTable \<Rightarrow> u64 \<Rightarrow> u64 \<Rightarrow> (mem_error + slice) option" where
  "uvaSlice t a n = (if n = 0 then Some (Inl ZeroRange) else region_slice uva a n t)"

section \<open>Lemmas on slices\<close>

lemma length_rd [simp]: "length (rd g b) = sl_len b"
  by (simp add: rd_def)

lemma nth_rd [simp]: "i < sl_len b \<Longrightarrow> rd g b ! i = g (sl_obj b) (sl_off b + i)"
  by (simp add: rd_def)

lemma wr_out: "(ob, a) \<notin> cells b \<Longrightarrow> wr b bs g ob a = g ob a"
  by (auto simp: wr_def cells_def)

lemma wr_in: "i < sl_len b \<Longrightarrow> i < length bs \<Longrightarrow> wr b bs g (sl_obj b) (sl_off b + i) = bs ! i"
  by (simp add: wr_def)

lemma wr_Nil [simp]: "wr b [] g = g"
  by (auto simp: wr_def fun_eq_iff)

text \<open>What is written is read back, and a read elsewhere is not disturbed.\<close>

lemma rd_wr_same: "length bs = sl_len b \<Longrightarrow> rd (wr b bs g) b = bs"
  by (rule nth_equalityI) (simp_all add: wr_in)

lemma rd_wr_other: "cells b \<inter> cells c = {} \<Longrightarrow> rd (wr b bs g) c = rd g c"
proof (rule nth_equalityI)
  assume d: "cells b \<inter> cells c = {}"
  fix i assume "i < length (rd (wr b bs g) c)"
  then have i: "i < sl_len c" by simp
  then have "(sl_obj c, sl_off c + i) \<in> cells c" by (simp add: cells_def)
  with d have "(sl_obj c, sl_off c + i) \<notin> cells b" by blast
  with i show "rd (wr b bs g) c ! i = rd g c ! i" by (simp add: wr_out)
qed simp

lemma subslice_Some:
  "subslice b i j = Some c \<longleftrightarrow> i \<le> j \<and> j \<le> sl_len b \<and> c = \<lparr>sl_obj = sl_obj b, sl_off = sl_off b + i, sl_len = j - i\<rparr>"
  by (auto simp: subslice_def)

lemma subslice_cells: "subslice b i j = Some c \<Longrightarrow> cells c \<subseteq> cells b"
  by (auto simp: subslice_Some cells_def)

lemma rd_subslice: "subslice b i j = Some c \<Longrightarrow> rd g c = bslice i j (rd g b)"
  by (rule nth_equalityI) (auto simp: subslice_Some bslice_def add.assoc)

text \<open>A memory whose only object has the given bytes.\<close>

definition mem_of :: "nat \<Rightarrow> byte list \<Rightarrow> gmem" where
  "mem_of ob bs = wr \<lparr>sl_obj = ob, sl_off = 0, sl_len = length bs\<rparr> bs (\<lambda>_ _. 0)"

lemma rd_mem_of:
  "sl_obj b = ob \<Longrightarrow> sl_off b + sl_len b \<le> length bs \<Longrightarrow> rd (mem_of ob bs) b = take (sl_len b) (drop (sl_off b) bs)"
  by (rule nth_equalityI) (auto simp: mem_of_def wr_def)

section \<open>Bounds\<close>

text \<open>A region whose mapping has the size it announces, as a parsed table has.\<close>

definition region_wf :: "memRegion \<Rightarrow> bool" where
  "region_wf r \<longleftrightarrow> sl_len (mapped r) = unat (rsize r)"

lemma region_slice_wf:
  assumes "list_all region_wf t" "region_slice base a n t = Some (Inr b)"
  shows "\<exists>r \<in> set t. a \<ge> base r \<and> sl_len b = unat n \<and> sl_obj b = sl_obj (mapped r)
    \<and> sl_off b = sl_off (mapped r) + unat (a - base r) \<and> unat (a - base r) + unat n \<le> unat (rsize r)"
  using assms
proof (induction t)
  case (Cons r rs)
  show ?case
  proof (cases "a \<ge> base r \<and> a - base r + n \<le> rsize r")
    case True
    then have sub: "subslice (mapped r) (unat (a - base r)) (unat (a - base r + n)) = Some b"
      using Cons.prems(2) by (auto simp: Let_def)
    then have le: "unat (a - base r) \<le> unat (a - base r + n)" "unat (a - base r + n) \<le> unat (rsize r)"
      using Cons.prems(1) by (simp_all add: subslice_Some region_wf_def)
    then have "unat (a - base r + n) = unat (a - base r) + unat n"
      by (simp add: unat_plus_simple [symmetric] word_le_nat_alt)
    then show ?thesis using sub True le by (auto simp: subslice_Some)
  next
    case False
    then show ?thesis using Cons by auto
  qed
qed simp


text \<open>
  The search returns or reports an error, and never panics, when no address range wraps; a range
  whose bounds check wraps makes the slice expression panic.
\<close>

lemma region_slice_total:
  assumes "list_all region_wf t" "unat a + unat n < 2 ^ 64"
  shows "region_slice base a n t \<noteq> None"
  using assms(1)
proof (induction t)
  case (Cons r rs)
  have "unat (a - base r + n) = unat (a - base r) + unat n" if "base r \<le> a"
    using assms(2) unat_sub [OF that] by (intro unat_add_lem [THEN iffD1]) simp
  then show ?case
    using Cons by (auto simp: subslice_def Let_def region_wf_def word_le_nat_alt)
qed simp

section \<open>Memories that agree\<close>

definition same_on :: "(nat \<times> nat) set \<Rightarrow> gmem \<Rightarrow> gmem \<Rightarrow> bool" where
  "same_on A g g' \<longleftrightarrow> (\<forall>x \<in> A. g (fst x) (snd x) = g' (fst x) (snd x))"

lemma same_on_refl [simp]: "same_on A g g"
  by (simp add: same_on_def)

lemma same_on_trans: "same_on A g1 g2 \<Longrightarrow> same_on A g2 g3 \<Longrightarrow> same_on A g1 g3"
  by (auto simp: same_on_def)

lemma same_on_mono: "same_on A g g' \<Longrightarrow> B \<subseteq> A \<Longrightarrow> same_on B g g'"
  by (auto simp: same_on_def)

lemma same_on_wr: "A \<inter> cells b = {} \<Longrightarrow> same_on A g (wr b bs g)"
  by (auto simp: same_on_def intro!: wr_out [symmetric])

lemma rd_cong: "same_on A g g' \<Longrightarrow> cells b \<subseteq> A \<Longrightarrow> rd g b = rd g' b"
proof (rule nth_equalityI)
  fix i assume s: "same_on A g g'" "cells b \<subseteq> A" and "i < length (rd g b)"
  then have "i < sl_len b" "(sl_obj b, sl_off b + i) \<in> A" by (auto simp: cells_def)
  then show "rd g b ! i = rd g' b ! i" using s(1) by (auto simp: same_on_def)
qed simp

section \<open>Parsing a table\<close>

lemma parseRegion_wf:
  assumes "parseRegion mmap pageMask p fd i = Some (Inr r)"
  shows "region_wf r"
proof -
  let ?sz = "le64 (bslice 8 16 p)" and ?pad = "le64 (bslice 24 32 p) AND pageMask"
  from assms obtain ob where sub: "subslice \<lparr>sl_obj = ob, sl_off = unat (le64 (bslice 24 32 p) - ?pad),
      sl_len = nat (as_int64 (?sz + ?pad))\<rparr> (unat ?pad) (unat (?pad + ?sz)) = Some (mapped r)" and sz: "rsize r = ?sz"
    by (auto simp: parseRegion_def Let_def split: option.splits)
  then have "unat ?pad \<le> unat (?pad + ?sz)" by (simp add: subslice_Some)
  then have "unat (?pad + ?sz) = unat ?pad + unat ?sz"
    by (simp add: unat_plus_simple [symmetric] word_le_nat_alt)
  then show ?thesis using sub sz by (simp add: subslice_Some region_wf_def)
qed

lemma parseRegions_wf:
  "parseRegions mmap pageMask payload fds i k t = Some (Inr t') \<Longrightarrow> list_all region_wf t \<Longrightarrow>
    list_all region_wf t' \<and> length t' = length t + k"
  by (induction mmap pageMask payload fds i k t rule: parseRegions.induct)
    (auto split: option.splits sum.splits dest: parseRegion_wf)

lemma parseMemTable_wf:
  assumes "parseMemTable mmap pageMask payload fds = Some (Inr t)"
  shows "list_all region_wf t \<and> t \<noteq> [] \<and> length t \<le> 32"
proof -
  let ?n = "le32 (bslice 0 4 payload)"
  have n: "?n \<noteq> 0" "?n \<le> 32" and p: "parseRegions mmap pageMask payload fds 0 (unat ?n) [] = Some (Inr t)"
    using assms by (auto simp: parseMemTable_def Let_def split: if_splits)
  have "unat ?n \<noteq> 0" "unat ?n \<le> 32" using n by (auto simp: word_le_nat_alt unat_eq_0)
  then show ?thesis using parseRegions_wf [OF p] by auto
qed

section \<open>Ranges that wrap\<close>

text \<open>
  C39. A range whose end wraps around 64 bits passes the bounds check of a region and then makes the
  slice expression panic, instead of being refused as unmapped. Guest descriptors choose both
  numbers.
\<close>

theorem wrapping_range_panics:
  assumes "gpa r \<le> a" "2 ^ 64 \<le> unat (a - gpa r) + unat n" "a - gpa r + n \<le> rsize r"
  shows "gpaSlice (r # t) a n = None"
proof -
  let ?off = "a - gpa r"
  have b: "unat ?off < 2 ^ 64" "unat n < 2 ^ 64" using unat_bound(4) [of ?off] unat_bound(4) [of n] by simp_all
  have "unat (?off + n) = unat ?off + unat n - 2 ^ 64"
    using assms(2) b by (simp add: unat_word_ariths(1) mod_if)
  then have "unat (?off + n) < unat ?off" using b assms(2) by simp
  moreover have "n \<noteq> 0" using assms(2) b by auto
  ultimately show ?thesis using assms(1,3) by (simp add: gpaSlice_def subslice_def Let_def)
qed

theorem wrapping_range_panics_witness:
  "gpaSlice [\<lparr>gpa = 0, rsize = 4096, uva = 0, mapped = \<lparr>sl_obj = 0, sl_off = 0, sl_len = 4096\<rparr>,
      raw = \<lparr>sl_obj = 0, sl_off = 0, sl_len = 4096\<rparr>\<rparr>] 0xFFFFFFFFFFFFFFF8 16 = None"
  by (rule wrapping_range_panics) simp_all

end
