(* ===== verification/Vring.thy ===== *)
theory Vring
  imports GuestMem
begin

text \<open>
  Device-side split virtqueues (\<^verbatim>\<open>internal/vhostuser/queue.go\<close>). The driver's rings live in guest
  memory; a ring whose slice is nil has length zero, so reading it panics. As in the theory of
  guest memory, \<open>None\<close> is a panic and \<open>Inl\<close> an error.
\<close>

section \<open>Data\<close>

definition descSize :: u32 where "descSize = 16"
definition descFlagNext :: u16 where "descFlagNext = 1"
definition descFlagWrite :: u16 where "descFlagWrite = 2"
definition descFlagIndirect :: u16 where "descFlagIndirect = 4"
definition availFlagNoInterrupt :: u16 where "availFlagNoInterrupt = 1"
definition virtioNetHdrSize :: nat where "virtioNetHdrSize = 12"
definition maxChainLen :: nat where "maxChainLen = 256"

text \<open>File descriptors behind \<^verbatim>\<open>*os.File\<close> values are numbers.\<close>

record vring =
  num :: u32
  desc :: "slice option"
  avail :: "slice option"
  used :: "slice option"
  lastAvail :: u16
  usedIdx :: u16
  kick :: "int option"
  call :: "int option"
  enabled :: bool
  started :: bool
  pumpRunning :: bool

definition newVring :: vring where
  "newVring = \<lparr>num = 0, desc = None, avail = None, used = None, lastAvail = 0, usedIdx = 0,
     kick = None, call = None, enabled = False, started = False, pumpRunning = False\<rparr>"

text \<open>A nil slice has no bytes.\<close>

definition sl :: "slice option \<Rightarrow> slice" where
  "sl b = (case b of Some b \<Rightarrow> b | None \<Rightarrow> \<lparr>sl_obj = 0, sl_off = 0, sl_len = 0\<rparr>)"

section \<open>Ring accesses\<close>

text \<open>
  \<^verbatim>\<open>atomicLoadU32\<close> and \<^verbatim>\<open>atomicStoreU32\<close> take the address of the first byte, which panics on an
  empty slice, and access four bytes from there.
\<close>

definition atomicLoadU32 :: "gmem \<Rightarrow> slice \<Rightarrow> u32 option" where
  "atomicLoadU32 g b = (if sl_len b = 0 then None else Some (le32 (rd g (b\<lparr>sl_len := 4\<rparr>))))"

definition atomicStoreU32 :: "slice \<Rightarrow> u32 \<Rightarrow> gmem \<Rightarrow> gmem option" where
  "atomicStoreU32 b w g = (if sl_len b = 0 then None else Some (wr (b\<lparr>sl_len := 4\<rparr>) (put_le32 w) g))"

definition availIdx :: "vring \<Rightarrow> gmem \<Rightarrow> u16 option" where
  "availIdx v g = map_option (\<lambda>w. ucast (drop_bit 16 w)) (atomicLoadU32 g (sl (avail v)))"

definition availNoInterrupt :: "vring \<Rightarrow> gmem \<Rightarrow> bool option" where
  "availNoInterrupt v g = map_option (\<lambda>w. (ucast w :: u16) AND availFlagNoInterrupt \<noteq> 0) (atomicLoadU32 g (sl (avail v)))"

text \<open>\<^verbatim>\<open>binary.LittleEndian.Uint16(b)\<close> and \<^verbatim>\<open>PutUint32(b, w)\<close> panic on a shorter slice.\<close>

definition getU16 :: "gmem \<Rightarrow> slice \<Rightarrow> u16 option" where
  "getU16 g b = (if sl_len b < 2 then None else Some (le16 (rd g (b\<lparr>sl_len := 2\<rparr>))))"

definition putU32 :: "slice \<Rightarrow> u32 \<Rightarrow> gmem \<Rightarrow> gmem option" where
  "putU32 b w g = (if sl_len b < 4 then None else Some (wr (b\<lparr>sl_len := 4\<rparr>) (put_le32 w) g))"

definition tail_from :: "slice \<Rightarrow> nat \<Rightarrow> slice option" where
  "tail_from b i = subslice b i (sl_len b)"

text \<open>The remainder by a ring size of zero is a division by zero.\<close>

definition availEntry :: "vring \<Rightarrow> u16 \<Rightarrow> gmem \<Rightarrow> u16 option" where
  "availEntry v i g =
    (if num v = 0 then None
     else do { b \<leftarrow> tail_from (sl (avail v)) (unat (4 + 2 * (ucast i mod num v))); getU16 g b })"

definition publishUsed :: "u16 \<Rightarrow> vring \<times> gmem \<Rightarrow> (vring \<times> gmem) option" where
  "publishUsed count vg = (case vg of (v, g) \<Rightarrow>
     let v' = v\<lparr>usedIdx := usedIdx v + count\<rparr>
     in do { g' \<leftarrow> atomicStoreU32 (sl (used v')) (push_bit 16 (ucast (usedIdx v'))) g; Some (v', g') })"

definition setUsedElem :: "u16 \<Rightarrow> u16 \<Rightarrow> u32 \<Rightarrow> vring \<Rightarrow> gmem \<Rightarrow> gmem option" where
  "setUsedElem slot head written v g =
    (if num v = 0 then None
     else let off = 4 + 8 * ((ucast (usedIdx v) + ucast slot) mod num v)
          in do { b \<leftarrow> tail_from (sl (used v)) (unat off);
                  g1 \<leftarrow> putU32 b (ucast head) g;
                  c \<leftarrow> tail_from (sl (used v)) (unat (off + 4));
                  putU32 c written g1 })"

text \<open>The descriptor a notification is written to, if the driver wants one.\<close>

definition notify :: "vring \<Rightarrow> gmem \<Rightarrow> int option option" where
  "notify v g =
    (case call v of
       None \<Rightarrow> Some None
     | Some fd \<Rightarrow> map_option (\<lambda>no. if no then None else Some fd) (availNoInterrupt v g))"

section \<open>Descriptor chains\<close>

record descriptor =
  d_addr :: u64
  d_len :: u32
  d_flags :: u16
  d_next :: u16

datatype ring_error = DescOutOfRange u16 | ChainTooLong | IndirectDesc | ReadableAfterWritable | MemError mem_error

definition descAt :: "vring \<Rightarrow> u16 \<Rightarrow> gmem \<Rightarrow> (ring_error + descriptor) option" where
  "descAt v i g =
    (if (ucast i :: u32) \<ge> num v then Some (Inl (DescOutOfRange i))
     else let off = ucast i * descSize
          in do { b \<leftarrow> subslice (sl (desc v)) (unat off) (unat (off + descSize));
                  let d = rd g b in
                  Some (Inr \<lparr>d_addr = le64 (bslice 0 8 d), d_len = le32 (bslice 8 12 d),
                             d_flags = le16 (bslice 12 14 d), d_next = le16 (bslice 14 16 d)\<rparr>) })"

record chain =
  c_head :: u16
  readable :: "slice list"
  writable :: "slice list"

text \<open>
  The loop of \<^verbatim>\<open>resolveChain\<close>, with the number of iterations left. The partial chain that
  accompanies an error is not used by any caller and is left out.
\<close>

fun resolve_from :: "nat \<Rightarrow> vring \<Rightarrow> memTable \<Rightarrow> gmem \<Rightarrow> u16 \<Rightarrow> chain \<Rightarrow> (ring_error + chain) option" where
  "resolve_from 0 v mem g idx c = Some (Inl ChainTooLong)"
| "resolve_from (Suc k) v mem g idx c =
    (case descAt v idx g of
       None \<Rightarrow> None
     | Some (Inl e) \<Rightarrow> Some (Inl e)
     | Some (Inr d) \<Rightarrow>
         if d_flags d AND descFlagIndirect \<noteq> 0 then Some (Inl IndirectDesc)
         else (case gpaSlice mem (d_addr d) (ucast (d_len d)) of
                 None \<Rightarrow> None
               | Some (Inl e) \<Rightarrow> Some (Inl (MemError e))
               | Some (Inr seg) \<Rightarrow>
                   if d_flags d AND descFlagWrite = 0 \<and> writable c \<noteq> [] then Some (Inl ReadableAfterWritable)
                   else let c' = (if d_flags d AND descFlagWrite \<noteq> 0 then c\<lparr>writable := writable c @ [seg]\<rparr>
                                  else c\<lparr>readable := readable c @ [seg]\<rparr>)
                        in if d_flags d AND descFlagNext = 0 then Some (Inr c')
                           else resolve_from k v mem g (d_next d) c'))"

definition resolveChain :: "vring \<Rightarrow> memTable \<Rightarrow> gmem \<Rightarrow> u16 \<Rightarrow> (ring_error + chain) option" where
  "resolveChain v mem g head =
    resolve_from maxChainLen v mem g head \<lparr>c_head = head, readable = [], writable = []\<rparr>"

definition popAvail :: "vring \<Rightarrow> gmem \<Rightarrow> (u16 option \<times> vring) option" where
  "popAvail v g =
    do { i \<leftarrow> availIdx v g;
         if lastAvail v = i then Some (None, v)
         else do { head \<leftarrow> availEntry v (lastAvail v) g;
                   Some (Some head, v\<lparr>lastAvail := lastAvail v + 1\<rparr>) } }"

section \<open>Well-formed rings\<close>

text \<open>
  A ring ready for the data path: its size is a power of two the protocol admits, and its three
  areas have the sizes \<^verbatim>\<open>setVringAddrLocked\<close> asks for.
\<close>

definition ring_ready :: "vring \<Rightarrow> bool" where
  "ring_ready v \<longleftrightarrow> 0 < num v \<and> num v \<le> 32768 \<and> num v AND (num v - 1) = 0
    \<and> (\<exists>d a u. desc v = Some d \<and> avail v = Some a \<and> used v = Some u
        \<and> sl_len d = 16 * unat (num v) \<and> sl_len a = 4 + 2 * unat (num v) + 2 \<and> sl_len u = 4 + 8 * unat (num v) + 2)"

section \<open>Ring accesses do not panic\<close>

lemma unat_ring_off:
  fixes k :: u32
  assumes "unat k < 32768"
  shows "unat (4 + 2 * k) = 4 + 2 * unat k" "unat (4 + 8 * k) = 4 + 8 * unat k"
    "unat (4 + 8 * k + 4) = 8 + 8 * unat k" "unat (k * 16) = 16 * unat k" "unat (k * 16 + 16) = 16 * unat k + 16"
proof -
  have w: "4 + 2 * k = word_of_nat (4 + 2 * unat k)" "4 + 8 * k = word_of_nat (4 + 8 * unat k)"
    "4 + 8 * k + 4 = word_of_nat (8 + 8 * unat k)" "k * 16 = word_of_nat (16 * unat k)"
    "k * 16 + 16 = word_of_nat (16 * unat k + 16)" by simp_all
  show "unat (4 + 8 * k + 4) = 8 + 8 * unat k" "unat (k * 16 + 16) = 16 * unat k + 16"
    unfolding w(3,5) using assms by (simp_all add: unat_of_nat del: of_nat_add of_nat_mult of_nat_numeral)
  show "unat (4 + 2 * k) = 4 + 2 * unat k" "unat (4 + 8 * k) = 4 + 8 * unat k" "unat (k * 16) = 16 * unat k"
    unfolding w(1,2,4) using assms by (simp_all add: unat_of_nat del: of_nat_add of_nat_mult of_nat_numeral)
qed

lemma and_pred_pow2: "0 < n \<Longrightarrow> n AND (n - 1) = (0 :: nat) \<Longrightarrow> \<exists>k. n = 2 ^ k"
proof (induction n rule: less_induct)
  case (less n)
  show ?case
  proof (cases "even n")
    case True
    then obtain m where m: "n = 2 * m" by blast
    with less.prems(1) have "0 < m" by simp
    have "n - 1 = 1 + 2 * (m - 1)" using m \<open>0 < m\<close> by simp
    then have "n AND (n - 1) = 2 * (m AND (m - 1))"
      by (simp add: m and_rec [of "2 * m"])
    with less.prems(2) have "m AND (m - 1) = 0" by simp
    then obtain k where "m = 2 ^ k" using less.IH [of m] m \<open>0 < m\<close> by auto
    then have "n = 2 ^ Suc k" by (simp add: m)
    then show ?thesis ..
  next
    case False
    then obtain m where m: "n = 2 * m + 1" by (rule oddE)
    then have "n AND (n - 1) = 2 * m" by (simp add: and_rec [of "Suc (2 * m)"])
    with less.prems(2) m have "n = 2 ^ 0" by simp
    then show ?thesis ..
  qed
qed

lemma ring_size:
  assumes "ring_ready v"
  shows "unat (num v) \<le> 32768" "num v \<noteq> 0" "0 < unat (num v)" "unat (num v) dvd 65536"
proof -
  have n: "0 < num v" "num v \<le> 32768" "num v AND (num v - 1) = 0" using assms by (simp_all add: ring_ready_def)
  show n0: "num v \<noteq> 0" using n(1) by auto
  show pos: "0 < unat (num v)" using n(1) by (simp add: word_less_nat_alt)
  show le: "unat (num v) \<le> 32768" using n(2) by (simp add: word_le_nat_alt)
  have "unat (num v) AND (unat (num v) - 1) = 0"
    using arg_cong [OF n(3), of unat] unat_minus_one [OF n0] by (simp add: unsigned_and_eq)
  from and_pred_pow2 [OF pos this] obtain k where k: "unat (num v) = 2 ^ k" ..
  then have "(2 :: nat) ^ k \<le> 2 ^ 15" using le by simp
  then have "k \<le> 15" by (simp only: power_increasing_iff)
  then have "(2 :: nat) ^ k dvd 2 ^ 16" by (intro le_imp_power_dvd) simp
  then show "unat (num v) dvd 65536" using k by simp
qed

lemma unat_ucast_16_32: "unat (ucast (i :: u16) :: u32) = unat i"
  using unat_bound(2) [of i] by (simp add: unsigned_ucast_eq take_bit_nat_eq_self)

lemma ring_slot:
  assumes "ring_ready v"
  shows "unat (k mod num v) = unat k mod unat (num v)" "unat (k mod num v) < unat (num v)"
  using ring_size(3) [OF assms] by (simp_all add: unat_mod)

text \<open>The index, entries and flags a driver wrote, as functions of the ring's memory.\<close>

definition drv_idx :: "slice \<Rightarrow> gmem \<Rightarrow> u16" where
  "drv_idx a g = ucast (drop_bit 16 (le32 (rd g (a\<lparr>sl_len := 4\<rparr>))))"

definition drv_entry :: "slice \<Rightarrow> u32 \<Rightarrow> u16 \<Rightarrow> gmem \<Rightarrow> u16" where
  "drv_entry a n i g = le16 (rd g (a\<lparr>sl_off := sl_off a + 4 + 2 * (unat i mod unat n), sl_len := 2\<rparr>))"

lemma sl_Some [simp]: "sl (Some b) = b"
  by (simp add: sl_def)

lemma availIdx_ready:
  assumes "ring_ready v" "avail v = Some a"
  shows "availIdx v g = Some (drv_idx a g)"
  using assms by (auto simp: availIdx_def atomicLoadU32_def drv_idx_def ring_ready_def)

lemma tail_U16: "i + 2 \<le> sl_len b \<Longrightarrow> Option.bind (tail_from b i) (getU16 g) = Some (le16 (rd g (b\<lparr>sl_off := sl_off b + i, sl_len := 2\<rparr>)))"
  by (cases b) (simp add: tail_from_def subslice_def getU16_def)

lemma tail_U32: "i + 4 \<le> sl_len b \<Longrightarrow> tail_from b i = Some t \<Longrightarrow>
    putU32 t w g = Some (wr \<lparr>sl_obj = sl_obj b, sl_off = sl_off b + i, sl_len = 4\<rparr> (put_le32 w) g)"
  by (auto simp: tail_from_def subslice_def putU32_def split: if_splits)

lemma tail_total: "i \<le> sl_len b \<Longrightarrow> \<exists>t. tail_from b i = Some t"
  by (simp add: tail_from_def subslice_def)

lemma availEntry_ready:
  assumes "ring_ready v" "avail v = Some a"
  shows "availEntry v i g = Some (drv_entry a (num v) i g)"
proof -
  note s = ring_slot [OF assms(1), of "ucast i"]
  have len: "sl_len a = 4 + 2 * unat (num v) + 2" using assms by (auto simp: ring_ready_def)
  have i: "unat (ucast i :: u32) = unat i" by (rule unat_ucast_16_32)
  have off: "unat (4 + 2 * (ucast i mod num v)) = 4 + 2 * (unat i mod unat (num v))"
    using unat_ring_off(1) [of "ucast i mod num v"] s ring_size(1) [OF assms(1)] i by simp
  have "4 + 2 * (unat i mod unat (num v)) + 2 \<le> sl_len a" using s i len by simp
  then show ?thesis
    using ring_size(2) [OF assms(1)] tail_U16 by (simp add: availEntry_def assms(2) off drv_entry_def add.assoc)
qed

lemma popAvail_ready:
  assumes "ring_ready v" "avail v = Some a"
  shows "popAvail v g = Some (if lastAvail v = drv_idx a g then (None, v)
    else (Some (drv_entry a (num v) (lastAvail v) g), v\<lparr>lastAvail := lastAvail v + 1\<rparr>))"
  by (simp add: popAvail_def availIdx_ready [OF assms] availEntry_ready [OF assms])

lemma notify_ready: "ring_ready v \<Longrightarrow> \<exists>n. notify v g = Some n"
  by (auto simp: notify_def availNoInterrupt_def atomicLoadU32_def ring_ready_def split: option.split)

text \<open>The element a driver finds at a logical index of the used ring.\<close>

definition used_cell :: "slice \<Rightarrow> u32 \<Rightarrow> u16 \<Rightarrow> slice" where
  "used_cell u n k = u\<lparr>sl_off := sl_off u + 4 + 8 * (unat k mod unat n), sl_len := 8\<rparr>"

definition drv_used :: "slice \<Rightarrow> u32 \<Rightarrow> u16 \<Rightarrow> gmem \<Rightarrow> u32 \<times> u32" where
  "drv_used u n k g = (le32 (take 4 (rd g (used_cell u n k))), le32 (drop 4 (rd g (used_cell u n k))))"

lemma wr_adjacent:
  assumes "length xs = 4" "length ys = 4"
  shows "wr \<lparr>sl_obj = ob, sl_off = i + 4, sl_len = 4\<rparr> ys (wr \<lparr>sl_obj = ob, sl_off = i, sl_len = 4\<rparr> xs g) =
    wr \<lparr>sl_obj = ob, sl_off = i, sl_len = 8\<rparr> (xs @ ys) g"
  using assms by (auto simp: fun_eq_iff wr_def nth_append)

lemma setUsedElem_ready:
  assumes "ring_ready v" "used v = Some u"
  shows "setUsedElem slot head n v g = Some (wr (used_cell u (num v) (usedIdx v + slot)) (put_le32 (ucast head) @ put_le32 n) g)"
proof -
  let ?k = "(ucast (usedIdx v) + ucast slot :: u32) mod num v"
  have len: "sl_len u = 4 + 8 * unat (num v) + 2" using assms by (auto simp: ring_ready_def)
  have "unat (ucast (usedIdx v) + ucast slot :: u32) = unat (usedIdx v) + unat slot"
    using unat_bound(2) [of "usedIdx v"] unat_bound(2) [of slot]
    by (subst unat_add_lem [THEN iffD1]) (simp_all add: unat_ucast_16_32)
  moreover have "unat (usedIdx v + slot) mod unat (num v) = (unat (usedIdx v) + unat slot) mod unat (num v)"
    using mod_mod_cancel [OF ring_size(4) [OF assms(1)], of "unat (usedIdx v) + unat slot"]
    by (simp add: unat_word_ariths(1))
  ultimately have k: "unat ?k = unat (usedIdx v + slot) mod unat (num v)"
    using ring_slot(1) [OF assms(1)] by simp
  have kb: "unat ?k < unat (num v)" by (rule ring_slot(2) [OF assms(1)])
  have off: "unat (4 + 8 * ?k) = 4 + 8 * unat ?k" "unat (4 + 8 * ?k + 4) = 8 + 8 * unat ?k"
    using unat_ring_off [of ?k] kb ring_size(1) [OF assms(1)] by simp_all
  have "setUsedElem slot head n v g =
      Some (wr \<lparr>sl_obj = sl_obj u, sl_off = (sl_off u + (4 + 8 * unat ?k)) + 4, sl_len = 4\<rparr> (put_le32 n)
        (wr \<lparr>sl_obj = sl_obj u, sl_off = sl_off u + (4 + 8 * unat ?k), sl_len = 4\<rparr> (put_le32 (ucast head)) g))"
  proof -
    have b: "4 + 8 * unat ?k + 4 \<le> sl_len u" "8 + 8 * unat ?k + 4 \<le> sl_len u" using kb len by simp_all
    obtain t1 where t1: "tail_from u (4 + 8 * unat ?k) = Some t1" using tail_total b(1) by (meson add_leD1)
    obtain t2 where t2: "tail_from u (8 + 8 * unat ?k) = Some t2" using tail_total b(2) by (meson add_leD1)
    have eq: "sl_off u + (4 + 8 * unat ?k) + 4 = sl_off u + (8 + 8 * unat ?k)" by simp
    show ?thesis
      unfolding setUsedElem_def Let_def off eq
      using ring_size(2) [OF assms(1)] tail_U32 [OF b(1) t1] tail_U32 [OF b(2) t2] by (simp add: assms(2) t1 t2)
  qed
  also have "\<dots> = Some (wr \<lparr>sl_obj = sl_obj u, sl_off = sl_off u + (4 + 8 * unat ?k), sl_len = 8\<rparr>
      (put_le32 (ucast head) @ put_le32 n) g)"
    by (subst wr_adjacent) simp_all
  finally show ?thesis by (cases u) (simp add: k used_cell_def add.assoc)
qed

lemma publishUsed_ready:
  assumes "ring_ready v" "used v = Some u"
  shows "publishUsed count (v, g) = Some (v\<lparr>usedIdx := usedIdx v + count\<rparr>,
    wr (u\<lparr>sl_len := 4\<rparr>) (put_le32 (push_bit 16 (ucast (usedIdx v + count)))) g)"
  using assms by (auto simp: publishUsed_def atomicStoreU32_def ring_ready_def Let_def)

definition drv_desc :: "slice \<Rightarrow> u16 \<Rightarrow> gmem \<Rightarrow> descriptor" where
  "drv_desc ds i g = (let d = rd g (ds\<lparr>sl_off := sl_off ds + 16 * unat i, sl_len := 16\<rparr>) in
     \<lparr>d_addr = le64 (bslice 0 8 d), d_len = le32 (bslice 8 12 d),
      d_flags = le16 (bslice 12 14 d), d_next = le16 (bslice 14 16 d)\<rparr>)"

lemma descAt_ready:
  assumes "ring_ready v" "desc v = Some ds"
  shows "descAt v i g = Some (if unat (num v) \<le> unat i then Inl (DescOutOfRange i) else Inr (drv_desc ds i g))"
proof (cases "unat (num v) \<le> unat i")
  case True
  then show ?thesis by (simp add: descAt_def word_le_nat_alt unat_ucast_16_32)
next
  case False
  then have "unat (ucast i * descSize :: u32) = 16 * unat i"
      "unat (ucast i * descSize + descSize :: u32) = 16 * unat i + 16"
      "16 * unat i + 16 \<le> 16 * unat (num v)"
    using unat_ring_off(4,5) [of "ucast i"] ring_size(1) [OF assms(1)]
    by (simp_all add: descSize_def unat_ucast_16_32)
  moreover have "sl_len ds = 16 * unat (num v)" using assms by (auto simp: ring_ready_def)
  ultimately show ?thesis
    using False by (cases ds) (auto simp: descAt_def subslice_def Let_def drv_desc_def assms(2) word_le_nat_alt unat_ucast_16_32)
qed

section \<open>Resolved chains\<close>

text \<open>Every segment of a resolved chain lies in a region of the memory table and is not empty.\<close>

definition in_table :: "memTable \<Rightarrow> slice \<Rightarrow> bool" where
  "in_table t b \<longleftrightarrow> 0 < sl_len b \<and> (\<exists>r \<in> set t. cells b \<subseteq> cells (mapped r))"

lemma region_slice_in_table:
  assumes "list_all region_wf t" "region_slice base a n t = Some (Inr b)" "n \<noteq> 0"
  shows "in_table t b \<and> sl_len b = unat n"
proof -
  from region_slice_wf [OF assms(1,2)] obtain r where
    r: "r \<in> set t" "sl_len b = unat n" "sl_obj b = sl_obj (mapped r)"
      "sl_off b = sl_off (mapped r) + unat (a - base r)" "unat (a - base r) + unat n \<le> unat (rsize r)" by blast
  have "sl_len (mapped r) = unat (rsize r)" using assms(1) r(1) by (simp add: list_all_iff region_wf_def)
  moreover have "0 < unat n" using assms(3) by (simp add: unat_gt_0)
  ultimately show ?thesis using r by (auto simp: in_table_def cells_def)
qed

lemma gpaSlice_in_table:
  "list_all region_wf t \<Longrightarrow> gpaSlice t a n = Some (Inr b) \<Longrightarrow> in_table t b \<and> sl_len b = unat n"
  by (auto simp: gpaSlice_def dest: region_slice_in_table split: if_splits)

lemma resolve_from_segs:
  assumes "list_all region_wf mem" "resolve_from k v mem g idx c = Some (Inr c')"
    "list_all (in_table mem) (readable c @ writable c)"
  shows "list_all (in_table mem) (readable c' @ writable c') \<and> c_head c' = c_head c
    \<and> length (readable c' @ writable c') \<le> length (readable c @ writable c) + k"
  using assms(2,3)
proof (induction k arbitrary: idx c)
  case (Suc k)
  then obtain d seg where d: "descAt v idx g = Some (Inr d)"
      and seg: "gpaSlice mem (d_addr d) (ucast (d_len d)) = Some (Inr seg)"
    by (auto split: option.splits sum.splits if_splits)
  have it: "in_table mem seg" using gpaSlice_in_table [OF assms(1) seg] by simp
  define c1 where "c1 = (if d_flags d AND descFlagWrite \<noteq> 0 then c\<lparr>writable := writable c @ [seg]\<rparr>
                         else c\<lparr>readable := readable c @ [seg]\<rparr>)"
  have c1: "list_all (in_table mem) (readable c1 @ writable c1)" "c_head c1 = c_head c"
      "length (readable c1 @ writable c1) = Suc (length (readable c @ writable c))"
    using Suc.prems(2) it by (auto simp: c1_def)
  have "c1 = c' \<or> resolve_from k v mem g (d_next d) c1 = Some (Inr c')"
    using Suc.prems(1) by (auto simp: d seg c1_def Let_def split: if_splits)
  then show ?case using c1 Suc.IH [of "d_next d" c1] by auto
qed simp

lemma resolveChain_segs:
  assumes "list_all region_wf mem" "resolveChain v mem g head = Some (Inr c)"
  shows "list_all (in_table mem) (readable c @ writable c)" "c_head c = head" "length (readable c @ writable c) \<le> 256"
  using resolve_from_segs [OF assms(1), of maxChainLen v g head "\<lparr>c_head = head, readable = [], writable = []\<rparr>" c] assms(2)
  by (simp_all add: resolveChain_def maxChainLen_def)

text \<open>
  No descriptor of the table wraps the address space. Then resolving a chain never panics: a
  malformed chain is an error.
\<close>

definition descs_ok :: "vring \<Rightarrow> gmem \<Rightarrow> bool" where
  "descs_ok v g \<longleftrightarrow> (\<forall>i < unat (num v). unat (d_addr (drv_desc (sl (desc v)) (word_of_nat i) g))
      + unat (d_len (drv_desc (sl (desc v)) (word_of_nat i) g)) < 2 ^ 64)"

lemma descs_okD:
  "descs_ok v g \<Longrightarrow> unat i < unat (num v) \<Longrightarrow>
    unat (d_addr (drv_desc (sl (desc v)) i g)) + unat (d_len (drv_desc (sl (desc v)) i g)) < 2 ^ 64"
  by (drule descs_ok_def [THEN iffD1, rule_format, of _ _ "unat i"]) simp_all

lemma resolve_from_total:
  assumes "ring_ready v" "list_all region_wf mem" "descs_ok v g"
  shows "resolve_from k v mem g idx c \<noteq> None"
proof -
  obtain ds where ds: "desc v = Some ds" using assms(1) by (auto simp: ring_ready_def)
  show ?thesis
  proof (induction k arbitrary: idx c)
    case (Suc k)
    show ?case
    proof (cases "unat (num v) \<le> unat idx")
      case False
      let ?d = "drv_desc ds idx g"
      have "unat (d_addr ?d) + unat (ucast (d_len ?d) :: u64) < 2 ^ 64"
        using descs_okD [OF assms(3), of idx] False ds unat_bound(3) [of "d_len ?d"]
        by (simp add: unsigned_ucast_eq take_bit_nat_eq_self)
      then have "gpaSlice mem (d_addr ?d) (ucast (d_len ?d)) \<noteq> None"
        using region_slice_total [OF assms(2)] by (simp add: gpaSlice_def)
      with False Suc show ?thesis
        by (auto simp: descAt_ready [OF assms(1) ds] Let_def split: sum.split option.split)
    qed (simp add: descAt_ready [OF assms(1) ds])
  qed simp
qed

lemma resolveChain_total:
  "ring_ready v \<Longrightarrow> list_all region_wf mem \<Longrightarrow> descs_ok v g \<Longrightarrow> \<exists>r. resolveChain v mem g head = Some r"
  using resolve_from_total by (fastforce simp: resolveChain_def)

text \<open>Chains depend on the descriptor table alone.\<close>

lemma descAt_cong:
  assumes "num v' = num v" "desc v' = desc v" "same_on (cells (sl (desc v))) g g'"
  shows "descAt v' i g' = descAt v i g"
proof (cases "subslice (sl (desc v)) (unat (ucast i * descSize)) (unat (ucast i * descSize + descSize))")
  case (Some b)
  then have "rd g b = rd g' b" using rd_cong [OF assms(3) subslice_cells] by blast
  with Some show ?thesis by (simp add: descAt_def assms(1,2) Let_def)
qed (simp add: descAt_def assms(1,2) Let_def)

lemma resolve_from_cong:
  assumes "num v' = num v" "desc v' = desc v" "same_on (cells (sl (desc v))) g g'"
  shows "resolve_from k v' mem g' idx c = resolve_from k v mem g idx c"
  using descAt_cong [OF assms]
  by (induction k arbitrary: idx c) (simp_all add: Let_def cong: option.case_cong sum.case_cong if_cong)

lemma resolveChain_cong:
  "num v' = num v \<Longrightarrow> desc v' = desc v \<Longrightarrow> same_on (cells (sl (desc v))) g g' \<Longrightarrow>
    resolveChain v' mem g' head = resolveChain v mem g head"
  by (simp add: resolveChain_def resolve_from_cong)

section \<open>The used ring as the driver reads it\<close>

definition put_used :: "slice \<Rightarrow> u32 \<Rightarrow> u16 \<Rightarrow> u16 \<times> u32 \<Rightarrow> gmem \<Rightarrow> gmem" where
  "put_used u n k e g = wr (used_cell u n k) (put_le32 (ucast (fst e)) @ put_le32 (snd e)) g"

definition put_idx :: "slice \<Rightarrow> u16 \<Rightarrow> gmem \<Rightarrow> gmem" where
  "put_idx u k g = wr (u\<lparr>sl_len := 4\<rparr>) (put_le32 (push_bit 16 (ucast k))) g"

lemma idx_word: "ucast (drop_bit 16 (push_bit 16 (ucast (w :: u16)) :: u32)) = w"
  by (rule bit_word_eqI) (auto simp: bit_simps)

lemma drv_idx_put [simp]: "drv_idx u (put_idx u k g) = k"
  by (simp add: drv_idx_def put_idx_def rd_wr_same idx_word)

lemma drv_idx_put_used [simp]: "drv_idx u (put_used u n k e g) = drv_idx u g"
  unfolding drv_idx_def put_used_def by (subst rd_wr_other) (auto simp: cells_def used_cell_def)

lemma drv_used_put_idx [simp]: "drv_used u n k (put_idx u i g) = drv_used u n k g"
  unfolding drv_used_def put_idx_def by (subst rd_wr_other, auto simp: cells_def used_cell_def)+

lemma drv_used_put_same [simp]: "drv_used u n k (put_used u n k e g) = (ucast (fst e), snd e)"
  by (simp add: drv_used_def put_used_def rd_wr_same used_cell_def)

lemma drv_used_put_other:
  assumes "unat j mod unat n \<noteq> unat k mod unat n"
  shows "drv_used u n k (put_used u n j e g) = drv_used u n k g"
proof -
  have "cells (used_cell u n j) \<inter> cells (used_cell u n k) = {}"
    using assms by (auto simp: cells_def used_cell_def)
  then show ?thesis by (simp add: drv_used_def put_used_def rd_wr_other)
qed

text \<open>Logical indexes fewer than the ring's size apart have different slots.\<close>

lemma slot_add:
  assumes "ring_ready v"
  shows "unat (x + word_of_nat k :: u16) mod unat (num v) = (unat x + k) mod unat (num v)"
  using ring_size(4) [OF assms]
  by (simp add: unat_word_ariths(1) unat_of_nat mod_mod_cancel mod_add_right_eq mod_add_left_eq)

lemma mod_slots: "i < n \<Longrightarrow> j < n \<Longrightarrow> (x + i) mod n = (x + j) mod n \<Longrightarrow> i = (j :: nat)"
proof (induction i j rule: linorder_wlog)
  case (le i j)
  from le(4) have "n dvd (x + j) - (x + i)" using mod_eq_dvd_iff_nat [of "x + i" "x + j" n] le(1) by simp
  then have "n dvd j - i" by simp
  then show ?case using le(1,3) by (auto dest: dvd_imp_le)
qed simp

lemma slots_apart:
  assumes "ring_ready v" "i < unat (num v)" "j < unat (num v)" "i \<noteq> j"
  shows "unat (x + word_of_nat i :: u16) mod unat (num v) \<noteq> unat (x + word_of_nat j) mod unat (num v)"
  using mod_slots [OF assms(2,3)] assms(4) by (auto simp: slot_add [OF assms(1)])

text \<open>Writes to the used ring stay inside its area.\<close>

lemma used_area:
  assumes "ring_ready v" "used v = Some u"
  shows "cells (used_cell u (num v) k) \<subseteq> cells u" "cells (u\<lparr>sl_len := 4\<rparr>) \<subseteq> cells u"
proof -
  have len: "sl_len u = 4 + 8 * unat (num v) + 2" using assms by (auto simp: ring_ready_def)
  have "unat k mod unat (num v) < unat (num v)" using ring_size(3) [OF assms(1)] by simp
  then show "cells (used_cell u (num v) k) \<subseteq> cells u" using len by (auto simp: cells_def used_cell_def)
  show "cells (u\<lparr>sl_len := 4\<rparr>) \<subseteq> cells u" using len by (auto simp: cells_def)
qed

lemma same_on_put:
  assumes "ring_ready v" "used v = Some u"
  shows "same_on (- cells u) g (put_used u (num v) k e g)" "same_on (- cells u) g (put_idx u k g)"
  using used_area [OF assms] by (auto simp: put_used_def put_idx_def intro!: same_on_wr)

lemma avail_area:
  assumes "ring_ready v" "avail v = Some a"
  shows "cells (a\<lparr>sl_len := 4\<rparr>) \<subseteq> cells a"
    "cells (a\<lparr>sl_off := sl_off a + 4 + 2 * (unat i mod unat (num v)), sl_len := 2\<rparr>) \<subseteq> cells a"
proof -
  have len: "sl_len a = 4 + 2 * unat (num v) + 2" using assms by (auto simp: ring_ready_def)
  have "unat i mod unat (num v) < unat (num v)" using ring_size(3) [OF assms(1)] by simp
  then show "cells (a\<lparr>sl_off := sl_off a + 4 + 2 * (unat i mod unat (num v)), sl_len := 2\<rparr>) \<subseteq> cells a"
    using len by (auto simp: cells_def)
  show "cells (a\<lparr>sl_len := 4\<rparr>) \<subseteq> cells a" using len by (auto simp: cells_def)
qed

lemma drv_avail_cong:
  assumes "ring_ready v" "avail v = Some a" "same_on (cells a) g g'"
  shows "drv_idx a g' = drv_idx a g" "drv_entry a (num v) i g' = drv_entry a (num v) i g"
  using rd_cong [OF assms(3) avail_area(1) [OF assms(1,2)]] rd_cong [OF assms(3) avail_area(2) [OF assms(1,2), of i]]
  by (simp_all add: drv_idx_def drv_entry_def)

lemma ring_ready_counters [simp]:
  "ring_ready (v\<lparr>lastAvail := i\<rparr>) = ring_ready v" "ring_ready (v\<lparr>usedIdx := i\<rparr>) = ring_ready v"
  by (simp_all add: ring_ready_def)

end
