(* ===== verification/VhostProto.thy ===== *)
theory VhostProto
  imports VS_Prelude
begin

text \<open>
  The vhost-user wire format (\<^verbatim>\<open>internal/vhostuser/proto.go\<close>): requests, replies and payloads.
  The file descriptors attached to a message arrive with its first read; how the control message encodes them is the kernel's.
\<close>

section \<open>Constants\<close>

definition reqGetFeatures :: u32 where "reqGetFeatures = 1"
definition reqSetFeatures :: u32 where "reqSetFeatures = 2"
definition reqSetOwner :: u32 where "reqSetOwner = 3"
definition reqResetOwner :: u32 where "reqResetOwner = 4"
definition reqSetMemTable :: u32 where "reqSetMemTable = 5"
definition reqSetVringNum :: u32 where "reqSetVringNum = 8"
definition reqSetVringAddr :: u32 where "reqSetVringAddr = 9"
definition reqSetVringBase :: u32 where "reqSetVringBase = 10"
definition reqGetVringBase :: u32 where "reqGetVringBase = 11"
definition reqSetVringKick :: u32 where "reqSetVringKick = 12"
definition reqSetVringCall :: u32 where "reqSetVringCall = 13"
definition reqSetVringErr :: u32 where "reqSetVringErr = 14"
definition reqGetProtocolFeatures :: u32 where "reqGetProtocolFeatures = 15"
definition reqSetProtocolFeatures :: u32 where "reqSetProtocolFeatures = 16"
definition reqSetVringEnable :: u32 where "reqSetVringEnable = 18"

definition flagVersion1 :: u32 where "flagVersion1 = 0x1"
definition flagReply :: u32 where "flagReply = 0x4"
definition flagNeedReply :: u32 where "flagNeedReply = 0x8"

definition featNetMrgRxbuf :: u64 where "featNetMrgRxbuf = 0x8000"
definition featVersion1 :: u64 where "featVersion1 = 0x100000000"
definition featAccessPlatform :: u64 where "featAccessPlatform = 0x200000000"
definition featProtocolFeatures :: u64 where "featProtocolFeatures = 0x40000000"
definition protoFeatReplyAck :: u64 where "protoFeatReplyAck = 0x8"

definition supportedFeatures :: u64 where
  "supportedFeatures = featVersion1 OR featNetMrgRxbuf OR featProtocolFeatures"

definition supportedProtocolFeatures :: u64 where "supportedProtocolFeatures = protoFeatReplyAck"

definition hdrSize :: nat where "hdrSize = 12"
definition maxPayloadSize :: u32 where "maxPayloadSize = 4096"
definition invalidFDFlag :: u64 where "invalidFDFlag = 0x100"
definition vringIdxMask :: u64 where "vringIdxMask = 0xff"

lemmas req_defs = reqGetFeatures_def reqSetFeatures_def reqSetOwner_def reqResetOwner_def reqSetMemTable_def
  reqSetVringNum_def reqSetVringAddr_def reqSetVringBase_def reqGetVringBase_def reqSetVringKick_def
  reqSetVringCall_def reqSetVringErr_def reqGetProtocolFeatures_def reqSetProtocolFeatures_def reqSetVringEnable_def

section \<open>Messages\<close>

record message =
  req :: u32
  flags :: u32
  payload :: "byte list"
  fds :: "int list"

datatype read_error = ConnClosed | PayloadTooLarge u32

definition readMsg :: "int list \<Rightarrow> conn \<Rightarrow> read_error + (message \<times> conn)" where
  "readMsg attached cs =
    (case conn_read hdrSize cs of
       None \<Rightarrow> Inl ConnClosed
     | Some (h0, cs0) \<Rightarrow>
         (case read_rest hdrSize (hdrSize - length h0) h0 cs0 of
            None \<Rightarrow> Inl ConnClosed
          | Some (hdr, cs1) \<Rightarrow>
              (let size = le32 (bslice 8 12 hdr)
               in if size > maxPayloadSize then Inl (PayloadTooLarge size)
                  else (case read_rest (unat size) (unat size) [] cs1 of
                          None \<Rightarrow> Inl ConnClosed
                        | Some (pl, cs2) \<Rightarrow>
                            Inr (\<lparr>req = le32 (bslice 0 4 hdr), flags = le32 (bslice 4 8 hdr),
                                  payload = pl, fds = attached\<rparr>, cs2)))))"

text \<open>The bytes \<^verbatim>\<open>writeReply\<close> sends.\<close>

definition writeReply :: "u32 \<Rightarrow> byte list \<Rightarrow> byte list" where
  "writeReply rq pl =
    (let b0 = replicate (hdrSize + length pl) 0;
         b1 = blit b0 0 (put_le32 rq);
         b2 = blit b1 4 (put_le32 (flagVersion1 OR flagReply));
         b3 = blit b2 8 (put_le32 (word_of_nat (length pl)))
     in blit b3 hdrSize pl)"

definition u64Payload :: "u64 \<Rightarrow> byte list" where
  "u64Payload v = put_le64 v"

definition vringStatePayload :: "byte list \<Rightarrow> (u32 \<times> u32) option" where
  "vringStatePayload p = (if length p < 8 then None else Some (le32 (bslice 0 4 p), le32 (bslice 4 8 p)))"

record vringAddr =
  va_index :: u32
  va_flags :: u32
  va_desc :: u64
  va_used :: u64
  va_avail :: u64
  va_log :: u64

definition parseVringAddr :: "byte list \<Rightarrow> vringAddr option" where
  "parseVringAddr p = (if length p < 40 then None else
     Some \<lparr>va_index = le32 (bslice 0 4 p), va_flags = le32 (bslice 4 8 p), va_desc = le64 (bslice 8 16 p),
           va_used = le64 (bslice 16 24 p), va_avail = le64 (bslice 24 32 p), va_log = le64 (bslice 32 40 p)\<rparr>)"

section \<open>Reading is independent of fragmentation\<close>

text \<open>The bytes of a message on the wire.\<close>

definition encode_msg :: "message \<Rightarrow> byte list" where
  "encode_msg m = put_le32 (req m) @ put_le32 (flags m) @ put_le32 (word_of_nat (length (payload m))) @ payload m"

lemma writeReply_encode:
  "writeReply rq pl = encode_msg \<lparr>req = rq, flags = flagVersion1 OR flagReply, payload = pl, fds = []\<rparr>"
proof -
  have z: "(replicate (hdrSize + length pl) 0 :: byte list) = replicate 4 0 @ replicate 4 0 @ replicate 4 0 @ replicate (length pl) 0"
    by (simp flip: replicate_add add: hdrSize_def)
  show ?thesis unfolding writeReply_def Let_def z hdrSize_def by (simp add: blit_fields encode_msg_def)
qed

lemma readMsg_stream:
  assumes "[] \<notin> set cs" "concat cs = h @ rest" "length h = hdrSize"
    and "le32 (bslice 8 12 h) \<le> maxPayloadSize" "unat (le32 (bslice 8 12 h)) \<le> length rest"
  shows "\<exists>cs'. readMsg attached cs = Inr (\<lparr>req = le32 (bslice 0 4 h), flags = le32 (bslice 4 8 h),
      payload = take (unat (le32 (bslice 8 12 h))) rest, fds = attached\<rparr>, cs')
    \<and> concat cs' = drop (unat (le32 (bslice 8 12 h))) rest \<and> [] \<notin> set cs'"
proof -
  have "concat cs \<noteq> []" using assms(2,3) by (auto simp: hdrSize_def)
  then obtain h0 cs0 where r0: "conn_read hdrSize cs = Some (h0, cs0)" by (cases cs) auto
  note c0 = conn_read_Some [OF r0 assms(1)]
  let ?left = "hdrSize - length h0"
  have "?left \<le> length (concat cs0)" "?left \<le> hdrSize" using c0(1) assms(2,3) by (auto dest: arg_cong [of _ _ length])
  from read_rest_concat [OF c0(2) this, of h0] obtain cs1 where
    r1: "read_rest hdrSize ?left h0 cs0 = Some (h0 @ take ?left (concat cs0), cs1)"
    and c1: "concat cs1 = drop ?left (concat cs0)" "[] \<notin> set cs1" by blast
  have h: "h0 @ take ?left (concat cs0) = h" and rest: "concat cs1 = rest"
    using arg_cong [OF c0(1), of "take hdrSize"] arg_cong [OF c0(1), of "drop hdrSize"] c0(3) assms(2,3) c1(1) by auto
  let ?n = "unat (le32 (bslice 8 12 h))"
  from read_rest_concat [OF c1(2), of ?n ?n "[]"] assms(5) rest obtain cs2 where
    "read_rest ?n ?n [] cs1 = Some (take ?n rest, cs2)" "concat cs2 = drop ?n rest" "[] \<notin> set cs2" by auto
  then show ?thesis
    using assms(4) by (auto simp: readMsg_def r0 r1 h Let_def)
qed

section \<open>Properties\<close>

text \<open>
  C34. However the kernel fragments the stream, reading a message gives the message that was sent,
  with the bytes after it left for the next read: header and payload are reassembled from any
  sequence of non-empty chunks.
\<close>

theorem message_round_trip:
  assumes "[] \<notin> set cs" "concat cs = encode_msg m @ rest" "length (payload m) \<le> 4096"
  shows "\<exists>cs'. readMsg (fds m) cs = Inr (m, cs') \<and> concat cs' = rest \<and> [] \<notin> set cs'"
proof -
  let ?n = "word_of_nat (length (payload m)) :: u32"
  let ?h = "put_le32 (req m) @ put_le32 (flags m) @ put_le32 ?n"
  have n: "unat ?n = length (payload m)" "?n \<le> maxPayloadSize"
    using assms(3) by (simp_all add: unat_of_nat maxPayloadSize_def word_le_nat_alt)
  have f: "le32 (bslice 0 4 ?h) = req m" "le32 (bslice 4 8 ?h) = flags m" "le32 (bslice 8 12 ?h) = ?n"
    by (simp_all add: bslice_def)
  have "concat cs = ?h @ (payload m @ rest)" "length ?h = hdrSize"
    using assms(2) by (simp_all add: encode_msg_def hdrSize_def)
  from readMsg_stream [OF assms(1) this, of "fds m", unfolded f n(1)] n(2)
  show ?thesis by (cases m) simp
qed

theorem message_round_trip_witness:
  "\<exists>cs'. readMsg [5] [[1, 0, 0], [0, 9, 0, 0, 0, 2, 0, 0, 0, 7], [8, 4]] =
    Inr (\<lparr>req = 1, flags = 9, payload = [7, 8], fds = [5]\<rparr>, cs') \<and> concat cs' = [4] \<and> [] \<notin> set cs'"
proof -
  have "concat [[1, 0, 0], [0, 9, 0, 0, 0, 2, 0, 0, 0, 7], [8, 4]] =
      encode_msg \<lparr>req = 1, flags = 9, payload = [7, 8], fds = [5]\<rparr> @ [4]"
    by code_simp
  from message_round_trip [OF _ this] show ?thesis by simp
qed

end
