(* ===== verification/VhostDevice.thy ===== *)
theory VhostDevice
  imports Vring VhostProto
begin

text \<open>
  The vhost-user network device (\<^verbatim>\<open>internal/vhostuser/device.go\<close>): one session with a front-end.
  Every method runs under the device's lock and is one step. Calls out of the device are recorded
  in its log: replies, closed descriptors, unmapped regions, started pumps, eventfd writes, state
  reports and frames handed to the switch. Both handlers are set, as the only caller does.
\<close>

section \<open>State\<close>

definition rxQueue :: nat where "rxQueue = 0"
definition txQueue :: nat where "txQueue = 1"
definition nQueues :: u32 where "nQueues = 2"
definition maxFrameSize :: nat where "maxFrameSize = 65535"

datatype dev_event = Replied u32 "byte list" | FdClosed int | Unmapped slice | PumpStarted int
  | EventWritten int | StateReported bool | FrameDelivered "byte list" | ConnShut

datatype dev_error = UnsupportedFeatures u64 | ShortPayload | BadVringNum u32 u32 | BadVringIndex u32
  | AddrTooEarly | AreaError mem_error | TableError mem_error | NoVringFd | UnsupportedRequest u32 | ReplyFailed

record netDevice =
  features :: u64
  offered :: u64
  protoFeatures :: u64
  protoOn :: bool
  dmem :: "memTable option"
  rings :: "vring list"
  dclosed :: bool
  dlog :: "dev_event list"

definition NewNetDevice :: "bool \<Rightarrow> netDevice" where
  "NewNetDevice accessPlatform =
    \<lparr>features = 0, offered = (if accessPlatform then supportedFeatures OR featAccessPlatform else supportedFeatures),
     protoFeatures = 0, protoOn = False, dmem = None, rings = [newVring, newVring], dclosed = False, dlog = []\<rparr>"

definition log_ev :: "dev_event list \<Rightarrow> netDevice \<Rightarrow> netDevice" where
  "log_ev es d = d\<lparr>dlog := dlog d @ es\<rparr>"

definition ring_at :: "netDevice \<Rightarrow> nat \<Rightarrow> vring" where
  "ring_at d i = rings d ! i"

definition set_ring :: "nat \<Rightarrow> vring \<Rightarrow> netDevice \<Rightarrow> netDevice" where
  "set_ring i v d = d\<lparr>rings := (rings d)[i := v]\<rparr>"

text \<open>\<^verbatim>\<open>d.ring(idx)\<close>, nil for an index out of range.\<close>

definition ring_of :: "u32 \<Rightarrow> nat option" where
  "ring_of idx = (if idx \<ge> nQueues then None else Some (unat idx))"

section \<open>Starting and stopping rings\<close>

definition stopped_ring :: "vring \<Rightarrow> vring" where
  "stopped_ring v = v\<lparr>started := False, kick := None, call := None, desc := None, avail := None, used := None,
     enabled := False\<rparr>"

definition stopRingLocked :: "nat \<Rightarrow> netDevice \<Rightarrow> netDevice" where
  "stopRingLocked i d =
    (let v = ring_at d i
     in log_ev (map FdClosed (case kick v of Some k \<Rightarrow> [k] | None \<Rightarrow> []) @
                map FdClosed (case call v of Some c \<Rightarrow> [c] | None \<Rightarrow> []))
          (set_ring i (stopped_ring v) d))"

definition evalRingLocked :: "nat \<Rightarrow> netDevice \<Rightarrow> netDevice" where
  "evalRingLocked i d =
    (let v = ring_at d i
     in if started v then d
        else case kick v of
          None \<Rightarrow> d
        | Some k \<Rightarrow>
            if dmem d = None \<or> num v = 0 \<or> desc v = None then d
            else if protoOn d \<and> \<not> enabled v then d
            else if i = txQueue then
              (if \<not> pumpRunning v
               then log_ev [PumpStarted k, StateReported True] (set_ring i (v\<lparr>started := True, pumpRunning := True\<rparr>) d)
               else log_ev [EventWritten k, StateReported True] (set_ring i (v\<lparr>started := True\<rparr>) d))
            else set_ring i (v\<lparr>started := True\<rparr>) d)"

definition stopRings :: "netDevice \<Rightarrow> netDevice" where
  "stopRings d = stopRingLocked txQueue (stopRingLocked rxQueue d)"

definition evalRings :: "netDevice \<Rightarrow> netDevice" where
  "evalRings d = evalRingLocked txQueue (evalRingLocked rxQueue d)"

definition closeMem :: "netDevice \<Rightarrow> netDevice" where
  "closeMem d = (case dmem d of None \<Rightarrow> d
     | Some t \<Rightarrow> log_ev (map Unmapped (fst (close_table t))) (d\<lparr>dmem := None\<rparr>))"

definition CloseDev :: "netDevice \<Rightarrow> netDevice" where
  "CloseDev d = (if dclosed d then d
     else closeMem (stopRings (log_ev [ConnShut] (d\<lparr>dclosed := True\<rparr>))))"

definition mrgRxbufLocked :: "netDevice \<Rightarrow> bool" where
  "mrgRxbufLocked d \<longleftrightarrow> features d AND featNetMrgRxbuf \<noteq> 0"

section \<open>Control requests\<close>

text \<open>A request's outcome: an error or none, and the new state; \<open>None\<close> is a panic.\<close>

type_synonym outcome = "(dev_error option \<times> netDevice) option"

definition setMemTableLocked :: "mmap_fn \<Rightarrow> u64 \<Rightarrow> message \<Rightarrow> netDevice \<Rightarrow> outcome" where
  "setMemTableLocked mmap pageMask m d =
    (case parseMemTable mmap pageMask (payload m) (fds m) of
       None \<Rightarrow> None
     | Some (Inl e) \<Rightarrow> Some (Some (TableError e), d)
     | Some (Inr t) \<Rightarrow>
         (let d1 = (if dmem d \<noteq> None then closeMem (stopRings d) else d)
          in Some (None, evalRings (d1\<lparr>dmem := Some t\<rparr>))))"

text \<open>
  The three assignments \<^verbatim>\<open>if v.desc, err = ...; err != nil\<close>: the field is overwritten with nil
  when the lookup fails.
\<close>

definition setVringAddrLocked :: "gmem \<Rightarrow> byte list \<Rightarrow> netDevice \<Rightarrow> outcome" where
  "setVringAddrLocked g p d =
    (case parseVringAddr p of
       None \<Rightarrow> Some (Some ShortPayload, d)
     | Some a \<Rightarrow>
         (case ring_of (va_index a) of
            None \<Rightarrow> Some (Some (BadVringIndex (va_index a)), d)
          | Some i \<Rightarrow>
              (let v = ring_at d i; n = ucast (num v) :: u64
               in case dmem d of
                    None \<Rightarrow> Some (Some AddrTooEarly, d)
                  | Some t \<Rightarrow>
                      if num v = 0 then Some (Some AddrTooEarly, d)
                      else do {
                        ds \<leftarrow> uvaSlice t (va_desc a) (n * ucast descSize);
                        case ds of Inl e \<Rightarrow> Some (Some (AreaError e), set_ring i (v\<lparr>desc := None\<rparr>) d)
                        | Inr ds \<Rightarrow> do {
                            let v1 = v\<lparr>desc := Some ds\<rparr>;
                            av \<leftarrow> uvaSlice t (va_avail a) (4 + n * 2 + 2);
                            case av of Inl e \<Rightarrow> Some (Some (AreaError e), set_ring i (v1\<lparr>avail := None\<rparr>) d)
                            | Inr av \<Rightarrow> do {
                                let v2 = v1\<lparr>avail := Some av\<rparr>;
                                us \<leftarrow> uvaSlice t (va_used a) (4 + n * 8 + 2);
                                case us of Inl e \<Rightarrow> Some (Some (AreaError e), set_ring i (v2\<lparr>used := None\<rparr>) d)
                                | Inr us \<Rightarrow> do {
                                    w \<leftarrow> atomicLoadU32 g us;
                                    Some (None, evalRingLocked i
                                      (set_ring i (v2\<lparr>used := Some us, usedIdx := ucast (drop_bit 16 w)\<rparr>) d))
                                  }
                              }
                          }
                      })))"

text \<open>
  \<^verbatim>\<open>setVringFDLocked\<close>: returns also the descriptors left on the message, which \<^verbatim>\<open>handle\<close> closes.
\<close>

definition setVringFDLocked :: "message \<Rightarrow> bool \<Rightarrow> netDevice \<Rightarrow> dev_error option \<times> netDevice \<times> int list" where
  "setVringFDLocked m isKick d =
    (if length (payload m) < 8 then (Some ShortPayload, d, fds m)
     else let val = le64 (payload m); idx = ucast (val AND vringIdxMask) :: u32
          in case ring_of idx of
               None \<Rightarrow> (Some (BadVringIndex idx), d, fds m)
             | Some i \<Rightarrow>
                 if val AND invalidFDFlag = 0 \<and> fds m = [] then (Some NoVringFd, d, fds m)
                 else let (f, left) = (if val AND invalidFDFlag = 0 then (Some (hd (fds m)), tl (fds m)) else (None, fds m));
                          v = ring_at d i
                      in if isKick then
                           (case kick v of
                              Some k \<Rightarrow> (None, evalRingLocked i (log_ev [FdClosed k]
                                          (set_ring i (v\<lparr>started := False, kick := f\<rparr>) d)), left)
                            | None \<Rightarrow> (None, evalRingLocked i (set_ring i (v\<lparr>kick := f\<rparr>) d), left))
                         else (case call v of
                              Some c \<Rightarrow> (None, evalRingLocked i (log_ev [FdClosed c] (set_ring i (v\<lparr>call := f\<rparr>) d)), left)
                            | None \<Rightarrow> (None, evalRingLocked i (set_ring i (v\<lparr>call := f\<rparr>) d), left)))"

definition pow2_size :: "u32 \<Rightarrow> bool" where
  "pow2_size n \<longleftrightarrow> n > 0 \<and> n \<le> 32768 \<and> n AND (n - 1) = 0"

text \<open>The requests with no reply: the error, the state and the descriptors still to close.\<close>

definition handleReq :: "mmap_fn \<Rightarrow> u64 \<Rightarrow> gmem \<Rightarrow> message \<Rightarrow> netDevice
    \<Rightarrow> (dev_error option \<times> byte list option \<times> netDevice \<times> int list) option" where
  "handleReq mmap pageMask g m d =
    (let p = payload m; rest = fds m
     in if req m = reqGetFeatures then Some (None, Some (u64Payload (offered d)), d, rest)
        else if req m = reqSetFeatures then
          (if length p \<ge> 8 then
             (let feats = le64 p
              in if feats AND NOT (offered d) \<noteq> 0
                 then Some (Some (UnsupportedFeatures (feats AND NOT (offered d))), None, d, rest)
                 else Some (None, None, d\<lparr>features := feats, protoOn := (feats AND featProtocolFeatures \<noteq> 0)\<rparr>, rest))
           else Some (None, None, d, rest))
        else if req m = reqGetProtocolFeatures then Some (None, Some (u64Payload supportedProtocolFeatures), d, rest)
        else if req m = reqSetProtocolFeatures then
          Some (None, None, if length p \<ge> 8 then d\<lparr>protoFeatures := le64 p\<rparr> else d, rest)
        else if req m = reqSetOwner \<or> req m = reqSetVringErr then Some (None, None, d, rest)
        else if req m = reqResetOwner then Some (None, None, stopRings d, rest)
        else if req m = reqSetMemTable then
          map_option (\<lambda>(e, d'). (e, None, d', rest)) (setMemTableLocked mmap pageMask m d)
        else if req m = reqSetVringNum then
          (case vringStatePayload p of
             None \<Rightarrow> Some (Some ShortPayload, None, d, rest)
           | Some (idx, n) \<Rightarrow>
               (case ring_of idx of
                  Some i \<Rightarrow> if pow2_size n then Some (None, None, set_ring i ((ring_at d i)\<lparr>num := n\<rparr>) d, rest)
                           else Some (Some (BadVringNum n idx), None, d, rest)
                | None \<Rightarrow> Some (Some (BadVringNum n idx), None, d, rest)))
        else if req m = reqSetVringBase then
          (case vringStatePayload p of
             None \<Rightarrow> Some (Some ShortPayload, None, d, rest)
           | Some (idx, base) \<Rightarrow>
               (case ring_of idx of
                  Some i \<Rightarrow> Some (None, None, set_ring i ((ring_at d i)\<lparr>lastAvail := ucast base\<rparr>) d, rest)
                | None \<Rightarrow> Some (None, None, d, rest)))
        else if req m = reqGetVringBase then
          (case vringStatePayload p of
             None \<Rightarrow> Some (Some ShortPayload, None, d, rest)
           | Some (idx, _) \<Rightarrow>
               (case ring_of idx of
                  Some i \<Rightarrow> Some (None, Some (put_le32 idx @ put_le32 (ucast (lastAvail (ring_at d i)))),
                               stopRingLocked i d, rest)
                | None \<Rightarrow> Some (Some (BadVringIndex idx), None, d, rest)))
        else if req m = reqSetVringAddr then
          map_option (\<lambda>(e, d'). (e, None, d', rest)) (setVringAddrLocked g p d)
        else if req m = reqSetVringKick then
          (case setVringFDLocked m True d of (e, d', left) \<Rightarrow> Some (e, None, d', left))
        else if req m = reqSetVringCall then
          (case setVringFDLocked m False d of (e, d', left) \<Rightarrow> Some (e, None, d', left))
        else if req m = reqSetVringEnable then
          (case vringStatePayload p of
             None \<Rightarrow> Some (Some ShortPayload, None, d, rest)
           | Some (idx, on) \<Rightarrow>
               (case ring_of idx of
                  None \<Rightarrow> Some (None, None, d, rest)
                | Some i \<Rightarrow>
                    (let v = ring_at d i
                     in if on = 0 then Some (None, None, set_ring i (v\<lparr>enabled := False, started := False\<rparr>) d, rest)
                        else Some (None, None, evalRingLocked i (set_ring i (v\<lparr>enabled := True\<rparr>) d), rest))))
        else Some (Some (UnsupportedRequest (req m)), None, d, rest))"

text \<open>
  \<^verbatim>\<open>handle\<close>: the reply or the acknowledgement, then the deferred close of the descriptors left.
  Whether the write of the reply succeeds is the argument \<open>write_ok\<close>.
\<close>

definition handle :: "mmap_fn \<Rightarrow> u64 \<Rightarrow> gmem \<Rightarrow> bool \<Rightarrow> message \<Rightarrow> netDevice \<Rightarrow> outcome" where
  "handle mmap pageMask g write_ok m d =
    map_option (\<lambda>(e, reply, d1, left).
      let close_left = log_ev (map FdClosed left);
          sent = (\<lambda>pl. log_ev [Replied (req m) pl] d1)
      in case reply of
           Some pl \<Rightarrow> (if write_ok then None else Some ReplyFailed, close_left (sent pl))
         | None \<Rightarrow>
             if flags m AND flagNeedReply \<noteq> 0 \<and> protoFeatures d1 AND protoFeatReplyAck \<noteq> 0 then
               (let d2 = sent (u64Payload (if e = None then 0 else 1))
                in (if write_ok then e else Some ReplyFailed, close_left d2))
             else (e, close_left d1))
      (handleReq mmap pageMask g m d)"

text \<open>One iteration of \<^verbatim>\<open>serve\<close>: an error ends the session.\<close>

definition serve_end :: "netDevice \<Rightarrow> netDevice" where
  "serve_end d = log_ev [StateReported False] (CloseDev d)"

definition serve :: "mmap_fn \<Rightarrow> u64 \<Rightarrow> gmem \<Rightarrow> bool \<Rightarrow> message \<Rightarrow> netDevice \<Rightarrow> netDevice option" where
  "serve mmap pageMask g write_ok m d =
    map_option (\<lambda>(e, d'). if e = None then d' else serve_end d') (handle mmap pageMask g write_ok m d)"

end
