(* ===== verification/VhostData.thy ===== *)
theory VhostData
  imports VhostDevice
begin

text \<open>
  The data plane of the vhost-user device (\<^verbatim>\<open>internal/vhostuser/device.go\<close>): draining the transmit
  queue and writing frames into the receive queue. Loops over the available ring take fuel, since
  the ring's index is in guest memory; running out of it is a result of its own.
\<close>

section \<open>Transmit\<close>

text \<open>The copy loop of \<^verbatim>\<open>gatherTX\<close> over the segments' contents.\<close>

fun gather :: "nat \<Rightarrow> byte list list \<Rightarrow> byte list" where
  "gather skip [] = []"
| "gather skip (s # ss) = (if skip \<ge> length s then gather (skip - length s) ss else drop skip s @ gather 0 ss)"

definition gatherTX :: "gmem \<Rightarrow> chain \<Rightarrow> byte list option" where
  "gatherTX g c =
    (let total = sum_list (map sl_len (readable c))
     in if total \<le> virtioNetHdrSize \<or> total - virtioNetHdrSize > maxFrameSize then None
        else Some (gather virtioNetHdrSize (map (rd g) (readable c))))"

datatype drain_result = Drained "byte list list" nat vring gmem | DrainFuel

text \<open>The loop of \<^verbatim>\<open>drainTXLocked\<close>, with the frames and the count so far.\<close>

fun drain_loop :: "nat \<Rightarrow> memTable \<Rightarrow> byte list list \<Rightarrow> nat \<Rightarrow> vring \<Rightarrow> gmem \<Rightarrow> drain_result option" where
  "drain_loop 0 mem frames count v g = Some DrainFuel"
| "drain_loop (Suc fuel) mem frames count v g =
    (case popAvail v g of
       None \<Rightarrow> None
     | Some (None, v1) \<Rightarrow> Some (Drained frames count v1 g)
     | Some (Some head, v1) \<Rightarrow>
         (case resolveChain v1 mem g head of
            None \<Rightarrow> None
          | Some res \<Rightarrow>
              (let frames1 = (case res of Inl e \<Rightarrow> frames
                              | Inr c \<Rightarrow> (case gatherTX g c of Some fr \<Rightarrow> frames @ [fr] | None \<Rightarrow> frames))
               in do {
                    g1 \<leftarrow> setUsedElem 0 head 0 v1 g;
                    (v2, g2) \<leftarrow> publishUsed 1 (v1, g1);
                    drain_loop fuel mem frames1 (Suc count) v2 g2
                  })))"

definition drainTXLocked :: "nat \<Rightarrow> memTable \<Rightarrow> vring \<Rightarrow> gmem \<Rightarrow> (drain_result \<times> dev_event list) option" where
  "drainTXLocked fuel mem v g =
    do { r \<leftarrow> drain_loop fuel mem [] 0 v g;
         case r of
           DrainFuel \<Rightarrow> Some (DrainFuel, [])
         | Drained frames count v1 g1 \<Rightarrow>
             if count > 0 then do { n \<leftarrow> notify v1 g1; Some (r, case n of Some fd \<Rightarrow> [EventWritten fd] | None \<Rightarrow> []) }
             else Some (r, []) }"

text \<open>
  \<^verbatim>\<open>txPump\<close>: what one iteration does before it blocks on the kick descriptor, and the deferred
  function when that descriptor was closed.
\<close>

definition txPump :: "nat \<Rightarrow> netDevice \<Rightarrow> gmem \<Rightarrow> (netDevice \<times> gmem) option option" where
  "txPump fuel d g =
    (case dmem d of
       None \<Rightarrow> Some (Some (d, g))
     | Some mem \<Rightarrow>
         if \<not> started (ring_at d txQueue) then Some (Some (d, g))
         else do { (r, evs) \<leftarrow> drainTXLocked fuel mem (ring_at d txQueue) g;
                   case r of
                     DrainFuel \<Rightarrow> Some None
                   | Drained frames count v g1 \<Rightarrow>
                       Some (Some (log_ev (evs @ map FrameDelivered frames) (set_ring txQueue v d), g1)) })"

definition txPump_exit :: "netDevice \<Rightarrow> netDevice" where
  "txPump_exit d =
    (let v = (ring_at d txQueue)\<lparr>pumpRunning := False\<rparr>
     in case kick v of
          Some k \<Rightarrow> if started v then log_ev [PumpStarted k] (set_ring txQueue (v\<lparr>pumpRunning := True\<rparr>) d)
                   else set_ring txQueue v d
        | None \<Rightarrow> set_ring txQueue v d)"

section \<open>Receive\<close>

record wstate =
  remaining :: nat
  src :: "byte list"
  hdrLeft :: nat
  hdrSeg :: "slice option"
  written :: u32

text \<open>
  The inner loop: copy header bytes, then frame bytes, into one segment. An iteration that copies
  nothing would not end; the fuel, one more than the segment's length, is then exhausted and the
  result is \<open>None\<close>.
\<close>

fun fill_seg :: "nat \<Rightarrow> slice \<Rightarrow> wstate \<Rightarrow> gmem \<Rightarrow> (wstate \<times> gmem) option" where
  "fill_seg fuel seg w g =
    (if sl_len seg = 0 \<or> remaining w = 0 then Some (w, g)
     else case fuel of
       0 \<Rightarrow> None
     | Suc k \<Rightarrow>
         if hdrLeft w > 0 then
           (let bs = drop (virtioNetHdrSize - hdrLeft w) (replicate virtioNetHdrSize 0);
                n = min (sl_len seg) (length bs)
            in do { seg' \<leftarrow> tail_from seg n;
                    fill_seg k seg' (w\<lparr>hdrSeg := (if hdrSeg w = None then Some seg else hdrSeg w),
                       hdrLeft := hdrLeft w - n, remaining := remaining w - n, written := written w + word_of_nat n\<rparr>)
                      (wr seg bs g) })
         else
           (let n = min (sl_len seg) (length (src w))
            in do { seg' \<leftarrow> tail_from seg n;
                    fill_seg k seg' (w\<lparr>src := drop n (src w), remaining := remaining w - n,
                       written := written w + word_of_nat n\<rparr>) (wr seg (src w) g) }))"

declare fill_seg.simps [simp del]

fun fill_chain :: "slice list \<Rightarrow> wstate \<Rightarrow> gmem \<Rightarrow> (wstate \<times> gmem) option" where
  "fill_chain [] w g = Some (w, g)"
| "fill_chain (seg # segs) w g =
    do { (w1, g1) \<leftarrow> fill_seg (Suc (sl_len seg)) seg w g;
         if remaining w1 = 0 then Some (w1, g1) else fill_chain segs w1 g1 }"

datatype rx_result = RxFilled vring wstate "(u16 \<times> u32) list" gmem | RxMalformed vring "u16 list" gmem | RxFuel

text \<open>The outer loop: pop chains until the frame is placed or there is none left.\<close>

fun rx_loop :: "nat \<Rightarrow> bool \<Rightarrow> memTable \<Rightarrow> vring \<Rightarrow> wstate \<Rightarrow> (u16 \<times> u32) list \<Rightarrow> gmem \<Rightarrow> rx_result option" where
  "rx_loop fuel mrg mem v w us g =
    (if remaining w = 0 \<or> (\<not> mrg \<and> length us = 1) then Some (RxFilled v w us g)
     else case fuel of
       0 \<Rightarrow> Some RxFuel
     | Suc k \<Rightarrow>
         (case popAvail v g of
            None \<Rightarrow> None
          | Some (None, v1) \<Rightarrow> Some (RxFilled v1 w us g)
          | Some (Some head, v1) \<Rightarrow>
              (case resolveChain v1 mem g head of
                 None \<Rightarrow> None
               | Some (Inl e) \<Rightarrow> Some (RxMalformed v1 (map fst us @ [head]) g)
               | Some (Inr c) \<Rightarrow>
                   do { (w1, g1) \<leftarrow> fill_chain (writable c) (w\<lparr>written := 0\<rparr>) g;
                        rx_loop k mrg mem v1 w1 (us @ [(head, written w1)]) g1 })))"

declare rx_loop.simps [simp del]

text \<open>Fill consecutive used elements from the given slot on.\<close>

fun setUsedElems :: "nat \<Rightarrow> (u16 \<times> u32) list \<Rightarrow> vring \<Rightarrow> gmem \<Rightarrow> gmem option" where
  "setUsedElems i [] v g = Some g"
| "setUsedElems i ((h, n) # us) v g =
    do { g1 \<leftarrow> setUsedElem (word_of_nat i) h n v g; setUsedElems (Suc i) us v g1 }"

definition publish :: "(u16 \<times> u32) list \<Rightarrow> vring \<Rightarrow> gmem \<Rightarrow> (vring \<times> gmem \<times> dev_event list) option" where
  "publish us v g =
    do { g1 \<leftarrow> setUsedElems 0 us v g;
         (v2, g2) \<leftarrow> publishUsed (word_of_nat (length us)) (v, g1);
         n \<leftarrow> notify v2 g2;
         Some (v2, g2, case n of Some fd \<Rightarrow> [EventWritten fd] | None \<Rightarrow> []) }"

definition patchNumBuffers :: "slice option \<Rightarrow> nat \<Rightarrow> gmem \<Rightarrow> gmem" where
  "patchNumBuffers hs n g =
    (if sl_len (sl hs) \<ge> virtioNetHdrSize
     then wr ((sl hs)\<lparr>sl_off := sl_off (sl hs) + 10, sl_len := 2\<rparr>) (put_le16 (word_of_nat n)) g
     else g)"

definition WriteFrame :: "nat \<Rightarrow> byte list \<Rightarrow> netDevice \<Rightarrow> gmem \<Rightarrow> (bool \<times> netDevice \<times> gmem) option option" where
  "WriteFrame fuel frame d g =
    (let v = ring_at d rxQueue
     in if length frame > maxFrameSize then Some (Some (False, d, g))
        else case dmem d of
          None \<Rightarrow> Some (Some (False, d, g))
        | Some mem \<Rightarrow>
            if \<not> started v then Some (Some (False, d, g))
            else do {
              r \<leftarrow> rx_loop fuel (mrgRxbufLocked d) mem v
                     \<lparr>remaining = virtioNetHdrSize + length frame, src = frame, hdrLeft = virtioNetHdrSize,
                      hdrSeg = None, written = 0\<rparr> [] g;
              case r of
                RxFuel \<Rightarrow> Some None
              | RxMalformed v1 heads g1 \<Rightarrow>
                  do { (v2, g2, evs) \<leftarrow> publish (map (\<lambda>h. (h, 0)) heads) v1 g1;
                       Some (Some (False, log_ev evs (set_ring rxQueue v2 d), g2)) }
              | RxFilled v1 w us g1 \<Rightarrow>
                  if remaining w > 0
                  then Some (Some (False, set_ring rxQueue (v1\<lparr>lastAvail := lastAvail v\<rparr>) d, g1))
                  else do { (v2, g2, evs) \<leftarrow> publish us v1 (patchNumBuffers (hdrSeg w) (length us) g1);
                            Some (Some (True, log_ev evs (set_ring rxQueue v2 d), g2)) }
            })"

end
