(* ===== verification/VhostTx.thy ===== *)
theory VhostTx
  imports VhostData
begin

text \<open>
  What draining the transmit queue does (\<^verbatim>\<open>drainTXLocked\<close> in \<^verbatim>\<open>internal/vhostuser/device.go\<close>): for
  a driver that keeps its rings apart and wraps no address, every available chain is consumed once,
  in order, its frame handed on without the virtio header and its buffer returned. A driver whose
  two rings overlap keeps the loop running for ever.
\<close>

section \<open>Frames\<close>

text \<open>The frame in a chain, by concatenating the readable segments and dropping the header.\<close>

definition chain_frame :: "gmem \<Rightarrow> chain \<Rightarrow> byte list option" where
  "chain_frame g c =
    (let bs = concat (map (rd g) (readable c))
     in if length bs \<le> 12 \<or> length bs > 12 + 65535 then None else Some (drop 12 bs))"

lemma gather_concat: "gather skip ss = drop skip (concat ss)"
  by (induction skip ss rule: gather.induct) auto

lemma gatherTX_chain_frame: "gatherTX g c = chain_frame g c"
proof -
  have "length (concat (map (rd g) (readable c))) = sum_list (map sl_len (readable c))"
    by (simp add: length_concat comp_def)
  then show ?thesis
    by (auto simp: gatherTX_def chain_frame_def Let_def gather_concat virtioNetHdrSize_def maxFrameSize_def)
qed

text \<open>The frame a driver offers at an entry of the available ring, and the pending entries.\<close>

definition tx_frame :: "vring \<Rightarrow> memTable \<Rightarrow> gmem \<Rightarrow> u16 \<Rightarrow> byte list option" where
  "tx_frame v mem g head = (case resolveChain v mem g head of Some (Inr c) \<Rightarrow> chain_frame g c | _ \<Rightarrow> None)"

definition pending :: "vring \<Rightarrow> gmem \<Rightarrow> nat" where
  "pending v g = unat (drv_idx (sl (avail v)) g - lastAvail v)"

definition head_at :: "vring \<Rightarrow> gmem \<Rightarrow> nat \<Rightarrow> u16" where
  "head_at v g k = drv_entry (sl (avail v)) (num v) (lastAvail v + word_of_nat k) g"

definition pending_heads :: "vring \<Rightarrow> gmem \<Rightarrow> u16 list" where
  "pending_heads v g = map (head_at v g) [0..<pending v g]"

text \<open>
  A driver that keeps to the rules of the ring: areas of the agreed sizes, the used ring apart from
  the descriptor table and the available ring, no address that wraps, and no more chains than
  the ring holds.
\<close>

definition driver_ok :: "memTable \<Rightarrow> vring \<Rightarrow> gmem \<Rightarrow> bool" where
  "driver_ok mem v g \<longleftrightarrow> ring_ready v \<and> list_all region_wf mem \<and> descs_ok v g
    \<and> cells (sl (used v)) \<inter> (cells (sl (avail v)) \<union> cells (sl (desc v))) = {}
    \<and> pending v g \<le> unat (num v) \<and> drv_idx (sl (used v)) g = usedIdx v"

definition readable_of :: "vring \<Rightarrow> memTable \<Rightarrow> gmem \<Rightarrow> u16 \<Rightarrow> slice list" where
  "readable_of v mem g head = (case resolveChain v mem g head of Some (Inr c) \<Rightarrow> readable c | _ \<Rightarrow> [])"

definition bufs_apart :: "memTable \<Rightarrow> vring \<Rightarrow> gmem \<Rightarrow> bool" where
  "bufs_apart mem v g \<longleftrightarrow> (\<forall>head \<in> set (pending_heads v g). \<forall>s \<in> set (readable_of v mem g head).
     cells s \<inter> cells (sl (used v)) = {})"

lemma pending_heads_Suc:
  assumes "pending v g = Suc n"
    "num v' = num v" "avail v' = avail v" "lastAvail v' = lastAvail v + 1"
    "ring_ready v" "same_on (cells (sl (avail v))) g g'"
  shows "pending v' g' = n" "pending_heads v g = head_at v g 0 # pending_heads v' g'"
proof -
  obtain a where a: "avail v = Some a" using assms(5) by (auto simp: ring_ready_def)
  note same = drv_avail_cong [OF assms(5) a, of g g'] assms(6)
  have ne: "drv_idx a g - lastAvail v \<noteq> 0" using assms(1) a by (auto simp: pending_def)
  have "drv_idx a g - (lastAvail v + 1) = drv_idx a g - lastAvail v - 1" by simp
  then have "unat (drv_idx a g - (lastAvail v + 1)) = unat (drv_idx a g - lastAvail v) - 1"
    using unat_minus_one [OF ne] by metis
  then show n: "pending v' g' = n" using assms a same by (simp add: pending_def)
  have "head_at v g (Suc k) = head_at v' g' k" for k
    using assms a same by (simp add: head_at_def add_ac)
  then show "pending_heads v g = head_at v g 0 # pending_heads v' g'"
    by (simp add: pending_heads_def n assms(1) upt_conv_Cons del: upt_Suc flip: map_Suc_upt)
qed

section \<open>One turn of the loop\<close>

definition tx_ring :: "vring \<Rightarrow> vring" where
  "tx_ring v = v\<lparr>lastAvail := lastAvail v + 1, usedIdx := usedIdx v + 1\<rparr>"

definition tx_mem :: "vring \<Rightarrow> gmem \<Rightarrow> gmem" where
  "tx_mem v g = put_idx (sl (used v)) (usedIdx v + 1)
     (put_used (sl (used v)) (num v) (usedIdx v) (head_at v g 0, 0) g)"

lemma tx_ring_simps [simp]:
  "num (tx_ring v) = num v" "desc (tx_ring v) = desc v" "avail (tx_ring v) = avail v" "used (tx_ring v) = used v"
  "lastAvail (tx_ring v) = lastAvail v + 1" "usedIdx (tx_ring v) = usedIdx v + 1"
  "ring_ready (tx_ring v) = ring_ready v"
  by (simp_all add: tx_ring_def)

lemma ring_areas:
  assumes "ring_ready v"
  obtains ds a u where "desc v = Some ds" "avail v = Some a" "used v = Some u"
  using assms by (auto simp: ring_ready_def)

lemma tx_mem_same:
  assumes "ring_ready v"
  shows "same_on (- cells (sl (used v))) g (tx_mem v g)"
proof -
  from assms obtain u where u: "used v = Some u" by (rule ring_areas)
  show ?thesis unfolding tx_mem_def u sl_Some
    by (rule same_on_trans [OF same_on_put(1) [OF assms u] same_on_put(2) [OF assms u]])
qed

lemma driver_areas_same:
  assumes "driver_ok mem v g"
  shows "same_on (cells (sl (avail v))) g (tx_mem v g)" "same_on (cells (sl (desc v))) g (tx_mem v g)"
  using assms by (auto simp: driver_ok_def intro!: same_on_mono [OF tx_mem_same])

lemma driver_resolve_same:
  assumes "driver_ok mem v g"
  shows "resolveChain (tx_ring v) mem (tx_mem v g) head = resolveChain v mem g head"
  by (rule resolveChain_cong) (simp_all add: driver_areas_same [OF assms])

lemma drv_desc_cong:
  assumes "ring_ready v" "i < unat (num v)" "same_on (cells (sl (desc v))) g g'"
  shows "drv_desc (sl (desc v)) (word_of_nat i) g' = drv_desc (sl (desc v)) (word_of_nat i) g"
proof -
  from assms(1) obtain ds where ds: "desc v = Some ds" by (rule ring_areas)
  have i: "unat (word_of_nat i :: u16) = i" using assms(2) ring_size(1) [OF assms(1)] by (simp add: unat_of_nat)
  have "descAt v (word_of_nat i) g' = descAt v (word_of_nat i) g"
    by (rule descAt_cong) (simp_all add: assms(3))
  then show ?thesis using assms(2) by (simp add: descAt_ready [OF assms(1) ds] i ds)
qed

lemma descs_ok_step:
  assumes "ring_ready v" "descs_ok v g" "cells (sl (used v)) \<inter> cells (sl (desc v)) = {}"
  shows "descs_ok (tx_ring v) (tx_mem v g)"
proof -
  have same: "same_on (cells (sl (desc v))) g (tx_mem v g)"
    using assms(3) by (intro same_on_mono [OF tx_mem_same [OF assms(1)]]) auto
  show ?thesis using assms(2) drv_desc_cong [OF assms(1) _ same] by (simp add: descs_ok_def)
qed

lemma driver_ok_step:
  assumes "driver_ok mem v g" "pending v g = Suc n"
  shows "driver_ok mem (tx_ring v) (tx_mem v g)"
proof -
  have r: "ring_ready v" using assms(1) by (simp add: driver_ok_def)
  have "descs_ok (tx_ring v) (tx_mem v g)"
    using assms(1) by (intro descs_ok_step) (auto simp: driver_ok_def)
  moreover have "pending (tx_ring v) (tx_mem v g) = n"
    by (rule pending_heads_Suc(1) [OF assms(2)]) (simp_all add: r driver_areas_same [OF assms(1)])
  moreover have "drv_idx (sl (used v)) (tx_mem v g) = usedIdx v + 1" by (simp add: tx_mem_def)
  ultimately show ?thesis using assms by (simp add: driver_ok_def)
qed

lemma pending_heads_step:
  assumes "driver_ok mem v g" "pending v g = Suc n"
  shows "pending_heads v g = head_at v g 0 # pending_heads (tx_ring v) (tx_mem v g)"
    "pending (tx_ring v) (tx_mem v g) = n"
  by (rule pending_heads_Suc [OF assms(2)];
      use assms in \<open>simp add: driver_ok_def driver_areas_same [OF assms(1)]\<close>)+

lemma bufs_apart_step:
  assumes "driver_ok mem v g" "bufs_apart mem v g" "pending v g = Suc n"
  shows "bufs_apart mem (tx_ring v) (tx_mem v g)"
  using assms(2)
  by (simp add: bufs_apart_def readable_of_def pending_heads_step [OF assms(1,3)] driver_resolve_same [OF assms(1)])

lemma tx_frame_step:
  assumes "driver_ok mem v g" "bufs_apart mem v g" "head \<in> set (pending_heads v g)"
  shows "tx_frame (tx_ring v) mem (tx_mem v g) head = tx_frame v mem g head"
proof -
  have "chain_frame (tx_mem v g) c = chain_frame g c" if c: "resolveChain v mem g head = Some (Inr c)" for c
  proof -
    have "rd g s = rd (tx_mem v g) s" if "s \<in> set (readable c)" for s
    proof (rule rd_cong [OF tx_mem_same])
      show "ring_ready v" using assms(1) by (simp add: driver_ok_def)
      have "s \<in> set (readable_of v mem g head)" using that c by (simp add: readable_of_def)
      then show "cells s \<subseteq> - cells (sl (used v))" using assms(2,3) by (fastforce simp: bufs_apart_def)
    qed
    then have "map (rd (tx_mem v g)) (readable c) = map (rd g) (readable c)" by simp
    then show ?thesis by (simp only: chain_frame_def)
  qed
  then show ?thesis by (auto simp: tx_frame_def driver_resolve_same [OF assms(1)] split: option.split sum.split)
qed

lemma drain_loop_step:
  assumes r: "ring_ready v" and "list_all region_wf mem" "descs_ok v g" "drv_idx (sl (avail v)) g \<noteq> lastAvail v"
  shows "drain_loop (Suc fuel) mem frames count v g =
    drain_loop fuel mem (frames @ (case tx_frame v mem g (head_at v g 0) of Some fr \<Rightarrow> [fr] | None \<Rightarrow> []))
      (Suc count) (tx_ring v) (tx_mem v g)"
proof -
  from r obtain ds a u where ar: "desc v = Some ds" "avail v = Some a" "used v = Some u" by (rule ring_areas)
  let ?v1 = "v\<lparr>lastAvail := lastAvail v + 1\<rparr>" and ?h = "head_at v g 0"
  have pop: "popAvail v g = Some (Some ?h, ?v1)"
    using assms(4) by (simp add: popAvail_ready [OF r ar(2)] head_at_def ar)
  have res: "resolveChain ?v1 mem g ?h = resolveChain v mem g ?h" by (rule resolveChain_cong) simp_all
  obtain res where rs: "resolveChain v mem g ?h = Some res"
    using resolveChain_total [OF r, of mem g ?h] assms(2,3) by auto
  have el: "setUsedElem 0 ?h 0 ?v1 g = Some (put_used u (num v) (usedIdx v) (?h, 0) g)"
    using setUsedElem_ready [of ?v1 u 0 ?h 0 g] r ar by (simp add: put_used_def)
  have pub: "publishUsed 1 (?v1, g') = Some (tx_ring v, put_idx u (usedIdx v + 1) g')" for g'
    using publishUsed_ready [of ?v1 u 1 g'] r ar by (simp add: tx_ring_def put_idx_def)
  show ?thesis
    by (simp add: pop res rs el pub tx_mem_def ar tx_frame_def gatherTX_chain_frame Let_def split: sum.split option.split)
qed

section \<open>The whole loop\<close>

definition tx_done :: "memTable \<Rightarrow> vring \<Rightarrow> gmem \<Rightarrow> vring" where
  "tx_done mem v g = v\<lparr>lastAvail := drv_idx (sl (avail v)) g, usedIdx := usedIdx v + word_of_nat (pending v g)\<rparr>"

lemma tx_done_step:
  assumes "driver_ok mem v g" "pending v g = Suc n"
  shows "tx_done mem (tx_ring v) (tx_mem v g) = tx_done mem v g"
proof -
  have r: "ring_ready v" using assms(1) by (simp add: driver_ok_def)
  from r obtain a where a: "avail v = Some a" by (rule ring_areas)
  have "drv_idx a (tx_mem v g) = drv_idx a g"
    using drv_avail_cong(1) [OF r a] driver_areas_same(1) [OF assms(1)] a by simp
  then show ?thesis
    using pending_heads_step(2) [OF assms] assms(2) a by (simp add: tx_done_def tx_ring_def add_ac)
qed

lemma map_filter_cong: "(\<And>x. x \<in> set xs \<Longrightarrow> f x = h x) \<Longrightarrow> List.map_filter f xs = List.map_filter h xs"
  by (induction xs) (simp_all add: List.map_filter_simps split: option.split)

lemma drain_loop_pending:
  assumes "driver_ok mem v g" "bufs_apart mem v g" "pending v g = n" "n < fuel"
  shows "\<exists>g'. drain_loop fuel mem frames count v g =
      Some (Drained (frames @ List.map_filter (tx_frame v mem g) (pending_heads v g)) (count + n) (tx_done mem v g) g')
    \<and> same_on (- cells (sl (used v))) g g'
    \<and> drv_idx (sl (used v)) g' = usedIdx v + word_of_nat n
    \<and> (\<forall>k<n. drv_used (sl (used v)) (num v) (usedIdx v + word_of_nat k) g' = (ucast (pending_heads v g ! k), 0))
    \<and> (\<forall>j. (\<forall>k<n. unat (usedIdx v + word_of_nat k) mod unat (num v) \<noteq> unat j mod unat (num v)) \<longrightarrow>
         drv_used (sl (used v)) (num v) j g' = drv_used (sl (used v)) (num v) j g)"
  using assms
proof (induction n arbitrary: v g fuel frames count)
  case 0
  have r: "ring_ready v" using 0 by (simp add: driver_ok_def)
  from r obtain a where a: "avail v = Some a" by (rule ring_areas)
  have eq: "drv_idx a g = lastAvail v" using 0(3) a by (simp add: pending_def unat_eq_0)
  then have "tx_done mem v g = v" using 0(3) a by (simp add: tx_done_def)
  moreover obtain k where "fuel = Suc k" using 0(4) by (cases fuel) auto
  ultimately show ?case
    using 0 eq by (simp add: popAvail_ready [OF r a] pending_heads_def List.map_filter_simps driver_ok_def)
next
  case (Suc n)
  let ?v = "tx_ring v" and ?g = "tx_mem v g" and ?h = "head_at v g 0" and ?u = "sl (used v)"
  have r: "ring_ready v" and le: "Suc n \<le> unat (num v)" using Suc.prems(1,3) by (simp_all add: driver_ok_def)
  note heads = pending_heads_step [OF Suc.prems(1,3)]
  have step: "drain_loop (Suc k) mem frames count v g =
      drain_loop k mem (frames @ (case tx_frame v mem g ?h of Some fr \<Rightarrow> [fr] | None \<Rightarrow> [])) (Suc count) ?v ?g" for k
    using Suc.prems(1,3) by (intro drain_loop_step) (auto simp: driver_ok_def pending_def)
  obtain k where k: "fuel = Suc k" "n < k" using Suc.prems(4) by (cases fuel) auto
  have frames: "List.map_filter (tx_frame ?v mem ?g) (pending_heads ?v ?g) = List.map_filter (tx_frame v mem g) (pending_heads ?v ?g)"
    by (rule map_filter_cong) (simp add: tx_frame_step [OF Suc.prems(1,2)] heads)
  from Suc.IH [OF driver_ok_step [OF Suc.prems(1,3)] bufs_apart_step [OF Suc.prems(1-3)] heads(2) k(2),
      of "frames @ (case tx_frame v mem g ?h of Some fr \<Rightarrow> [fr] | None \<Rightarrow> [])" "Suc count"]
  obtain g' where g': "drain_loop k mem (frames @ (case tx_frame v mem g ?h of Some fr \<Rightarrow> [fr] | None \<Rightarrow> []))
        (Suc count) ?v ?g = Some (Drained (frames @ List.map_filter (tx_frame v mem g) (pending_heads v g)) (count + Suc n)
        (tx_done mem v g) g')"
      "same_on (- cells ?u) ?g g'" "drv_idx ?u g' = usedIdx v + word_of_nat (Suc n)"
      "\<forall>k<n. drv_used ?u (num v) (usedIdx v + word_of_nat (Suc k)) g' = (ucast (pending_heads ?v ?g ! k), 0)"
      "\<forall>j. (\<forall>k<n. unat (usedIdx v + word_of_nat (Suc k)) mod unat (num v) \<noteq> unat j mod unat (num v)) \<longrightarrow>
         drv_used ?u (num v) j g' = drv_used ?u (num v) j ?g"
    unfolding frames heads(1) tx_done_step [OF Suc.prems(1,3)]
    by (auto simp: List.map_filter_simps add_ac split: option.splits)
  have first: "drv_used ?u (num v) (usedIdx v + word_of_nat 0) g' = (ucast ?h, 0)"
    using g'(5) [rule_format, of "usedIdx v"] slots_apart [OF r, of "Suc _" 0 "usedIdx v"] le
    by (simp add: tx_mem_def)
  have "drv_used ?u (num v) (usedIdx v + word_of_nat i) g' = (ucast (pending_heads v g ! i), 0)" if "i < Suc n" for i
    using first g'(4) that heads(1) by (cases i) simp_all
  moreover have "drv_used ?u (num v) j g' = drv_used ?u (num v) j g"
    if "\<forall>k < Suc n. unat (usedIdx v + word_of_nat k) mod unat (num v) \<noteq> unat j mod unat (num v)" for j
    using g'(5) [rule_format, of j] that drv_used_put_other [of "usedIdx v" "num v" j ?u "(?h, 0)" g]
    by (fastforce simp: tx_mem_def)
  ultimately show ?case
    using g'(1,3) same_on_trans [OF tx_mem_same [OF r] g'(2)] step k(1) by simp
qed

text \<open>A driver with one chain of fourteen bytes, twelve of header and two of frame.\<close>

definition ex_region :: memRegion where
  "ex_region = \<lparr>gpa = 0x100, rsize = 128, uva = 0x7000, mapped = \<lparr>sl_obj = 7, sl_off = 0, sl_len = 128\<rparr>,
     raw = \<lparr>sl_obj = 7, sl_off = 0, sl_len = 128\<rparr>\<rparr>"

definition ex_ring :: vring where
  "ex_ring = newVring\<lparr>num := 2, desc := Some \<lparr>sl_obj = 7, sl_off = 0, sl_len = 32\<rparr>,
     avail := Some \<lparr>sl_obj = 7, sl_off = 32, sl_len = 10\<rparr>, used := Some \<lparr>sl_obj = 7, sl_off = 48, sl_len = 22\<rparr>,
     kick := Some 5, call := Some 6, started := True\<rparr>"

definition ex_tx_bytes :: "byte list" where
  "ex_tx_bytes = [0x48, 1, 0, 0, 0, 0, 0, 0, 14, 0, 0, 0, 0, 0, 0, 0,
     0, 0, 0, 0, 0, 0, 0, 0, 0, 0, 0, 0, 0, 0, 0, 0,
     0, 0, 1, 0, 0, 0, 0, 0, 0, 0, 0, 0, 0, 0, 0, 0, 0, 0, 0, 0] @ replicate 32 0 @ [0xAB, 0xCD]"

definition ex_tx_mem :: gmem where
  "ex_tx_mem = mem_of 7 ex_tx_bytes"

lemma ex_ring_ready: "ring_ready ex_ring"
  by (simp add: ring_ready_def ex_ring_def newVring_def)

lemmas ex_tx_defs = ex_ring_def newVring_def ex_tx_mem_def rd_mem_of ex_tx_bytes_def

lemma ex_tx_pending: "drv_idx (sl (avail ex_ring)) ex_tx_mem = 1" "pending_heads ex_ring ex_tx_mem = [0]"
    "drv_idx (sl (used ex_ring)) ex_tx_mem = 0"
  by (simp_all add: drv_idx_def ex_tx_defs le32_def pending_heads_def pending_def head_at_def drv_entry_def le16_def)

lemma ex_tx_desc:
  "drv_desc (sl (desc ex_ring)) 0 ex_tx_mem = \<lparr>d_addr = 0x148, d_len = 14, d_flags = 0, d_next = 0\<rparr>"
  "drv_desc (sl (desc ex_ring)) 1 ex_tx_mem = \<lparr>d_addr = 0, d_len = 0, d_flags = 0, d_next = 0\<rparr>"
  by (simp_all add: drv_desc_def ex_tx_defs Let_def bslice_def le16_def le32_def le64_def)

lemma ex_tx_chain: "resolveChain ex_ring [ex_region] ex_tx_mem 0 =
    Some (Inr \<lparr>c_head = 0, readable = [\<lparr>sl_obj = 7, sl_off = 72, sl_len = 14\<rparr>], writable = []\<rparr>)"
proof -
  have "descAt ex_ring 0 ex_tx_mem = Some (Inr \<lparr>d_addr = 0x148, d_len = 14, d_flags = 0, d_next = 0\<rparr>)"
    using ex_tx_desc(1) by (subst descAt_ready [OF ex_ring_ready]) (simp_all add: ex_ring_def newVring_def)
  moreover have max: "maxChainLen = Suc 255" by (simp add: maxChainLen_def)
  ultimately show ?thesis
    unfolding resolveChain_def max resolve_from.simps by (simp add: descFlagIndirect_def descFlagWrite_def descFlagNext_def
        gpaSlice_def ex_region_def subslice_def Let_def)
qed

lemma ex_tx_ok: "driver_ok [ex_region] ex_ring ex_tx_mem" "bufs_apart [ex_region] ex_ring ex_tx_mem"
proof -
  have "descs_ok ex_ring ex_tx_mem"
    using ex_tx_desc by (auto simp: descs_ok_def ex_ring_def newVring_def dest!: less_2_cases)
  moreover have "cells (sl (used ex_ring)) \<inter> (cells (sl (avail ex_ring)) \<union> cells (sl (desc ex_ring))) = {}"
    by (auto simp: ex_ring_def cells_def)
  ultimately show "driver_ok [ex_region] ex_ring ex_tx_mem"
    using ex_ring_ready ex_tx_pending
    by (simp add: driver_ok_def pending_def ex_ring_def newVring_def region_wf_def ex_region_def)
  show "bufs_apart [ex_region] ex_ring ex_tx_mem"
    by (simp add: bufs_apart_def ex_tx_pending readable_of_def ex_tx_chain) (auto simp: cells_def ex_ring_def)
qed

text \<open>
  C5. Draining the transmit queue of a driver that keeps to the rules ends after the pending chains.
  The frames handed on are exactly those of the pending chains, in order and without their
  virtio header; every chain comes back once in the used ring, in the same order; and
  nothing outside the used ring is written.
\<close>

theorem drain_delivers_available:
  assumes "driver_ok mem v g" "bufs_apart mem v g" "pending v g < fuel"
  shows "\<exists>g' evs. drainTXLocked fuel mem v g =
      Some (Drained (List.map_filter (tx_frame v mem g) (pending_heads v g)) (pending v g) (tx_done mem v g) g', evs)
    \<and> same_on (- cells (sl (used v))) g g'
    \<and> drv_idx (sl (used v)) g' = usedIdx v + word_of_nat (pending v g)
    \<and> (\<forall>k < pending v g. drv_used (sl (used v)) (num v) (usedIdx v + word_of_nat k) g' = (ucast (pending_heads v g ! k), 0))"
proof -
  obtain g' where g': "drain_loop fuel mem [] 0 v g = Some (Drained (List.map_filter (tx_frame v mem g) (pending_heads v g))
        (pending v g) (tx_done mem v g) g')"
      "same_on (- cells (sl (used v))) g g'" "drv_idx (sl (used v)) g' = usedIdx v + word_of_nat (pending v g)"
      "\<forall>k < pending v g. drv_used (sl (used v)) (num v) (usedIdx v + word_of_nat k) g' = (ucast (pending_heads v g ! k), 0)"
    using drain_loop_pending [OF assms(1,2) refl assms(3), of "[]" 0] by auto
  have "ring_ready (tx_done mem v g)" using assms(1) by (simp add: tx_done_def driver_ok_def)
  then obtain n where "notify (tx_done mem v g) g' = Some n" using notify_ready by blast
  then show ?thesis using g' by (auto simp: drainTXLocked_def)
qed

theorem drain_delivers_available_witness:
  "\<exists>g' evs. drainTXLocked 2 [ex_region] ex_ring ex_tx_mem =
      Some (Drained [[0xAB, 0xCD]] 1 (ex_ring\<lparr>lastAvail := 1, usedIdx := 1\<rparr>) g', evs)
    \<and> drv_used (sl (used ex_ring)) 2 0 g' = (0, 0)"
proof -
  have p: "pending ex_ring ex_tx_mem = 1" using ex_tx_pending by (simp add: pending_def ex_ring_def newVring_def)
  have "tx_frame ex_ring [ex_region] ex_tx_mem 0 = Some [0xAB, 0xCD]"
    by (simp add: tx_frame_def ex_tx_chain) (simp add: chain_frame_def ex_tx_defs)
  moreover have "tx_done [ex_region] ex_ring ex_tx_mem = ex_ring\<lparr>lastAvail := 1, usedIdx := 1\<rparr>"
    using ex_tx_pending p by (simp add: tx_done_def ex_ring_def newVring_def)
  moreover have "num ex_ring = 2" "usedIdx ex_ring = 0" by (simp_all add: ex_ring_def newVring_def)
  ultimately show ?thesis
    using drain_delivers_available [OF ex_tx_ok, of 2] p ex_tx_pending(2) by (auto simp: List.map_filter_simps)
qed

section \<open>Overlapping rings\<close>

text \<open>
  A driver may place its available ring on top of its used ring. The device then reads back, as the
  driver's index, the used index it has just stored.
\<close>

definition rings_overlap :: "vring \<Rightarrow> bool" where
  "rings_overlap v \<longleftrightarrow> sl_obj (sl (avail v)) = sl_obj (sl (used v)) \<and> sl_off (sl (avail v)) = sl_off (sl (used v))"

lemma drv_idx_overlap:
  "rings_overlap v \<Longrightarrow> drv_idx (sl (avail v)) g = drv_idx (sl (used v)) g"
  by (cases "sl (avail v)"; cases "sl (used v)") (simp add: rings_overlap_def drv_idx_def)

lemma drain_loop_overlap:
  assumes "ring_ready v" "list_all region_wf mem" "descs_ok v g" "rings_overlap v"
    "cells (sl (used v)) \<inter> cells (sl (desc v)) = {}" "drv_idx (sl (used v)) g = usedIdx v" "usedIdx v \<noteq> lastAvail v"
  shows "drain_loop fuel mem frames count v g = Some DrainFuel"
  using assms
proof (induction fuel arbitrary: frames count v g)
  case (Suc fuel)
  have "rings_overlap (tx_ring v)" using Suc.prems(4) by (simp add: rings_overlap_def)
  moreover have "drv_idx (sl (used v)) (tx_mem v g) = usedIdx v + 1" by (simp add: tx_mem_def)
  ultimately show ?case
    using Suc.prems drain_loop_step [of v mem g fuel frames count] descs_ok_step [of v g] drv_idx_overlap [of v g]
    by (simp add: Suc.IH)
qed simp

text \<open>
  C38. A driver whose available ring starts where its used ring starts, and whose base index differs
  from the used index, keeps the drain loop running whatever number of turns it is given: the device
  reads its own used index as the driver's. The loop runs under the device's lock, so the
  session is stuck with it.
\<close>

theorem overlapping_rings_livelock:
  assumes "ring_ready v" "list_all region_wf mem" "descs_ok v g" "rings_overlap v"
    "cells (sl (used v)) \<inter> cells (sl (desc v)) = {}" "drv_idx (sl (used v)) g = usedIdx v" "usedIdx v \<noteq> lastAvail v"
  shows "drainTXLocked fuel mem v g = Some (DrainFuel, [])"
  by (simp add: drainTXLocked_def drain_loop_overlap [OF assms])

theorem overlapping_rings_livelock_witness:
  "drainTXLocked 1000000 [ex_region] (ex_ring\<lparr>avail := Some \<lparr>sl_obj = 7, sl_off = 48, sl_len = 10\<rparr>, lastAvail := 1\<rparr>)
     (\<lambda>_ _. 0) = Some (DrainFuel, [])"
proof (rule overlapping_rings_livelock)
  let ?v = "ex_ring\<lparr>avail := Some \<lparr>sl_obj = 7, sl_off = 48, sl_len = 10\<rparr>, lastAvail := 1\<rparr>"
  have zero: "rd (\<lambda>_ _. 0) b = replicate (sl_len b) 0" for b by (rule nth_equalityI) simp_all
  have le0: "get_le (replicate k 0) = 0" for k by (induction k) simp_all
  show "ring_ready ?v" by (simp add: ring_ready_def ex_ring_def newVring_def)
  show "descs_ok ?v (\<lambda>_ _. 0)"
    by (simp add: descs_ok_def ex_ring_def drv_desc_def zero le64_def le32_def bslice_def le0)
  show "drv_idx (sl (used ?v)) (\<lambda>_ _. 0) = usedIdx ?v"
    by (simp add: drv_idx_def zero le32_def le0 ex_ring_def newVring_def)
  show "cells (sl (used ?v)) \<inter> cells (sl (desc ?v)) = {}" by (auto simp: ex_ring_def cells_def)
qed (simp_all add: ex_region_def region_wf_def rings_overlap_def ex_ring_def newVring_def)

end
