(* ===== verification/VhostRx.thy ===== *)
theory VhostRx
  imports VhostTx
begin

text \<open>
  What writing a frame to the guest does (\<^verbatim>\<open>WriteFrame\<close> in \<^verbatim>\<open>internal/vhostuser/device.go\<close>). A
  frame and its virtio header form one byte stream, which the nested loops spread over the
  segments of the available chains; the driver that follows the used ring reads the same
  stream back.
\<close>

section \<open>Filling segments\<close>

text \<open>The bytes still to place, and the loop state after \<open>m\<close> of them.\<close>

definition stream :: "wstate \<Rightarrow> byte list" where
  "stream w = replicate (hdrLeft w) 0 @ src w"

definition w_ok :: "wstate \<Rightarrow> bool" where
  "w_ok w \<longleftrightarrow> hdrLeft w \<le> virtioNetHdrSize \<and> remaining w = hdrLeft w + length (src w)"

definition advance :: "nat \<Rightarrow> slice \<Rightarrow> wstate \<Rightarrow> wstate" where
  "advance m seg w = w\<lparr>remaining := remaining w - m, src := drop (m - hdrLeft w) (src w), hdrLeft := hdrLeft w - m,
     hdrSeg := (if hdrSeg w = None \<and> 0 < m \<and> 0 < hdrLeft w then Some seg else hdrSeg w),
     written := written w + word_of_nat m\<rparr>"

lemma length_stream: "w_ok w \<Longrightarrow> length (stream w) = remaining w"
  by (simp add: w_ok_def stream_def)

lemma stream_advance: "stream (advance m seg w) = drop m (stream w)"
  by (simp add: stream_def advance_def)

lemma w_ok_advance: "w_ok w \<Longrightarrow> w_ok (advance m seg w)"
  by (auto simp: w_ok_def advance_def)

lemma wr_append:
  assumes "length bs = n" "n \<le> sl_len seg"
  shows "wr \<lparr>sl_obj = sl_obj seg, sl_off = sl_off seg + n, sl_len = sl_len seg - n\<rparr> rest (wr seg bs g) = wr seg (bs @ rest) g"
  using assms by (auto simp: wr_def fun_eq_iff nth_append)

lemma wr_full: "sl_len seg \<le> length bs \<Longrightarrow> wr seg (bs @ rest) g = wr seg bs g"
  by (auto simp: wr_def fun_eq_iff nth_append)

lemma wr_empty: "sl_len seg = 0 \<Longrightarrow> wr seg bs g = g"
  by (auto simp: wr_def fun_eq_iff)

lemma advance_0 [simp]: "advance 0 seg w = w"
  by (simp add: advance_def)

lemma advance_twice: "0 < n \<Longrightarrow> advance m seg' (advance n seg w) = advance (n + m) seg w"
proof -
  assume n: "0 < n"
  have "m - (hdrLeft w - n) + (n - hdrLeft w) = n + m - hdrLeft w" by linarith
  then show ?thesis using n by (simp add: advance_def add.commute add.left_commute)
qed

lemma fill_seg_step:
  assumes "w_ok w" "0 < sl_len seg" "0 < remaining w"
  obtains n bs where "0 < n" "n \<le> sl_len seg" "n \<le> remaining w"
    "fill_seg (Suc k) seg w g = fill_seg k \<lparr>sl_obj = sl_obj seg, sl_off = sl_off seg + n, sl_len = sl_len seg - n\<rparr>
       (advance n seg w) (wr seg bs g)"
    "stream w = bs @ (if hdrLeft w > 0 then src w else [])" "n = min (sl_len seg) (length bs)"
proof (cases "hdrLeft w > 0")
  case True
  let ?n = "min (sl_len seg) (hdrLeft w)"
  have d: "virtioNetHdrSize - (virtioNetHdrSize - hdrLeft w) = hdrLeft w"
    using assms(1) by (simp add: w_ok_def)
  have "fill_seg (Suc k) seg w g = fill_seg k \<lparr>sl_obj = sl_obj seg, sl_off = sl_off seg + ?n, sl_len = sl_len seg - ?n\<rparr>
       (advance ?n seg w) (wr seg (replicate (hdrLeft w) 0) g)"
    using assms True d by (subst fill_seg.simps) (cases w, simp add: Let_def tail_from_def subslice_def advance_def)
  then show thesis by (rule that [rotated 3]) (use True assms in \<open>auto simp: stream_def w_ok_def\<close>)
next
  case False
  let ?n = "min (sl_len seg) (length (src w))"
  have "fill_seg (Suc k) seg w g = fill_seg k \<lparr>sl_obj = sl_obj seg, sl_off = sl_off seg + ?n, sl_len = sl_len seg - ?n\<rparr>
       (advance ?n seg w) (wr seg (src w) g)"
    using assms False by (subst fill_seg.simps) (cases w, simp add: Let_def tail_from_def subslice_def advance_def)
  then show thesis by (rule that [rotated 3]) (use False assms in \<open>auto simp: stream_def w_ok_def\<close>)
qed

lemma fill_seg_spec:
  "w_ok w \<Longrightarrow> sl_len seg < fuel \<Longrightarrow>
    fill_seg fuel seg w g = Some (advance (min (sl_len seg) (remaining w)) seg w, wr seg (stream w) g)"
proof (induction fuel arbitrary: seg w g)
  case (Suc fuel)
  show ?case
  proof (cases "sl_len seg = 0 \<or> remaining w = 0")
    case True
    then show ?thesis
      using length_stream [OF Suc.prems(1)] by (subst fill_seg.simps) (auto simp: wr_empty)
  next
    case False
    from fill_seg_step [OF Suc.prems(1), of seg fuel g] False obtain n bs where n: "0 < n" "n \<le> sl_len seg" "n \<le> remaining w"
      "fill_seg (Suc fuel) seg w g = fill_seg fuel \<lparr>sl_obj = sl_obj seg, sl_off = sl_off seg + n, sl_len = sl_len seg - n\<rparr>
         (advance n seg w) (wr seg bs g)"
      and bs: "stream w = bs @ (if hdrLeft w > 0 then src w else [])" "n = min (sl_len seg) (length bs)" by blast
    let ?seg = "\<lparr>sl_obj = sl_obj seg, sl_off = sl_off seg + n, sl_len = sl_len seg - n\<rparr>"
    have "fill_seg fuel ?seg (advance n seg w) (wr seg bs g) = Some (advance (min (sl_len seg - n) (remaining w - n)) ?seg
        (advance n seg w), wr ?seg (drop n (stream w)) (wr seg bs g))"
      using Suc.IH [of "advance n seg w" ?seg "wr seg bs g"] Suc.prems n w_ok_advance
      by (simp add: stream_advance) (simp add: advance_def)
    moreover have "n + min (sl_len seg - n) (remaining w - n) = min (sl_len seg) (remaining w)" using n by auto
    moreover have "wr ?seg (drop n (stream w)) (wr seg bs g) = wr seg (stream w) g"
    proof (cases "length bs \<le> sl_len seg")
      case True
      then show ?thesis using bs wr_append [of bs n seg] by simp
    next
      case False
      then show ?thesis using bs wr_full [of seg bs] wr_empty [of ?seg] by simp
    qed
    ultimately show ?thesis using n(1,4) by (simp add: advance_twice)
  qed
qed simp

section \<open>Placing a stream\<close>

fun place :: "slice list \<Rightarrow> byte list \<Rightarrow> gmem \<Rightarrow> gmem" where
  "place [] bs g = g"
| "place (s # ss) bs g = place ss (drop (sl_len s) bs) (wr s bs g)"

abbreviation room :: "slice list \<Rightarrow> nat" where
  "room ss \<equiv> sum_list (map sl_len ss)"

definition seg_cells :: "slice list \<Rightarrow> (nat \<times> nat) set" where
  "seg_cells ss = (\<Union>s \<in> set ss. cells s)"

lemma place_Nil [simp]: "place ss [] g = g"
  by (induction ss arbitrary: g) simp_all

lemma place_append: "place (ss @ ts) bs g = place ts (drop (room ss) bs) (place ss bs g)"
  by (induction ss arbitrary: bs g) (simp_all add: add.commute)

lemma place_out: "same_on (- seg_cells ss) g (place ss bs g)"
proof (induction ss arbitrary: bs g)
  case (Cons s ss)
  have "same_on (- seg_cells (s # ss)) g (wr s bs g)" by (rule same_on_wr) (auto simp: seg_cells_def)
  moreover have "same_on (- seg_cells (s # ss)) (wr s bs g) (place (s # ss) bs g)"
    using same_on_mono [OF Cons.IH [of "wr s bs g"], of "- seg_cells (s # ss)"] by (auto simp: seg_cells_def)
  ultimately show ?case by (rule same_on_trans)
qed simp

lemma rd_wr_take: "take (length bs) (rd (wr s bs g) s) = take (sl_len s) bs"
  by (rule nth_equalityI) (auto simp: wr_def)

text \<open>Segments that do not overlap give the stream back.\<close>

definition apart :: "slice list \<Rightarrow> bool" where
  "apart ss \<longleftrightarrow> sorted_wrt (\<lambda>a b. cells a \<inter> cells b = {}) ss"

lemma rd_place:
  assumes "apart ss"
  shows "take (length bs) (concat (map (rd (place ss bs g)) ss)) = take (room ss) bs"
  using assms
proof (induction ss arbitrary: bs g)
  case (Cons s ss)
  let ?g = "place ss (drop (sl_len s) bs) (wr s bs g)"
  have "cells s \<subseteq> - seg_cells ss" using Cons.prems by (auto simp: apart_def seg_cells_def)
  then have s: "rd ?g s = rd (wr s bs g) s" using rd_cong [OF place_out] by metis
  have IH: "take (length bs - sl_len s) (concat (map (rd ?g) ss)) = take (room ss) (drop (sl_len s) bs)"
    using Cons.IH [of "drop (sl_len s) bs" "wr s bs g"] Cons.prems by (simp add: apart_def)
  show ?case
    using rd_wr_take [of bs s g] by (simp add: s IH take_add)
qed simp

lemma fill_chain_spec:
  assumes "w_ok w" "\<forall>s \<in> set segs. 0 < sl_len s"
  shows "fill_chain segs w g = Some (advance (min (room segs) (remaining w)) (hd segs) w, place segs (stream w) g)"
  using assms
proof (induction segs arbitrary: w g)
  case (Cons s ss)
  let ?m = "min (sl_len s) (remaining w)"
  let ?w = "advance ?m s w"
  have f: "fill_seg (Suc (sl_len s)) s w g = Some (?w, wr s (stream w) g)"
    by (rule fill_seg_spec [OF Cons.prems(1)]) simp
  have rem: "remaining ?w = remaining w - ?m" by (simp add: advance_def)
  show ?case
  proof (cases "remaining w \<le> sl_len s")
    case True
    then have "drop (sl_len s) (stream w) = []" using length_stream [OF Cons.prems(1)] by simp
    moreover have "?m = remaining w" "min (sl_len s + room ss) (remaining w) = remaining w" using True by auto
    ultimately show ?thesis using f rem by simp
  next
    case False
    then have m: "?m = sl_len s" "0 < sl_len s" using Cons.prems(2) by auto
    have "fill_chain ss ?w (wr s (stream w) g) =
        Some (advance (min (room ss) (remaining w - sl_len s)) (hd ss) ?w, place ss (drop (sl_len s) (stream w)) (wr s (stream w) g))"
      using Cons.IH [OF w_ok_advance [OF Cons.prems(1)], of ?m s] Cons.prems(2) rem m by (simp add: stream_advance)
    moreover have "sl_len s + min (room ss) (remaining w - sl_len s) = min (sl_len s + room ss) (remaining w)"
      using False by auto
    ultimately show ?thesis using False f rem m by (simp add: advance_twice)
  qed
qed simp

section \<open>The receive loop\<close>

definition writable_of :: "vring \<Rightarrow> memTable \<Rightarrow> gmem \<Rightarrow> u16 \<Rightarrow> slice list" where
  "writable_of v mem g head = (case resolveChain v mem g head of Some (Inr c) \<Rightarrow> writable c | _ \<Rightarrow> [])"

definition ring_cells :: "vring \<Rightarrow> (nat \<times> nat) set" where
  "ring_cells v = cells (sl (used v)) \<union> cells (sl (avail v)) \<union> cells (sl (desc v))"

text \<open>Every pending chain is well-formed, and its buffers are apart from the rings.\<close>

definition chain_valid :: "(ring_error + chain) option \<Rightarrow> bool" where
  "chain_valid r \<longleftrightarrow> (case r of Some (Inr c) \<Rightarrow> True | _ \<Rightarrow> False)"

definition chains_ok :: "memTable \<Rightarrow> vring \<Rightarrow> gmem \<Rightarrow> bool" where
  "chains_ok mem v g \<longleftrightarrow> (\<forall>h \<in> set (pending_heads v g).
     chain_valid (resolveChain v mem g h) \<and> seg_cells (writable_of v mem g h) \<inter> ring_cells v = {})"

text \<open>The chains a frame takes up and the bytes written to each.\<close>

fun rx_used :: "(u16 \<Rightarrow> nat) \<Rightarrow> u16 list \<Rightarrow> nat \<Rightarrow> (u16 \<times> u32) list" where
  "rx_used cap [] r = []"
| "rx_used cap (h # hs) r = (if r = 0 then [] else (h, word_of_nat (min (cap h) r)) # rx_used cap hs (r - cap h))"

definition usable :: "bool \<Rightarrow> nat \<Rightarrow> u16 list \<Rightarrow> u16 list" where
  "usable mrg n hs = (if mrg then hs else take (1 - n) hs)"

definition segs_of :: "memTable \<Rightarrow> vring \<Rightarrow> gmem \<Rightarrow> u16 list \<Rightarrow> slice list" where
  "segs_of mem v g hs = concat (map (writable_of v mem g) hs)"

definition pop_ring :: "vring \<Rightarrow> vring" where
  "pop_ring v = v\<lparr>lastAvail := lastAvail v + 1\<rparr>"

lemma pop_ring_simps [simp]:
  "num (pop_ring v) = num v" "desc (pop_ring v) = desc v" "avail (pop_ring v) = avail v" "used (pop_ring v) = used v"
  "lastAvail (pop_ring v) = lastAvail v + 1" "usedIdx (pop_ring v) = usedIdx v" "ring_ready (pop_ring v) = ring_ready v"
  "ring_cells (pop_ring v) = ring_cells v"
  by (simp_all add: pop_ring_def ring_cells_def)

lemma pop_step:
  assumes "driver_ok mem v g" "same_on (ring_cells v) g g1" "pending v g = Suc n"
  shows "driver_ok mem (pop_ring v) g1" "pending (pop_ring v) g1 = n"
    "pending_heads v g = head_at v g 0 # pending_heads (pop_ring v) g1"
    "resolveChain (pop_ring v) mem g1 h = resolveChain v mem g h"
    "writable_of (pop_ring v) mem g1 h = writable_of v mem g h"
proof -
  have r: "ring_ready v" using assms(1) by (simp add: driver_ok_def)
  from r obtain u where u: "used v = Some u" by (rule ring_areas)
  have same: "same_on (cells (sl (avail v))) g g1" "same_on (cells (sl (desc v))) g g1" "same_on (cells (sl (used v))) g g1"
    by (rule same_on_mono [OF assms(2)]; auto simp: ring_cells_def)+
  show heads: "pending (pop_ring v) g1 = n" "pending_heads v g = head_at v g 0 # pending_heads (pop_ring v) g1"
    by (rule pending_heads_Suc [OF assms(3)]; simp add: r same)+
  show res: "resolveChain (pop_ring v) mem g1 h = resolveChain v mem g h" for h
    by (rule resolveChain_cong) (simp_all add: same)
  show "writable_of (pop_ring v) mem g1 h = writable_of v mem g h" by (simp add: writable_of_def res)
  have "drv_idx (sl (used v)) g1 = drv_idx (sl (used v)) g"
    using rd_cong [OF same(3)] used_area(2) [OF r u] u by (simp add: drv_idx_def)
  moreover have "descs_ok (pop_ring v) g1"
    using assms(1) drv_desc_cong [OF r _ same(2)] by (simp add: driver_ok_def descs_ok_def)
  ultimately show "driver_ok mem (pop_ring v) g1"
    using assms heads(1) by (simp add: driver_ok_def)
qed

lemma chains_ok_step:
  assumes "driver_ok mem v g" "same_on (ring_cells v) g g1" "pending v g = Suc n" "chains_ok mem v g"
  shows "chains_ok mem (pop_ring v) g1"
  using assms(4) unfolding chains_ok_def pop_step(3) [OF assms(1-3)]
  by (simp add: pop_step(4,5) [OF assms(1-3)])

lemma segs_of_step:
  assumes "driver_ok mem v g" "same_on (ring_cells v) g g1" "pending v g = Suc n"
  shows "segs_of mem (pop_ring v) g1 hs = segs_of mem v g hs"
  by (simp add: segs_of_def pop_step(5) [OF assms] cong: map_cong)

lemma chain_segs:
  assumes "driver_ok mem v g" "chains_ok mem v g" "h \<in> set (pending_heads v g)"
  obtains c where "resolveChain v mem g h = Some (Inr c)" "writable c = writable_of v mem g h"
    "\<forall>s \<in> set (writable c). 0 < sl_len s" "seg_cells (writable c) \<inter> ring_cells v = {}"
proof -
  have "chain_valid (resolveChain v mem g h)" using assms(2,3) by (simp add: chains_ok_def)
  then obtain c where c: "resolveChain v mem g h = Some (Inr c)"
    by (auto simp: chain_valid_def split: option.splits sum.splits)
  have "list_all (in_table mem) (readable c @ writable c)"
    using resolveChain_segs(1) [OF _ c] assms(1) by (simp add: driver_ok_def)
  then have "\<forall>s \<in> set (writable c). 0 < sl_len s" by (auto simp: list_all_iff in_table_def)
  moreover have "writable c = writable_of v mem g h" by (simp add: writable_of_def c)
  ultimately show thesis using that c assms(2,3) by (auto simp: chains_ok_def)
qed

definition rx_list :: "memTable \<Rightarrow> vring \<Rightarrow> gmem \<Rightarrow> u16 list \<Rightarrow> nat \<Rightarrow> (u16 \<times> u32) list" where
  "rx_list mem v g = rx_used (\<lambda>h. room (writable_of v mem g h))"

lemma rx_list_step:
  assumes "driver_ok mem v g" "same_on (ring_cells v) g g1" "pending v g = Suc n"
  shows "rx_list mem (pop_ring v) g1 = rx_list mem v g"
  by (simp add: rx_list_def pop_step(5) [OF assms])

lemma usable_Cons: "mrg \<or> n = 0 \<Longrightarrow> usable mrg n (h # hs) = h # usable mrg (Suc n) hs"
  by (auto simp: usable_def)

lemma rx_turn:
  assumes "driver_ok mem v g" "chains_ok mem v g" "w_ok w" "pending v g = Suc n"
    "remaining w \<noteq> 0" "mrg \<or> us = []"
  defines "ss \<equiv> writable_of v mem g (head_at v g 0)"
  shows "rx_loop (Suc k) mrg mem v w us g = rx_loop k mrg mem (pop_ring v) (advance (min (room ss) (remaining w)) (hd ss) (w\<lparr>written := 0\<rparr>))
      (us @ [(head_at v g 0, word_of_nat (min (room ss) (remaining w)))]) (place ss (stream w) g)"
    "same_on (ring_cells v) g (place ss (stream w) g)" "room ss = 0 \<longleftrightarrow> ss = []"
proof -
  have r: "ring_ready v" using assms(1) by (simp add: driver_ok_def)
  from r obtain a where a: "avail v = Some a" by (rule ring_areas)
  let ?h = "head_at v g 0" and ?w = "w\<lparr>written := 0\<rparr>"
  have "?h \<in> set (pending_heads v g)" by (simp add: pop_step(3) [OF assms(1) same_on_refl assms(4)])
  from chain_segs [OF assms(1,2) this] obtain c where c: "resolveChain v mem g ?h = Some (Inr c)" "writable c = ss"
      "\<forall>s \<in> set ss. 0 < sl_len s" "seg_cells ss \<inter> ring_cells v = {}" by (metis ss_def)
  have pop: "popAvail v g = Some (Some ?h, pop_ring v)"
    using assms(4) by (auto simp: popAvail_ready [OF r a] head_at_def a pending_def pop_ring_def)
  have res: "resolveChain (pop_ring v) mem g ?h = Some (Inr c)"
    using c(1) by (simp add: pop_step(4) [OF assms(1) same_on_refl assms(4)])
  have "w_ok ?w" "stream ?w = stream w" using assms(3) by (simp_all add: w_ok_def stream_def)
  then have fill: "fill_chain ss ?w g = Some (advance (min (room ss) (remaining w)) (hd ss) ?w, place ss (stream w) g)"
    using fill_chain_spec [OF _ c(3), of ?w g] by simp
  have wz: "written (advance m sg ?w) = word_of_nat m" for m sg by (simp add: advance_def)
  show "rx_loop (Suc k) mrg mem v w us g = rx_loop k mrg mem (pop_ring v) (advance (min (room ss) (remaining w)) (hd ss) ?w)
      (us @ [(?h, word_of_nat (min (room ss) (remaining w)))]) (place ss (stream w) g)"
    using assms(5,6) by (subst rx_loop.simps) (auto simp: pop res c(2) fill wz)
  show "same_on (ring_cells v) g (place ss (stream w) g)"
    using c(4) by (intro same_on_mono [OF place_out]) auto
  show "room ss = 0 \<longleftrightarrow> ss = []" using c(3) by (cases ss) auto
qed

text \<open>The loop's result: the chains taken, the stream placed and the state after it.\<close>

definition rx_result_ok :: "memTable \<Rightarrow> vring \<Rightarrow> gmem \<Rightarrow> wstate \<Rightarrow> (u16 \<times> u32) list \<Rightarrow> u16 list \<Rightarrow> rx_result option \<Rightarrow> bool" where
  "rx_result_ok mem v g w us hs r \<longleftrightarrow> (\<exists>w'. r = Some (RxFilled (v\<lparr>lastAvail := lastAvail v + word_of_nat (length (rx_list mem v g hs (remaining w)))\<rparr>)
        w' (us @ rx_list mem v g hs (remaining w)) (place (segs_of mem v g hs) (stream w) g))
      \<and> w'\<lparr>written := 0\<rparr> = (advance (min (room (segs_of mem v g hs)) (remaining w)) (hd (segs_of mem v g hs)) w)\<lparr>written := 0\<rparr>)"

lemma rx_result_stop:
  assumes "w_ok w" "remaining w = 0 \<or> hs = []"
  shows "rx_result_ok mem v g w us hs (Some (RxFilled v w us g))"
proof -
  have "rx_list mem v g hs (remaining w) = []" using assms(2) by (cases hs) (auto simp: rx_list_def)
  moreover have "place (segs_of mem v g hs) (stream w) g = g"
    using assms length_stream [OF assms(1)] by (auto simp: segs_of_def)
  moreover have "min (room (segs_of mem v g hs)) (remaining w) = 0" using assms(2) by (auto simp: segs_of_def)
  ultimately show ?thesis by (simp add: rx_result_ok_def)
qed

lemma advance_written: "(advance m s (w\<lparr>written := x\<rparr>))\<lparr>written := 0\<rparr> = (advance m s w)\<lparr>written := 0\<rparr>"
  by (simp add: advance_def)

lemma advance_split:
  "(advance (min b (r - min a r)) s' (advance (min a r) s w))\<lparr>written := 0\<rparr> =
    (advance (min (a + b) r) (if a = 0 then s' else s) w)\<lparr>written := 0\<rparr>"
proof -
  consider "a = 0" | "r = 0" | "0 < min a r" by (cases "a = 0"; cases "r = 0") auto
  then show ?thesis
  proof cases
    case 3
    then have "min a r + min b (r - min a r) = min (a + b) r" by auto
    with 3 show ?thesis by (simp add: advance_twice)
  qed simp_all
qed

lemma rx_result_Cons:
  assumes ok: "driver_ok mem v g" "same_on (ring_cells v) g g1" "pending v g = Suc n" "w_ok w" "remaining w \<noteq> 0"
    and ss: "ss = writable_of v mem g h" "room ss = 0 \<longleftrightarrow> ss = []"
    and w1: "w1 = advance (min (room ss) (remaining w)) (hd ss) (w\<lparr>written := 0\<rparr>)" and g1: "g1 = place ss (stream w) g"
    and r: "rx_result_ok mem (pop_ring v) g1 w1 (us @ [(h, word_of_nat (min (room ss) (remaining w)))]) hs r"
  shows "rx_result_ok mem v g w us (h # hs) r"
proof -
  have rem: "remaining w1 = remaining w - room ss" by (simp add: w1 advance_def) 
  have segs: "segs_of mem v g (h # hs) = ss @ segs_of mem v g hs" by (simp add: segs_of_def ss(1))
  have st: "stream w1 = drop (room ss) (stream w)"
  proof -
    have "stream w1 = drop (min (room ss) (remaining w)) (stream w)" by (simp add: w1 stream_advance) (simp add: stream_def)
    then show ?thesis using length_stream [OF ok(4)] by (simp add: min_def)
  qed
  have lst: "rx_list mem v g (h # hs) (remaining w) = (h, word_of_nat (min (room ss) (remaining w))) # rx_list mem v g hs (remaining w1)"
    using ok(5) by (simp add: rx_list_def rem ss(1))
  have pl: "place (segs_of mem v g (h # hs)) (stream w) g = place (segs_of mem v g hs) (stream w1) g1"
    by (simp add: segs place_append st g1)
  let ?b = "room (segs_of mem v g hs)" and ?t = "hd (segs_of mem v g hs)"
  have adv: "(advance (min ?b (remaining w1)) ?t w1)\<lparr>written := 0\<rparr> =
      (advance (min (room (segs_of mem v g (h # hs))) (remaining w)) (hd (segs_of mem v g (h # hs))) w)\<lparr>written := 0\<rparr>"
  proof -
    have "remaining w1 = remaining w - min (room ss) (remaining w)" by (simp add: rem min_def)
    then have "(advance (min ?b (remaining w1)) ?t w1)\<lparr>written := 0\<rparr> =
        (advance (min (room ss + ?b) (remaining w)) (if room ss = 0 then ?t else hd ss) (w\<lparr>written := 0\<rparr>))\<lparr>written := 0\<rparr>"
      using advance_split by (simp add: w1)
    then show ?thesis using ss(2) by (simp add: segs advance_written hd_append)
  qed
  show ?thesis
    using r unfolding rx_result_ok_def rx_list_step [OF ok(1-3)] segs_of_step [OF ok(1-3)] lst pl adv
    by (simp add: pop_ring_def add.assoc [symmetric])
qed

lemma rx_loop_spec:
  assumes "driver_ok mem v g" "chains_ok mem v g" "w_ok w" "pending v g = n" "n < fuel" "mrg \<or> length us \<le> 1"
  shows "rx_result_ok mem v g w us (usable mrg (length us) (pending_heads v g)) (rx_loop fuel mrg mem v w us g)"
  using assms
proof (induction n arbitrary: v w us g fuel)
  case 0
  have r: "ring_ready v" using 0(1) by (simp add: driver_ok_def)
  from r obtain a where a: "avail v = Some a" by (rule ring_areas)
  have "drv_idx a g = lastAvail v" using 0(4) a by (simp add: pending_def unat_eq_0)
  moreover obtain k where k: "fuel = Suc k" using 0(5) by (cases fuel) auto
  moreover have "pending_heads v g = []" using 0(4) by (simp add: pending_heads_def)
  ultimately show ?case
    using rx_result_stop [OF 0(3)] by (subst rx_loop.simps) (simp add: popAvail_ready [OF r a] usable_def)
next
  case (Suc n)
  obtain k where k: "fuel = Suc k" "n < k" using Suc.prems(5) by (cases fuel) auto
  show ?case
  proof (cases "remaining w = 0 \<or> (\<not> mrg \<and> length us = 1)")
    case True
    then show ?thesis using rx_result_stop [OF Suc.prems(3)] by (subst rx_loop.simps) (auto simp: usable_def)
  next
    case False
    let ?h = "head_at v g 0"
    define ss where "ss = writable_of v mem g ?h"
    define w1 where "w1 = advance (min (room ss) (remaining w)) (hd ss) (w\<lparr>written := 0\<rparr>)"
    define us1 where "us1 = us @ [(?h, word_of_nat (min (room ss) (remaining w)) :: u32)]"
    define g1 where "g1 = place ss (stream w) g"
    have nz: "remaining w \<noteq> 0" and fresh: "mrg \<or> us = []" using False Suc.prems(6) by (auto simp: le_Suc_eq)
    note turn = rx_turn [OF Suc.prems(1-4) nz fresh, folded ss_def, folded w1_def us1_def g1_def]
    note same = Suc.prems(1) turn(2) Suc.prems(4)
    have "w_ok w1" using Suc.prems(3) w_ok_advance [of "w\<lparr>written := 0\<rparr>"] by (simp add: w1_def w_ok_def)
    with Suc.IH [OF pop_step(1) [OF same] chains_ok_step [OF same Suc.prems(2)] _ pop_step(2) [OF same] k(2), of w1 us1] fresh
    have "rx_result_ok mem (pop_ring v) g1 w1 us1 (usable mrg (Suc (length us)) (pending_heads (pop_ring v) g1))
        (rx_loop k mrg mem (pop_ring v) w1 us1 g1)" by (auto simp: us1_def)
    from rx_result_Cons [OF same Suc.prems(3) nz ss_def turn(3) w1_def g1_def this [unfolded us1_def]]
    show ?thesis
      using turn(1) [of k] fresh by (simp add: k(1) pop_step(3) [OF same] usable_Cons us1_def)
  qed
qed

section \<open>Publishing\<close>

lemma setUsedElems_spec:
  assumes "ring_ready v" "used v = Some u" "i + length us \<le> unat (num v)"
  shows "\<exists>g'. setUsedElems i us v g = Some g' \<and> same_on (- cells u) g g'
    \<and> (\<forall>k < length us. drv_used u (num v) (usedIdx v + word_of_nat (i + k)) g' = (ucast (fst (us ! k)), snd (us ! k)))
    \<and> (\<forall>j < i. drv_used u (num v) (usedIdx v + word_of_nat j) g' = drv_used u (num v) (usedIdx v + word_of_nat j) g)"
  using assms(3)
proof (induction us arbitrary: i g)
  case (Cons e us)
  obtain h n where e: "e = (h, n)" by force
  let ?g = "put_used u (num v) (usedIdx v + word_of_nat i) (h, n) g"
  have el: "setUsedElem (word_of_nat i) h n v g = Some ?g"
    using setUsedElem_ready [OF assms(1,2)] by (simp add: put_used_def)
  from Cons.IH [of "Suc i" ?g] Cons.prems obtain g' where g': "setUsedElems (Suc i) us v ?g = Some g'"
      "same_on (- cells u) ?g g'"
      "\<forall>k < length us. drv_used u (num v) (usedIdx v + word_of_nat (Suc i + k)) g' = (ucast (fst (us ! k)), snd (us ! k))"
      "\<forall>j < Suc i. drv_used u (num v) (usedIdx v + word_of_nat j) g' = drv_used u (num v) (usedIdx v + word_of_nat j) ?g"
    by auto
  have "drv_used u (num v) (usedIdx v + word_of_nat (i + k)) g' = (ucast (fst ((e # us) ! k)), snd ((e # us) ! k))"
    if "k < length (e # us)" for k
    using that g'(3,4) by (cases k) (simp_all add: e)
  moreover have "drv_used u (num v) (usedIdx v + word_of_nat j) g' = drv_used u (num v) (usedIdx v + word_of_nat j) g"
    if "j < i" for j
    using g'(4) that slots_apart [OF assms(1), of i j "usedIdx v"] Cons.prems by (simp add: drv_used_put_other)
  ultimately show ?case
    using el g'(1) same_on_trans [OF same_on_put(1) [OF assms(1,2)] g'(2)] e by auto
qed simp

lemma publish_spec:
  assumes "ring_ready v" "used v = Some u" "length us \<le> unat (num v)"
  obtains g' evs where "publish us v g = Some (v\<lparr>usedIdx := usedIdx v + word_of_nat (length us)\<rparr>, g', evs)"
    "same_on (- cells u) g g'" "drv_idx u g' = usedIdx v + word_of_nat (length us)"
    "\<forall>k < length us. drv_used u (num v) (usedIdx v + word_of_nat k) g' = (ucast (fst (us ! k)), snd (us ! k))"
proof -
  from setUsedElems_spec [OF assms(1,2), of 0 us g] assms(3) obtain g1 where g1: "setUsedElems 0 us v g = Some g1"
      "same_on (- cells u) g g1"
      "\<forall>k < length us. drv_used u (num v) (usedIdx v + word_of_nat k) g1 = (ucast (fst (us ! k)), snd (us ! k))" by auto
  let ?v = "v\<lparr>usedIdx := usedIdx v + word_of_nat (length us)\<rparr>" and ?g = "put_idx u (usedIdx v + word_of_nat (length us)) g1"
  have pub: "publishUsed (word_of_nat (length us)) (v, g1) = Some (?v, ?g)"
    using publishUsed_ready [OF assms(1,2)] by (simp add: put_idx_def)
  obtain n where n: "notify ?v ?g = Some n" using notify_ready [of ?v] assms(1) by auto
  show thesis
    using that [of ?g "case n of Some fd \<Rightarrow> [EventWritten fd] | None \<Rightarrow> []"] g1 pub n
      same_on_trans [OF g1(2) same_on_put(2) [OF assms(1,2)]] by (simp add: publish_def)
qed

section \<open>The header's buffer count\<close>

lemma wr_commute: "cells a \<inter> cells b = {} \<Longrightarrow> wr a xs (wr b ys g) = wr b ys (wr a xs g)"
  by (intro ext) (auto simp: wr_def cells_def disjoint_iff)

lemma wr_place: "cells b \<inter> seg_cells ss = {} \<Longrightarrow> wr b xs (place ss bs g) = place ss bs (wr b xs g)"
proof (induction ss arbitrary: bs g)
  case (Cons s ss)
  then have "cells b \<inter> cells s = {}" "cells b \<inter> seg_cells ss = {}" by (auto simp: seg_cells_def)
  then show ?case using Cons.IH wr_commute [of b s xs bs g] by simp
qed simp

lemma wr_patch:
  assumes "12 \<le> sl_len s" "length x = 2"
  shows "wr (s\<lparr>sl_off := sl_off s + 10, sl_len := 2\<rparr>) x (wr s (replicate 12 0 @ frame) g) = wr s (replicate 10 0 @ x @ frame) g"
proof (intro ext)
  fix ob i
  let ?k = "i - sl_off s"
  have a: "(replicate 12 0 @ frame) ! ?k = (replicate 10 0 @ x @ frame) ! ?k" if "?k < 10 \<or> 12 \<le> ?k"
    using that assms(2) by (auto simp: nth_append add.commute)
  have b: "(replicate 10 0 @ x @ frame) ! ?k = x ! (i - (sl_off s + 10))" if "10 \<le> ?k" "?k < 12"
    using that assms(2) by (auto simp: nth_append)
  show "wr (s\<lparr>sl_off := sl_off s + 10, sl_len := 2\<rparr>) x (wr s (replicate 12 0 @ frame) g) ob i =
      wr s (replicate 10 0 @ x @ frame) g ob i"
  proof (cases "sl_off s + 10 \<le> i \<and> i < sl_off s + 12")
    case True
    then have "10 \<le> ?k" "?k < 12" by auto
    from b [OF this] show ?thesis using True assms by (auto simp: wr_def)
  next
    case False
    then have "i < sl_off s \<or> ?k < 10 \<or> 12 \<le> ?k" by auto
    then show ?thesis using a False assms by (auto simp: wr_def)
  qed
qed

definition rx_header :: "slice \<Rightarrow> nat \<Rightarrow> byte list" where
  "rx_header s n = (if 12 \<le> sl_len s then replicate 10 0 @ put_le16 (word_of_nat n) else replicate 12 0)"

lemma patch_place:
  assumes "apart ss" "ss \<noteq> []"
  shows "patchNumBuffers (Some (hd ss)) n (place ss (replicate 12 0 @ frame) g) = place ss (rx_header (hd ss) n @ frame) g"
proof (cases "12 \<le> sl_len (hd ss)")
  case True
  from assms(2) obtain s t where ss: "ss = s # t" by (cases ss) auto
  let ?b = "s\<lparr>sl_off := sl_off s + 10, sl_len := 2\<rparr>" and ?x = "put_le16 (word_of_nat n)"
  have "cells ?b \<subseteq> cells s" using True by (auto simp: ss cells_def)
  then have dis: "cells ?b \<inter> seg_cells t = {}" using assms(1) by (auto simp: ss apart_def seg_cells_def)
  have "drop (sl_len s) (replicate 12 0 @ frame) = drop (sl_len s) (replicate 10 0 @ ?x @ frame)"
    using True by (simp add: ss drop_append)
  then show ?thesis
    using True wr_patch [of s ?x frame g] by (simp add: ss patchNumBuffers_def virtioNetHdrSize_def rx_header_def wr_place [OF dis])
qed (simp add: patchNumBuffers_def rx_header_def virtioNetHdrSize_def)

section \<open>What the driver reads\<close>

text \<open>The bytes of the chains the device has put into the used ring since its index was \<open>usedIdx v\<close>.\<close>

definition new_used :: "vring \<Rightarrow> gmem \<Rightarrow> nat" where
  "new_used v g = unat (drv_idx (sl (used v)) g - usedIdx v)"

definition used_bytes :: "memTable \<Rightarrow> vring \<Rightarrow> gmem \<Rightarrow> u32 \<times> u32 \<Rightarrow> byte list" where
  "used_bytes mem v g e = take (unat (snd e)) (concat (map (rd g) (writable_of v mem g (ucast (fst e)))))"

definition drv_received :: "memTable \<Rightarrow> vring \<Rightarrow> gmem \<Rightarrow> byte list" where
  "drv_received mem v g = concat (map (\<lambda>k. used_bytes mem v g
     (drv_used (sl (used v)) (num v) (usedIdx v + word_of_nat k) g)) [0..<new_used v g])"

lemma rx_used_bytes:
  assumes "r < 2 ^ 32"
  shows "concat (map (\<lambda>e. take (unat (snd e)) (concat (map (rd g') (writable_of v mem g (fst e))))) (rx_list mem v g hs r)) =
    take r (concat (map (rd g') (segs_of mem v g hs)))"
  using assms
proof (induction hs arbitrary: r)
  case (Cons h hs)
  let ?ss = "writable_of v mem g h"
  have "unat (word_of_nat (min (room ?ss) r) :: u32) = min (room ?ss) r" using Cons.prems by (simp add: unat_of_nat)
  moreover have "length (concat (map (rd g') ?ss)) = room ?ss" by (simp add: length_concat comp_def)
  ultimately show ?case
    using Cons.IH [of "r - room ?ss"] Cons.prems by (auto simp: rx_list_def segs_of_def min_def)
qed (simp add: rx_list_def segs_of_def)

lemma length_rx_list: "length (rx_list mem v g hs r) \<le> length hs"
  unfolding rx_list_def by (induction hs arbitrary: r) (auto simp: le_SucI)

definition rx_driver_ok :: "memTable \<Rightarrow> vring \<Rightarrow> gmem \<Rightarrow> bool" where
  "rx_driver_ok mem v g \<longleftrightarrow> driver_ok mem v g \<and> chains_ok mem v g \<and> apart (segs_of mem v g (pending_heads v g))"

lemma usable_subset: "set (usable mrg n hs) \<subseteq> set hs" "length (usable mrg n hs) \<le> length hs"
  by (auto simp: usable_def dest: in_set_takeD)

lemma usable_apart:
  assumes "apart (segs_of mem v g hs)"
  shows "apart (segs_of mem v g (usable mrg n hs))"
proof (cases mrg)
  case False
  have "segs_of mem v g hs = segs_of mem v g (take (1 - n) hs) @ segs_of mem v g (drop (1 - n) hs)"
    by (simp add: segs_of_def flip: concat_append map_append)
  then show ?thesis using assms False by (simp add: apart_def usable_def sorted_wrt_append)
qed (use assms in \<open>simp add: usable_def\<close>)

lemma segs_off_rings:
  assumes "chains_ok mem v g" "set hs \<subseteq> set (pending_heads v g)"
  shows "seg_cells (segs_of mem v g hs) \<inter> ring_cells v = {}"
  using assms by (fastforce simp: chains_ok_def segs_of_def seg_cells_def)

definition w_start :: "byte list \<Rightarrow> wstate" where
  "w_start frame = \<lparr>remaining = virtioNetHdrSize + length frame, src = frame, hdrLeft = virtioNetHdrSize,
     hdrSeg = None, written = 0\<rparr>"

lemma w_start_facts: "w_ok (w_start frame)" "stream (w_start frame) = replicate 12 0 @ frame"
    "remaining (w_start frame) = 12 + length frame"
  by (simp_all add: w_start_def w_ok_def stream_def virtioNetHdrSize_def)

lemma ucast_16_32_16: "ucast (ucast (h :: u16) :: u32) = h"
  by (rule bit_word_eqI) (auto simp: bit_simps)

lemma drv_received_place:
  assumes ok: "rx_driver_ok mem v g" and hs: "hs = usable mrg n (pending_heads v g)"
    and us: "us = rx_list mem v g hs (length bs)" "length bs < 2 ^ 32" "length bs \<le> room (segs_of mem v g hs)"
    and g3: "same_on (- cells (sl (used v))) (place (segs_of mem v g hs) bs g) g3"
      "drv_idx (sl (used v)) g3 = usedIdx v + word_of_nat (length us)"
      "\<forall>k < length us. drv_used (sl (used v)) (num v) (usedIdx v + word_of_nat k) g3 = (ucast (fst (us ! k)), snd (us ! k))"
  shows "drv_received mem v g3 = bs" "new_used v g3 = length us"
proof -
  let ?S = "segs_of mem v g hs" let ?g2 = "place ?S bs g"
  have off: "seg_cells ?S \<inter> ring_cells v = {}"
    using ok usable_subset(1) by (intro segs_off_rings) (auto simp: rx_driver_ok_def hs)
  have "length us \<le> unat (num v)"
    using ok usable_subset(2) [of mrg n "pending_heads v g"] length_rx_list [of mem v g hs "length bs"]
    by (simp add: us(1) hs rx_driver_ok_def driver_ok_def pending_heads_def)
  then have "length us < 65536" using ok ring_size(1) [of v] by (simp add: rx_driver_ok_def driver_ok_def)
  then show n: "new_used v g3 = length us" by (simp add: new_used_def g3(2) unat_of_nat)
  have "same_on (cells (sl (desc v))) g g3"
    using off ok by (intro same_on_trans [OF same_on_mono [OF place_out] same_on_mono [OF g3(1)]])
      (auto simp: ring_cells_def rx_driver_ok_def driver_ok_def)
  then have wr: "writable_of v mem g3 h = writable_of v mem g h" for h
    by (simp add: writable_of_def resolveChain_cong)
  have ub: "used_bytes mem v g3 (ucast (fst e), snd e) = take (unat (snd e)) (concat (map (rd g3) (writable_of v mem g (fst e))))" for e
    by (simp add: used_bytes_def wr ucast_16_32_16)
  have "map (\<lambda>k. used_bytes mem v g3 (drv_used (sl (used v)) (num v) (usedIdx v + word_of_nat k) g3)) [0..<length us] =
      map (\<lambda>e. take (unat (snd e)) (concat (map (rd g3) (writable_of v mem g (fst e))))) us"
    using g3(3) by (intro nth_equalityI) (simp_all add: ub)
  then have "drv_received mem v g3 = take (length bs) (concat (map (rd g3) ?S))"
    using rx_used_bytes [OF us(2)] by (simp add: drv_received_def n us(1))
  moreover have "rd g3 s = rd ?g2 s" if "s \<in> set ?S" for s
    using that off by (intro rd_cong [OF g3(1), symmetric]) (auto simp: seg_cells_def ring_cells_def)
  ultimately have "drv_received mem v g3 = take (length bs) (concat (map (rd ?g2) ?S))" by (simp cong: map_cong)
  then show "drv_received mem v g3 = bs"
    using rd_place [OF usable_apart] ok us(3) by (simp add: rx_driver_ok_def hs)
qed

text \<open>How \<^verbatim>\<open>WriteFrame\<close> goes on after its loop, for a driver that keeps to the rules.\<close>

lemma write_frame_loop:
  assumes d: "dmem d = Some mem" "started (ring_at d rxQueue)" "v = ring_at d rxQueue" "length frame \<le> 65535"
    and ok: "rx_driver_ok mem v g" "pending v g < fuel"
  defines "hs \<equiv> usable (mrgRxbufLocked d) 0 (pending_heads v g)"
  defines "S \<equiv> segs_of mem v g hs" and "us \<equiv> rx_list mem v g hs (12 + length frame)"
  obtains v1 w where "WriteFrame fuel frame d g =
      (if remaining (w :: wstate) > 0 then Some (Some (False, set_ring rxQueue (v1\<lparr>lastAvail := lastAvail v\<rparr>) d, place S (replicate 12 0 @ frame) g))
       else do { (v2, g2, evs) \<leftarrow> publish us v1 (patchNumBuffers (hdrSeg w) (length us) (place S (replicate 12 0 @ frame) g));
                 Some (Some (True, log_ev evs (set_ring rxQueue v2 d), g2)) })"
    "v1 = v\<lparr>lastAvail := lastAvail v + word_of_nat (length us)\<rparr>" "remaining w = 12 + length frame - room S"
    "12 + length frame \<le> room S \<Longrightarrow> hdrSeg w = Some (hd S)"
proof -
  let ?w = "w_start frame"
  have "rx_result_ok mem v g ?w [] hs (rx_loop fuel (mrgRxbufLocked d) mem v ?w [] g)"
    using rx_loop_spec [of mem v g ?w "pending v g" fuel "mrgRxbufLocked d" "[]"] ok w_start_facts(1)
    by (simp add: rx_driver_ok_def hs_def)
  then obtain w where w: "rx_loop fuel (mrgRxbufLocked d) mem v ?w [] g =
      Some (RxFilled (v\<lparr>lastAvail := lastAvail v + word_of_nat (length us)\<rparr>) w us (place S (replicate 12 0 @ frame) g))"
      and eq: "w\<lparr>written := 0\<rparr> = (advance (min (room S) (12 + length frame)) (hd S) ?w)\<lparr>written := 0\<rparr>"
    by (auto simp: rx_result_ok_def S_def us_def w_start_facts)
  have "remaining w = 12 + length frame - room S"
    using arg_cong [OF eq, of remaining] by (simp add: advance_def w_start_facts(3))
  moreover have "hdrSeg w = Some (hd S)" if "12 + length frame \<le> room S"
    using arg_cong [OF eq, of hdrSeg] that by (simp add: advance_def w_start_def virtioNetHdrSize_def)
  ultimately show thesis
    using w d by (intro that [of w]) (auto simp: WriteFrame_def Let_def maxFrameSize_def w_start_def)
qed

text \<open>
  C6. A frame given to a device whose driver keeps to the rules and offers enough room (over all
  available chains with mergeable buffers, in the first one without) is delivered: the chains newly
  in the used ring hold, up to the written lengths, exactly the virtio header followed by the
  frame. The header carries the number of those chains if the first segment has room for it.
\<close>

theorem frame_reaches_driver:
  assumes d: "dmem d = Some mem" "started (ring_at d rxQueue)" "v = ring_at d rxQueue" "length frame \<le> 65535"
    and ok: "rx_driver_ok mem v g" "pending v g < fuel"
    and S: "S = segs_of mem v g (usable (mrgRxbufLocked d) 0 (pending_heads v g))" "12 + length frame \<le> room S"
  shows "\<exists>d' g'. WriteFrame fuel frame d g = Some (Some (True, d', g'))
    \<and> drv_received mem v g' = rx_header (hd S) (new_used v g') @ frame
    \<and> same_on (- (cells (sl (used v)) \<union> seg_cells S)) g g'"
proof -
  let ?hs = "usable (mrgRxbufLocked d) 0 (pending_heads v g)"
  let ?us = "rx_list mem v g ?hs (12 + length frame)" let ?n = "length ?us"
  let ?v1 = "v\<lparr>lastAvail := lastAvail v + word_of_nat ?n\<rparr>"
  let ?g1 = "place S (rx_header (hd S) ?n @ frame) g"
  have r: "ring_ready v" using ok(1) by (simp add: rx_driver_ok_def driver_ok_def)
  from r obtain u where u: "used v = Some u" by (rule ring_areas)
  have ap: "apart S" using ok(1) usable_apart by (simp add: rx_driver_ok_def S(1))
  have "S \<noteq> []" using S(2) by auto
  note patch = patch_place [OF ap this, of ?n frame g]
  have "?n \<le> unat (num v)"
    using ok(1) usable_subset(2) [of "mrgRxbufLocked d" 0 "pending_heads v g"] length_rx_list [of mem v g ?hs "12 + length frame"]
    by (simp add: rx_driver_ok_def driver_ok_def pending_heads_def)
  then obtain g3 evs where pub: "publish ?us ?v1 ?g1 = Some (?v1\<lparr>usedIdx := usedIdx v + word_of_nat ?n\<rparr>, g3, evs)"
      and g3: "same_on (- cells u) ?g1 g3" "drv_idx u g3 = usedIdx v + word_of_nat ?n"
      "\<forall>k < ?n. drv_used u (num v) (usedIdx v + word_of_nat k) g3 = (ucast (fst (?us ! k)), snd (?us ! k))"
    using publish_spec [of ?v1 u ?us ?g1] r u by auto
  have len: "length (rx_header (hd S) ?n @ frame) = 12 + length frame" by (simp add: rx_header_def)
  have rec: "drv_received mem v g3 = rx_header (hd S) ?n @ frame" "new_used v g3 = ?n"
    using drv_received_place [OF ok(1) refl, of ?us "mrgRxbufLocked d" 0 "rx_header (hd S) ?n @ frame" g3] g3 u S d(4)
    unfolding len by simp_all
  from write_frame_loop [OF d ok] S pub patch
  have "\<exists>d'. WriteFrame fuel frame d g = Some (Some (True, d', g3))" by fastforce
  moreover have "same_on (- (cells (sl (used v)) \<union> seg_cells S)) g g3"
    using u by (intro same_on_trans [OF same_on_mono [OF place_out] same_on_mono [OF g3(1)]]) auto
  ultimately show ?thesis using rec by metis
qed

text \<open>A driver with one writable buffer of twenty bytes.\<close>

definition ex_rx_bytes :: "byte list" where
  "ex_rx_bytes = [0x48, 1, 0, 0, 0, 0, 0, 0, 20, 0, 0, 0, 2, 0, 0, 0,
     0, 0, 0, 0, 0, 0, 0, 0, 0, 0, 0, 0, 0, 0, 0, 0,
     0, 0, 1, 0, 0, 0, 0, 0, 0, 0, 0, 0, 0, 0, 0, 0, 0, 0, 0, 0]"

definition ex_rx_mem :: gmem where
  "ex_rx_mem = mem_of 7 ex_rx_bytes"

definition ex_rx_dev :: netDevice where
  "ex_rx_dev = (NewNetDevice False)\<lparr>dmem := Some [ex_region], rings := [ex_ring, ex_ring]\<rparr>"

lemmas ex_rx_defs = ex_ring_def newVring_def ex_rx_mem_def rd_mem_of ex_rx_bytes_def

lemma ex_rx_pending: "drv_idx (sl (avail ex_ring)) ex_rx_mem = 1" "pending_heads ex_ring ex_rx_mem = [0]"
    "drv_idx (sl (used ex_ring)) ex_rx_mem = 0"
  by (simp_all add: drv_idx_def ex_rx_defs le32_def pending_heads_def pending_def head_at_def drv_entry_def le16_def)

lemma ex_rx_desc:
  "drv_desc (sl (desc ex_ring)) 0 ex_rx_mem = \<lparr>d_addr = 0x148, d_len = 20, d_flags = 2, d_next = 0\<rparr>"
  "drv_desc (sl (desc ex_ring)) 1 ex_rx_mem = \<lparr>d_addr = 0, d_len = 0, d_flags = 0, d_next = 0\<rparr>"
  by (simp_all add: drv_desc_def ex_rx_defs Let_def bslice_def le16_def le32_def le64_def)

lemma ex_rx_chain: "resolveChain ex_ring [ex_region] ex_rx_mem 0 =
    Some (Inr \<lparr>c_head = 0, readable = [], writable = [\<lparr>sl_obj = 7, sl_off = 72, sl_len = 20\<rparr>]\<rparr>)"
proof -
  have "descAt ex_ring 0 ex_rx_mem = Some (Inr \<lparr>d_addr = 0x148, d_len = 20, d_flags = 2, d_next = 0\<rparr>)"
    using ex_rx_desc(1) by (subst descAt_ready [OF ex_ring_ready]) (simp_all add: ex_ring_def newVring_def)
  moreover have max: "maxChainLen = Suc 255" by (simp add: maxChainLen_def)
  ultimately show ?thesis
    unfolding resolveChain_def max resolve_from.simps
    by (simp add: descFlagIndirect_def descFlagWrite_def descFlagNext_def gpaSlice_def ex_region_def subslice_def Let_def)
qed

lemma ex_rx_ok: "rx_driver_ok [ex_region] ex_ring ex_rx_mem"
    "segs_of [ex_region] ex_ring ex_rx_mem [0] = [\<lparr>sl_obj = 7, sl_off = 72, sl_len = 20\<rparr>]"
proof -
  have w: "writable_of ex_ring [ex_region] ex_rx_mem 0 = [\<lparr>sl_obj = 7, sl_off = 72, sl_len = 20\<rparr>]"
    by (simp add: writable_of_def ex_rx_chain)
  then show segs: "segs_of [ex_region] ex_ring ex_rx_mem [0] = [\<lparr>sl_obj = 7, sl_off = 72, sl_len = 20\<rparr>]"
    by (simp add: segs_of_def)
  have "descs_ok ex_ring ex_rx_mem"
    using ex_rx_desc by (auto simp: descs_ok_def ex_ring_def newVring_def dest!: less_2_cases)
  moreover have "cells (sl (used ex_ring)) \<inter> (cells (sl (avail ex_ring)) \<union> cells (sl (desc ex_ring))) = {}"
    by (auto simp: ex_ring_def cells_def)
  ultimately have "driver_ok [ex_region] ex_ring ex_rx_mem"
    using ex_ring_ready ex_rx_pending
    by (simp add: driver_ok_def pending_def ex_ring_def newVring_def region_wf_def ex_region_def)
  moreover have "chains_ok [ex_region] ex_ring ex_rx_mem"
    by (simp add: chains_ok_def ex_rx_pending ex_rx_chain chain_valid_def w)
      (auto simp: seg_cells_def ring_cells_def ex_ring_def cells_def)
  ultimately show "rx_driver_ok [ex_region] ex_ring ex_rx_mem"
    by (simp add: rx_driver_ok_def ex_rx_pending segs) (simp add: apart_def)
qed

lemma ex_rx_dev: "dmem ex_rx_dev = Some [ex_region]" "ring_at ex_rx_dev rxQueue = ex_ring" "started ex_ring"
    "\<not> mrgRxbufLocked ex_rx_dev" "pending ex_ring ex_rx_mem = 1"
  using ex_rx_pending
  by (simp_all add: ex_rx_dev_def NewNetDevice_def ring_at_def rxQueue_def ex_ring_def newVring_def mrgRxbufLocked_def pending_def)

theorem frame_reaches_driver_witness:
  "\<exists>d' g'. WriteFrame 2 [1, 2, 3] ex_rx_dev ex_rx_mem = Some (Some (True, d', g'))
    \<and> drop 12 (drv_received [ex_region] ex_ring g') = [1, 2, 3]"
proof -
  have "usable (mrgRxbufLocked ex_rx_dev) 0 (pending_heads ex_ring ex_rx_mem) = [0]"
    using ex_rx_dev ex_rx_pending by (simp add: usable_def)
  then have "\<exists>d' g'. WriteFrame 2 [1, 2, 3] ex_rx_dev ex_rx_mem = Some (Some (True, d', g'))
      \<and> drv_received [ex_region] ex_ring g' = rx_header \<lparr>sl_obj = 7, sl_off = 72, sl_len = 20\<rparr> (new_used ex_ring g') @ [1, 2, 3]"
    using frame_reaches_driver [of ex_rx_dev "[ex_region]" ex_ring "[1, 2, 3]" ex_rx_mem 2] ex_rx_ok ex_rx_dev by auto
  then show ?thesis by (auto simp: rx_header_def)
qed

text \<open>
  Without enough room the frame is dropped and the device is as before: the chains looked at stay
  available, nothing is published, and the rings in guest memory are untouched.
\<close>

theorem dropped_frame_leaves_ring:
  assumes d: "dmem d = Some mem" "started (ring_at d rxQueue)" "v = ring_at d rxQueue" "length frame \<le> 65535"
    and ok: "rx_driver_ok mem v g" "pending v g < fuel"
    and S: "S = segs_of mem v g (usable (mrgRxbufLocked d) 0 (pending_heads v g))" "room S < 12 + length frame"
  shows "\<exists>g'. WriteFrame fuel frame d g = Some (Some (False, d, g')) \<and> same_on (ring_cells v) g g'"
proof -
  have "WriteFrame fuel frame d g = Some (Some (False, d, place S (replicate 12 0 @ frame) g))"
    using write_frame_loop [OF d ok] S d(3) by (fastforce simp: set_ring_def ring_at_def)
  moreover have "seg_cells S \<inter> ring_cells v = {}"
    using ok(1) usable_subset(1) by (simp add: S(1) segs_off_rings rx_driver_ok_def)
  then have "same_on (ring_cells v) g (place S (replicate 12 0 @ frame) g)"
    by (intro same_on_mono [OF place_out]) auto
  ultimately show ?thesis by blast
qed

theorem dropped_frame_leaves_ring_witness:
  "\<exists>g'. WriteFrame 2 (replicate 9 1) ex_rx_dev ex_rx_mem = Some (Some (False, ex_rx_dev, g'))"
proof -
  have "usable (mrgRxbufLocked ex_rx_dev) 0 (pending_heads ex_ring ex_rx_mem) = [0]"
    using ex_rx_dev ex_rx_pending by (simp add: usable_def)
  then show ?thesis
    using dropped_frame_leaves_ring [of ex_rx_dev "[ex_region]" ex_ring "replicate 9 1" ex_rx_mem 2] ex_rx_ok ex_rx_dev by auto
qed

end
