(* ===== verification/VhostInv.thy ===== *)
theory VhostInv
  imports VhostTx "HOL-Library.Multiset"
begin

text \<open>
  The vhost-user device as one transition system, whatever its front-end and its guest do: an
  invariant of every state, the memory the data path may write, and the accounting of the file
  descriptors a session receives.
\<close>

section \<open>Well-formed devices\<close>

definition area_in :: "memTable \<Rightarrow> slice option \<Rightarrow> nat \<Rightarrow> bool" where
  "area_in t b n \<longleftrightarrow> (case b of None \<Rightarrow> True | Some s \<Rightarrow> in_table t s \<and> n \<le> sl_len s)"

definition areas_wf :: "memTable option \<Rightarrow> vring \<Rightarrow> bool" where
  "areas_wf m v \<longleftrightarrow> (case m of None \<Rightarrow> desc v = None \<and> avail v = None \<and> used v = None
     | Some t \<Rightarrow> area_in t (desc v) 16 \<and> area_in t (avail v) 6 \<and> area_in t (used v) 6)"

definition ring_wf :: "memTable option \<Rightarrow> vring \<Rightarrow> bool" where
  "ring_wf m v \<longleftrightarrow> (num v = 0 \<or> pow2_size (num v)) \<and> areas_wf m v
     \<and> (started v \<longrightarrow> kick v \<noteq> None \<and> num v \<noteq> 0 \<and> m \<noteq> None)"

definition dev_wf :: "netDevice \<Rightarrow> bool" where
  "dev_wf d \<longleftrightarrow> length (rings d) = 2 \<and> features d AND NOT (offered d) = 0
     \<and> (protoOn d \<longleftrightarrow> features d AND featProtocolFeatures \<noteq> 0)
     \<and> (\<forall>t. dmem d = Some t \<longrightarrow> list_all region_wf t)
     \<and> list_all (ring_wf (dmem d)) (rings d)"

lemma log_ev_simps [simp]:
  "dmem (log_ev es d) = dmem d" "rings (log_ev es d) = rings d" "protoOn (log_ev es d) = protoOn d"
  "features (log_ev es d) = features d" "offered (log_ev es d) = offered d" "dclosed (log_ev es d) = dclosed d"
  "protoFeatures (log_ev es d) = protoFeatures d" "dlog (log_ev es d) = dlog d @ es"
  by (simp_all add: log_ev_def)

lemma set_ring_simps [simp]:
  "dmem (set_ring i v d) = dmem d" "rings (set_ring i v d) = (rings d)[i := v]" "protoOn (set_ring i v d) = protoOn d"
  "features (set_ring i v d) = features d" "offered (set_ring i v d) = offered d" "dclosed (set_ring i v d) = dclosed d"
  "protoFeatures (set_ring i v d) = protoFeatures d" "dlog (set_ring i v d) = dlog d"
  by (simp_all add: set_ring_def)

lemma dev_wf_log [simp]: "dev_wf (log_ev es d) = dev_wf d"
  by (simp add: dev_wf_def)

lemma dev_wf_set_ring: "dev_wf d \<Longrightarrow> ring_wf (dmem d) v \<Longrightarrow> dev_wf (set_ring i v d)"
  by (auto simp: dev_wf_def list_all_iff dest!: set_update_subset_insert [THEN subsetD])

lemma dev_wf_ring: "dev_wf d \<Longrightarrow> i < 2 \<Longrightarrow> ring_wf (dmem d) (ring_at d i)"
  by (simp add: dev_wf_def ring_at_def list_all_length)

lemma queue_bounds [simp]: "rxQueue < 2" "txQueue < 2" "rxQueue \<noteq> txQueue"
  by (simp_all add: rxQueue_def txQueue_def)

lemma ring_of_Some: "ring_of idx = Some i \<Longrightarrow> i < 2"
  by (auto simp: ring_of_def nQueues_def word_le_nat_alt split: if_splits)

lemma dev_wf_New: "dev_wf (NewNetDevice ap)"
  by (simp add: dev_wf_def NewNetDevice_def ring_wf_def newVring_def areas_wf_def)

lemma ring_wf_stopped: "ring_wf m v \<Longrightarrow> ring_wf m' (stopped_ring v)"
  by (auto simp: ring_wf_def stopped_ring_def areas_wf_def area_in_def split: option.splits)

lemma dev_wf_stopRing: "dev_wf d \<Longrightarrow> i < 2 \<Longrightarrow> dev_wf (stopRingLocked i d)"
  by (simp add: stopRingLocked_def Let_def dev_wf_set_ring ring_wf_stopped [OF dev_wf_ring])

lemma dev_wf_evalRing:
  assumes "dev_wf d" "i < 2"
  shows "dev_wf (evalRingLocked i d)"
proof -
  have "ring_wf (dmem d) (ring_at d i)" by (rule dev_wf_ring [OF assms])
  then have "ring_wf (dmem d) ((ring_at d i)\<lparr>started := True\<rparr>)"
    "ring_wf (dmem d) ((ring_at d i)\<lparr>started := True, pumpRunning := True\<rparr>)"
    if "kick (ring_at d i) \<noteq> None" "dmem d \<noteq> None" "num (ring_at d i) \<noteq> 0"
    using that by (auto simp: ring_wf_def areas_wf_def)
  then show ?thesis
    using assms by (auto simp: evalRingLocked_def Let_def dev_wf_set_ring split: option.split)
qed

lemma dev_wf_stopRings: "dev_wf d \<Longrightarrow> dev_wf (stopRings d)"
  by (simp add: stopRings_def dev_wf_stopRing)

lemma dev_wf_evalRings: "dev_wf d \<Longrightarrow> dev_wf (evalRings d)"
  by (simp add: evalRings_def dev_wf_evalRing)

text \<open>After both rings are stopped any memory table may be installed.\<close>

lemma rings_stopped:
  assumes "dev_wf d"
  shows "list_all (ring_wf m) (rings (stopRings d))"
proof -
  obtain v w where r: "rings d = [v, w]" using assms
    by (auto simp: dev_wf_def numeral_2_eq_2 length_Suc_conv)
  have "ring_wf (dmem d) v" "ring_wf (dmem d) w" using assms r by (simp_all add: dev_wf_def)
  then show ?thesis
    by (simp add: stopRings_def stopRingLocked_def Let_def ring_at_def r rxQueue_def txQueue_def ring_wf_stopped)
qed

lemma stopRings_simps [simp]:
  "dmem (stopRings d) = dmem d" "features (stopRings d) = features d" "offered (stopRings d) = offered d"
  "protoOn (stopRings d) = protoOn d" "dclosed (stopRings d) = dclosed d" "length (rings (stopRings d)) = length (rings d)"
  by (simp_all add: stopRings_def stopRingLocked_def Let_def)

lemma closeMem_simps [simp]:
  "dmem (closeMem d) = None" "features (closeMem d) = features d" "offered (closeMem d) = offered d"
  "protoOn (closeMem d) = protoOn d" "rings (closeMem d) = rings d" "dclosed (closeMem d) = dclosed d"
  by (simp_all add: closeMem_def split: option.split)

lemma dev_wf_install:
  assumes "dev_wf d" "list_all region_wf t"
  shows "dev_wf ((if dmem d \<noteq> None then closeMem (stopRings d) else d)\<lparr>dmem := Some t\<rparr>)"
proof (cases "dmem d")
  case None
  have "ring_wf (Some t) v" if "ring_wf None v" for v
    using that by (auto simp: ring_wf_def areas_wf_def area_in_def)
  then have "list_all (ring_wf (Some t)) (rings d)"
    using assms(1) None by (auto simp: dev_wf_def list_all_iff)
  then show ?thesis using assms None by (simp add: dev_wf_def)
next
  case Some
  then show ?thesis using assms rings_stopped [OF assms(1)] by (simp add: dev_wf_def)
qed

lemma dev_wf_CloseDev: "dev_wf d \<Longrightarrow> dev_wf (CloseDev d)"
proof -
  assume d: "dev_wf d"
  let ?d = "log_ev [ConnShut] (d\<lparr>dclosed := True\<rparr>)"
  have "dev_wf ?d" using d by (simp add: dev_wf_def)
  then have "list_all (ring_wf None) (rings (stopRings ?d))" by (rule rings_stopped)
  then show ?thesis using d by (auto simp: CloseDev_def dev_wf_def)
qed

lemma dev_wf_setMemTable:
  assumes "dev_wf d" "setMemTableLocked mmap pm m d = Some (e, d')"
  shows "dev_wf d'"
  using assms dev_wf_evalRings [OF dev_wf_install [OF assms(1)]] parseMemTable_wf
  by (fastforce simp: setMemTableLocked_def Let_def split: option.splits sum.splits)

text \<open>The sizes of the areas, which do not wrap for an admitted ring size.\<close>

lemma area_sizes:
  assumes "pow2_size n"
  shows "16 \<le> unat (ucast n * ucast descSize :: u64)" "6 \<le> unat (4 + ucast n * 2 + 2 :: u64)" "6 \<le> unat (4 + ucast n * 8 + 2 :: u64)"
proof -
  have n: "0 < unat n" "unat n \<le> 32768" using assms by (auto simp: pow2_size_def word_le_nat_alt word_less_nat_alt)
  have w: "ucast n = (word_of_nat (unat n) :: u64)" by (simp add: unsigned_ucast_eq)
  have e: "ucast n * ucast descSize = (word_of_nat (16 * unat n) :: u64)"
    "4 + ucast n * 2 + 2 = (word_of_nat (6 + 2 * unat n) :: u64)" "4 + ucast n * 8 + 2 = (word_of_nat (6 + 8 * unat n) :: u64)"
    unfolding w by (simp_all add: descSize_def)
  show "16 \<le> unat (ucast n * ucast descSize :: u64)" "6 \<le> unat (4 + ucast n * 2 + 2 :: u64)" "6 \<le> unat (4 + ucast n * 8 + 2 :: u64)"
    unfolding e using n by (simp_all add: unat_of_nat del: of_nat_add of_nat_mult of_nat_numeral)
qed

lemma uvaSlice_in_table:
  "list_all region_wf t \<Longrightarrow> uvaSlice t a n = Some (Inr b) \<Longrightarrow> in_table t b \<and> sl_len b = unat n"
  by (auto simp: uvaSlice_def dest: region_slice_in_table split: if_splits)

lemma ring_wf_areas:
  "ring_wf (Some t) v \<Longrightarrow> area_in t x 16 \<Longrightarrow> ring_wf (Some t) (v\<lparr>desc := x\<rparr>)"
  "ring_wf (Some t) v \<Longrightarrow> area_in t x 6 \<Longrightarrow> ring_wf (Some t) (v\<lparr>avail := x\<rparr>)"
  "ring_wf (Some t) v \<Longrightarrow> area_in t x 6 \<Longrightarrow> ring_wf (Some t) (v\<lparr>used := x\<rparr>)"
  by (simp_all add: ring_wf_def areas_wf_def)

lemma ring_wf_counters [simp]:
  "ring_wf m (v\<lparr>lastAvail := i\<rparr>) = ring_wf m v" "ring_wf m (v\<lparr>usedIdx := i\<rparr>) = ring_wf m v"
  "ring_wf m (v\<lparr>call := f\<rparr>) = ring_wf m v" "ring_wf m (v\<lparr>enabled := b\<rparr>) = ring_wf m v"
  "ring_wf m (v\<lparr>pumpRunning := b\<rparr>) = ring_wf m v"
  by (cases m; simp add: ring_wf_def areas_wf_def)+

lemma ring_wf_pause: "ring_wf m v \<Longrightarrow> ring_wf m (v\<lparr>started := False\<rparr>)"
  "ring_wf m v \<Longrightarrow> ring_wf m (v\<lparr>started := False, kick := f\<rparr>)"
  "ring_wf m v \<Longrightarrow> ring_wf m (v\<lparr>enabled := False, started := False\<rparr>)"
  "ring_wf m v \<Longrightarrow> pow2_size n \<Longrightarrow> ring_wf m (v\<lparr>num := n\<rparr>)"
  "ring_wf m v \<Longrightarrow> kick v = None \<Longrightarrow> ring_wf m (v\<lparr>kick := f\<rparr>)"
  by (cases m; auto simp: ring_wf_def areas_wf_def pow2_size_def)+

lemma area_in_None [simp]: "area_in t None n"
  by (simp add: area_in_def)

lemma dev_wf_setVringAddr:
  assumes wf: "dev_wf d" and eq: "setVringAddrLocked g p d = Some (e, d')"
  shows "dev_wf d'"
proof (cases "\<exists>a i t. parseVringAddr p = Some a \<and> ring_of (va_index a) = Some i \<and> dmem d = Some t \<and> num (ring_at d i) \<noteq> 0")
  case False
  then show ?thesis using wf eq by (auto simp: setVringAddrLocked_def Let_def split: option.splits if_splits)
next
  case True
  then obtain a i t where a: "parseVringAddr p = Some a" "ring_of (va_index a) = Some i" "dmem d = Some t"
    "num (ring_at d i) \<noteq> 0" by blast
  let ?v = "ring_at d i"
  have i: "i < 2" using a(2) by (rule ring_of_Some)
  have rw: "ring_wf (Some t) ?v" using dev_wf_ring [OF wf i] a(3) by simp
  have tw: "list_all region_wf t" using wf a(3) by (simp add: dev_wf_def)
  have n: "pow2_size (num ?v)" using rw a(4) by (simp add: ring_wf_def)
  have area: "area_in t (Some b) k" if "uvaSlice t x l = Some (Inr b)" "k \<le> unat l" for x l b k
    using uvaSlice_in_table [OF tw that(1)] that(2) by (simp add: area_in_def)
  note ups = area [OF _ area_sizes(1) [OF n]] area [OF _ area_sizes(2) [OF n]] area [OF _ area_sizes(3) [OF n]]
  have set: "dev_wf (set_ring i v d)" if "ring_wf (Some t) v" for v
    using dev_wf_set_ring [OF wf] that a(3) by simp
  show ?thesis
    using eq a
    by (auto simp: setVringAddrLocked_def Let_def split: sum.splits bind_splits
        dest!: ups [simplified] intro!: set dev_wf_evalRing i ring_wf_areas rw)
qed

lemma dev_wf_setVringFD:
  assumes wf: "dev_wf d" and eq: "setVringFDLocked m isKick d = (e, d', left)"
  shows "dev_wf d'"
proof -
  have "dev_wf d'" if i: "ring_of idx = Some i"
    "d' = evalRingLocked i (log_ev es (set_ring i v d)) \<or> d' = evalRingLocked i (set_ring i v d)"
    "ring_wf (dmem d) v" for idx i es v
    using that dev_wf_evalRing [OF _ ring_of_Some [OF i(1)]] dev_wf_set_ring [OF wf] by auto
  note step = this
  have rw: "ring_wf (dmem d) (ring_at d i)" if "ring_of idx = Some i" for idx i
    using dev_wf_ring [OF wf ring_of_Some [OF that]] .
  let ?val = "le64 (payload m)"
  let ?idx = "ucast (?val AND vringIdxMask) :: u32"
  show ?thesis
  proof (cases "length (payload m) < 8 \<or> ring_of ?idx = None \<or> (?val AND invalidFDFlag = 0 \<and> fds m = [])")
    case True
    then show ?thesis using wf eq by (auto simp: setVringFDLocked_def Let_def split: option.splits if_splits)
  next
    case False
    then obtain i where i: "ring_of ?idx = Some i" by auto
    define f where "f = (if ?val AND invalidFDFlag = 0 then Some (hd (fds m)) else None)"
    obtain es v where v: "d' = evalRingLocked i (log_ev es (set_ring i v d)) \<or> d' = evalRingLocked i (set_ring i v d)"
        "v \<in> {(ring_at d i)\<lparr>call := f\<rparr>, (ring_at d i)\<lparr>started := False, kick := f\<rparr>}
              \<union> (if kick (ring_at d i) = None then {(ring_at d i)\<lparr>kick := f\<rparr>} else {})"
      using eq False i by (auto simp: setVringFDLocked_def Let_def f_def split: option.splits if_splits)
    have "ring_wf (dmem d) v"
      using v(2) rw [OF i] by (auto split: if_splits intro: ring_wf_pause)
    with step [OF i v(1)] show ?thesis .
  qed
qed

lemma dev_wf_handleReq:
  assumes wf: "dev_wf d" and eq: "handleReq mmap pm g m d = Some (e, reply, d', left)"
  shows "dev_wf d'"
proof -
  have rw: "ring_wf (dmem d) (ring_at d i)" if "ring_of idx = Some i" for idx i
    using dev_wf_ring [OF wf ring_of_Some [OF that]] .
  have feats: "dev_wf (d\<lparr>features := f, protoOn := (f AND featProtocolFeatures \<noteq> 0)\<rparr>)" if "f AND NOT (offered d) = 0" for f
    using wf that by (simp add: dev_wf_def)
  have pf: "dev_wf (d\<lparr>protoFeatures := f\<rparr>)" for f using wf by (simp add: dev_wf_def)
  have set: "dev_wf (set_ring i v d)" if "ring_wf (dmem d) v" for i v by (rule dev_wf_set_ring [OF wf that])
  have stop: "dev_wf (stopRingLocked i d)" if "ring_of idx = Some i" for idx i
    by (rule dev_wf_stopRing [OF wf ring_of_Some [OF that]])
  have ev: "dev_wf (evalRingLocked i (set_ring i v d))" if "ring_of idx = Some i" "ring_wf (dmem d) v" for idx i v
    by (rule dev_wf_evalRing [OF set [OF that(2)] ring_of_Some [OF that(1)]])
  note wfs = wf feats pf dev_wf_stopRings [OF wf] set stop ev rw ring_wf_pause dev_wf_setMemTable [OF wf]
    dev_wf_setVringAddr [OF wf] dev_wf_setVringFD [OF wf]
  show ?thesis
    using eq wf unfolding handleReq_def Let_def
    by (auto split: if_split_asm option.splits prod.splits intro: wfs ring_wf_counters [THEN iffD2])
qed

lemma log_ev_Nil [simp]: "log_ev [] d = d"
  by (simp add: log_ev_def)

lemma handle_log:
  assumes "handle mmap pm g ok m d = Some (e, d')"
  obtains e1 reply d1 left es where "handleReq mmap pm g m d = Some (e1, reply, d1, left)"
    "d' = log_ev (map FdClosed left) (log_ev es d1)" "es = [] \<or> (\<exists>pl. es = [Replied (req m) pl])"
proof -
  from assms obtain e1 reply d1 left where r: "handleReq mmap pm g m d = Some (e1, reply, d1, left)"
    by (auto simp: handle_def)
  define es where "es = (case reply of Some pl \<Rightarrow> [Replied (req m) pl]
     | None \<Rightarrow> if flags m AND flagNeedReply \<noteq> 0 \<and> protoFeatures d1 AND protoFeatReplyAck \<noteq> 0
               then [Replied (req m) (u64Payload (if e1 = None then 0 else 1))] else [])"
  have "d' = log_ev (map FdClosed left) (log_ev es d1)"
    using assms r by (auto simp: handle_def Let_def es_def split: option.splits if_splits)
  moreover have "es = [] \<or> (\<exists>pl. es = [Replied (req m) pl])"
    by (simp add: es_def split: option.split)
  ultimately show thesis by (rule that [OF r])
qed

lemma dev_wf_handle: "dev_wf d \<Longrightarrow> handle mmap pm g ok m d = Some (e, d') \<Longrightarrow> dev_wf d'"
  by (erule handle_log, simp) (rule dev_wf_handleReq)

lemma dev_wf_serve:
  assumes "dev_wf d" "serve mmap pm g ok m d = Some d'"
  shows "dev_wf d'"
proof -
  from assms(2) obtain e d1 where "handle mmap pm g ok m d = Some (e, d1)" "d' = (if e = None then d1 else serve_end d1)"
    by (auto simp: serve_def)
  with dev_wf_handle [OF assms(1)] show ?thesis by (simp add: serve_end_def dev_wf_CloseDev)
qed

section \<open>The data path keeps the rings\<close>

text \<open>Popping chains and publishing used elements moves the two indexes and nothing else.\<close>

definition ring_kept :: "vring \<Rightarrow> vring \<Rightarrow> bool" where
  "ring_kept v v' \<longleftrightarrow> v' = v\<lparr>lastAvail := lastAvail v', usedIdx := usedIdx v'\<rparr>"

lemma ring_kept_refl [simp]: "ring_kept v v"
  by (simp add: ring_kept_def)

lemma ring_kept_trans: "ring_kept u v \<Longrightarrow> ring_kept v w \<Longrightarrow> ring_kept u w"
  unfolding ring_kept_def by (cases u; cases v; cases w) simp

lemma ring_kept_fields:
  assumes "ring_kept v v'"
  shows "num v' = num v" "desc v' = desc v" "avail v' = avail v" "used v' = used v" "kick v' = kick v" "call v' = call v"
    "started v' = started v"
  by (subst assms [unfolded ring_kept_def]; simp)+

lemma ring_kept_update [simp]: "ring_kept v (v\<lparr>lastAvail := i\<rparr>)" "ring_kept v (v\<lparr>usedIdx := i\<rparr>)"
  by (simp_all add: ring_kept_def)

lemma ring_kept_wf: "ring_kept v v' \<Longrightarrow> ring_wf m v' = ring_wf m v"
  by (subst ring_kept_def [THEN iffD1]) simp_all

lemma popAvail_kept: "popAvail v g = Some (h, v') \<Longrightarrow> ring_kept v v'"
  by (auto simp: popAvail_def split: bind_splits if_splits)

lemma publishUsed_kept: "publishUsed n (v, g) = Some (v', g') \<Longrightarrow> ring_kept v v'"
  by (auto simp: publishUsed_def Let_def split: bind_splits)

lemma putU32_out: "putU32 b w g = Some g' \<Longrightarrow> same_on (- cells b) g g'"
  by (auto simp: putU32_def cells_def split: if_splits intro!: same_on_wr)

lemma tail_from_cells: "tail_from b i = Some c \<Longrightarrow> cells c \<subseteq> cells b"
  by (simp add: tail_from_def subslice_cells)

lemma setUsedElem_out:
  assumes "setUsedElem slot h n v g = Some g'"
  shows "same_on (- cells (sl (used v))) g g'"
proof -
  from assms obtain b c g1 where b: "cells b \<subseteq> cells (sl (used v))" "putU32 b (ucast h) g = Some g1"
      and c: "cells c \<subseteq> cells (sl (used v))" "putU32 c n g1 = Some g'"
    by (auto simp: setUsedElem_def Let_def split: if_splits bind_splits dest!: tail_from_cells)
  have "same_on (- cells (sl (used v))) g g1" by (rule same_on_mono [OF putU32_out [OF b(2)]]) (use b(1) in auto)
  moreover have "same_on (- cells (sl (used v))) g1 g'" by (rule same_on_mono [OF putU32_out [OF c(2)]]) (use c(1) in auto)
  ultimately show ?thesis by (rule same_on_trans)
qed

lemma publishUsed_out:
  assumes "publishUsed n (v, g) = Some (v', g')" "4 \<le> sl_len (sl (used v)) \<or> used v = None"
  shows "same_on (- cells (sl (used v))) g g'"
  using assms by (auto simp: publishUsed_def atomicStoreU32_def Let_def cells_def sl_def
      split: bind_splits if_splits intro!: same_on_wr)

section \<open>What the data path may write\<close>

definition table_cells :: "memTable \<Rightarrow> (nat \<times> nat) set" where
  "table_cells t = (\<Union>r \<in> set t. cells (mapped r))"

definition used_in :: "(nat \<times> nat) set \<Rightarrow> vring \<Rightarrow> bool" where
  "used_in A v \<longleftrightarrow> cells (sl (used v)) \<subseteq> A \<and> (4 \<le> sl_len (sl (used v)) \<or> used v = None)"

lemma in_table_cells: "in_table t b \<Longrightarrow> cells b \<subseteq> table_cells t"
  by (auto simp: in_table_def table_cells_def)

lemma ring_wf_used_in: "ring_wf (Some t) v \<Longrightarrow> used_in (table_cells t) v"
  by (cases "used v") (auto simp: ring_wf_def areas_wf_def area_in_def used_in_def sl_def cells_def [of "\<lparr>sl_obj = 0, sl_off = 0, sl_len = 0\<rparr>"]
      dest: in_table_cells [THEN subsetD])

lemma used_in_kept: "ring_kept v v' \<Longrightarrow> used_in A v' = used_in A v"
  by (simp add: used_in_def ring_kept_fields)

lemma setUsedElem_in: "setUsedElem slot h n v g = Some g' \<Longrightarrow> used_in A v \<Longrightarrow> same_on (- A) g g'"
  by (rule same_on_mono [OF setUsedElem_out]) (auto simp: used_in_def)

lemma publishUsed_in: "publishUsed n (v, g) = Some (v', g') \<Longrightarrow> used_in A v \<Longrightarrow> same_on (- A) g g'"
  by (rule same_on_mono [OF publishUsed_out]) (auto simp: used_in_def)

lemma drain_loop_in:
  assumes "drain_loop fuel mem fr n v g = Some (Drained fr' n' v' g')" "used_in A v"
  shows "ring_kept v v' \<and> same_on (- A) g g'"
  using assms
proof (induction fuel arbitrary: fr n v g)
  case (Suc fuel)
  from Suc.prems(1) consider "popAvail v g = Some (None, v')" "g' = g"
    | h v1 g1 v2 g2 fr1 where "popAvail v g = Some (Some h, v1)" "setUsedElem 0 h 0 v1 g = Some g1"
      "publishUsed 1 (v1, g1) = Some (v2, g2)" "drain_loop fuel mem fr1 (Suc n) v2 g2 = Some (Drained fr' n' v' g')"
    by (auto simp: Let_def split: option.splits prod.splits bind_splits)
  then show ?case
  proof cases
    case 1
    then show ?thesis by (simp add: popAvail_kept)
  next
    case 2
    have k: "ring_kept v v1" "ring_kept v1 v2" by (rule popAvail_kept [OF 2(1)], rule publishUsed_kept [OF 2(3)])
    then have u: "used_in A v1" "used_in A v2" using Suc.prems(2) by (simp_all add: used_in_kept)
    from Suc.IH [OF 2(4) u(2)] have "ring_kept v2 v'" "same_on (- A) g2 g'" by simp_all
    then show ?thesis
      using k ring_kept_trans same_on_trans setUsedElem_in [OF 2(2) u(1)] publishUsed_in [OF 2(3) u(1)] by meson
  qed
qed simp

definition hdr_in :: "(nat \<times> nat) set \<Rightarrow> wstate \<Rightarrow> bool" where
  "hdr_in A w \<longleftrightarrow> (\<forall>s. hdrSeg w = Some s \<longrightarrow> cells s \<subseteq> A)"

lemma fill_seg_in:
  assumes "fill_seg fuel seg w g = Some (w', g')" "cells seg \<subseteq> A" "hdr_in A w"
  shows "same_on (- A) g g' \<and> hdr_in A w'"
  using assms
proof (induction fuel arbitrary: seg w g)
  case 0
  then show ?case by (simp add: fill_seg.simps split: if_splits)
next
  case (Suc fuel)
  have wr: "same_on (- A) g (wr seg bs g)" for bs using Suc.prems(2) by (intro same_on_wr) auto
  from Suc.prems(1) consider "w' = w" "g' = g"
    | n seg' w1 bs where "tail_from seg n = Some seg'" "fill_seg fuel seg' w1 (wr seg bs g) = Some (w', g')"
      "hdrSeg w1 = hdrSeg w \<or> hdrSeg w1 = Some seg"
    by (subst (asm) fill_seg.simps) (auto simp: Let_def split: if_splits bind_splits)
  then show ?case
  proof cases
    case 2
    have "hdr_in A w1" using 2(3) Suc.prems(2,3) by (auto simp: hdr_in_def)
    with Suc.IH [OF 2(2) order_trans [OF tail_from_cells [OF 2(1)] Suc.prems(2)]] show ?thesis
      using same_on_trans [OF wr] by blast
  qed (use Suc.prems in simp)
qed

lemma fill_chain_in:
  assumes "fill_chain segs w g = Some (w', g')" "\<forall>s \<in> set segs. cells s \<subseteq> A" "hdr_in A w"
  shows "same_on (- A) g g' \<and> hdr_in A w'"
  using assms
proof (induction segs arbitrary: w g)
  case (Cons seg segs)
  then obtain w1 g1 where f: "fill_seg (Suc (sl_len seg)) seg w g = Some (w1, g1)"
      and r: "(w1, g1) = (w', g') \<or> fill_chain segs w1 g1 = Some (w', g')"
    by (auto split: bind_splits if_splits)
  have s: "same_on (- A) g g1" "hdr_in A w1" using fill_seg_in [OF f] Cons.prems by auto
  from r show ?case
  proof
    assume "fill_chain segs w1 g1 = Some (w', g')"
    from Cons.IH [OF this _ s(2)] Cons.prems(2) show ?thesis using same_on_trans [OF s(1)] by auto
  qed (use s in simp)
qed simp

text \<open>The ring and the memory a result of the receive loop carries.\<close>

fun rx_parts :: "rx_result \<Rightarrow> (vring \<times> gmem \<times> slice option) option" where
  "rx_parts (RxFilled v w us g) = Some (v, g, hdrSeg w)"
| "rx_parts (RxMalformed v hs g) = Some (v, g, None)"
| "rx_parts RxFuel = None"

definition rx_safe :: "(nat \<times> nat) set \<Rightarrow> vring \<Rightarrow> gmem \<Rightarrow> rx_result \<Rightarrow> bool" where
  "rx_safe A v g r \<longleftrightarrow> (case rx_parts r of None \<Rightarrow> True
     | Some (v', g', hs) \<Rightarrow> ring_kept v v' \<and> same_on (- A) g g' \<and> (\<forall>s. hs = Some s \<longrightarrow> cells s \<subseteq> A))"

lemma rx_safe_step:
  assumes "rx_safe A v1 g1 r" "ring_kept v v1" "same_on (- A) g g1"
  shows "rx_safe A v g r"
  using assms ring_kept_trans [OF assms(2)] same_on_trans [OF assms(3)]
  by (auto simp: rx_safe_def split: option.splits)

lemma rx_loop_in:
  assumes "rx_loop fuel mrg mem v w us g = Some r" "list_all region_wf mem" "hdr_in (table_cells mem) w"
  shows "rx_safe (table_cells mem) v g r"
  using assms(1,3)
proof (induction fuel arbitrary: v w us g)
  case 0
  then show ?case by (auto simp: rx_loop.simps rx_safe_def hdr_in_def split: if_splits)
next
  case (Suc fuel)
  let ?A = "table_cells mem"
  from Suc.prems(1) consider v1 where "r = RxFilled v1 w us g" "v1 = v \<or> popAvail v g = Some (None, v1)"
    | h v1 where "popAvail v g = Some (Some h, v1)" "r = RxMalformed v1 (map fst us @ [h]) g"
    | h v1 c w1 g1 where "popAvail v g = Some (Some h, v1)" "resolveChain v1 mem g h = Some (Inr c)"
        "fill_chain (writable c) (w\<lparr>written := 0\<rparr>) g = Some (w1, g1)"
        "rx_loop fuel mrg mem v1 w1 (us @ [(h, written w1)]) g1 = Some r"
    by (subst (asm) rx_loop.simps) (auto split: if_splits option.splits sum.splits bind_splits)
  then show ?case
  proof cases
    case 1
    then have "ring_kept v v1" using popAvail_kept by auto
    then show ?thesis using 1(1) Suc.prems(2) by (simp add: rx_safe_def hdr_in_def)
  next
    case 2
    then show ?thesis using popAvail_kept by (simp add: rx_safe_def)
  next
    case 3
    have "\<forall>s \<in> set (writable c). cells s \<subseteq> ?A"
      using resolveChain_segs(1) [OF assms(2) 3(2)] in_table_cells by (auto simp: list_all_iff)
    moreover have "hdr_in ?A (w\<lparr>written := 0\<rparr>)" using Suc.prems(2) by (simp add: hdr_in_def)
    ultimately have f: "same_on (- ?A) g g1" "hdr_in ?A w1" using fill_chain_in [OF 3(3)] by simp_all
    show ?thesis by (rule rx_safe_step [OF Suc.IH [OF 3(4) f(2)] popAvail_kept [OF 3(1)] f(1)])
  qed
qed

lemma setUsedElems_in: "setUsedElems i us v g = Some g' \<Longrightarrow> used_in A v \<Longrightarrow> same_on (- A) g g'"
proof (induction i us v g rule: setUsedElems.induct)
  case (2 i h n us v g)
  then obtain g1 where g1: "setUsedElem (word_of_nat i) h n v g = Some g1" "setUsedElems (Suc i) us v g1 = Some g'"
    by (auto split: bind_splits)
  show ?case by (rule same_on_trans [OF setUsedElem_in [OF g1(1)] 2(1) [OF g1]]) (use 2(3) in simp_all)
qed simp

lemma publish_in:
  assumes "publish us v g = Some (v', g', evs)" "used_in A v"
  shows "ring_kept v v' \<and> same_on (- A) g g'"
proof -
  from assms(1) obtain g1 where g1: "setUsedElems 0 us v g = Some g1" "publishUsed (word_of_nat (length us)) (v, g1) = Some (v', g')"
    by (auto simp: publish_def split: bind_splits)
  have "same_on (- A) g g1" "same_on (- A) g1 g'"
    by (rule setUsedElems_in [OF g1(1) assms(2)], rule publishUsed_in [OF g1(2) assms(2)])
  with publishUsed_kept [OF g1(2)] show ?thesis using same_on_trans by blast
qed

lemma patch_in: "(\<forall>s. hs = Some s \<longrightarrow> cells s \<subseteq> A) \<Longrightarrow> same_on (- A) g (patchNumBuffers hs n g)"
  by (cases hs) (auto simp: patchNumBuffers_def virtioNetHdrSize_def sl_def cells_def subset_iff intro!: same_on_wr)

text \<open>
  Both directions of the data path: the device changes in the indexes of one ring and its log, and
  memory inside the shared regions only.
\<close>

definition dev_kept :: "nat \<Rightarrow> netDevice \<Rightarrow> netDevice \<Rightarrow> bool" where
  "dev_kept i d d' \<longleftrightarrow> (\<exists>v es. ring_kept (ring_at d i) v \<and> d' = log_ev es (set_ring i v d) \<and> (\<forall>fd. FdClosed fd \<notin> set es))"

lemma dev_keptI: "ring_kept (ring_at d i) v \<Longrightarrow> (\<And>fd. FdClosed fd \<notin> set es) \<Longrightarrow> dev_kept i d (log_ev es (set_ring i v d))"
  by (auto simp: dev_kept_def)

lemma dev_kept_refl: "dev_kept i d d"
  unfolding dev_kept_def by (rule exI [of _ "ring_at d i"], rule exI [of _ "[]"]) (simp add: set_ring_def ring_at_def)

lemma drainTXLocked_parts:
  assumes "drainTXLocked fuel mem v g = Some (Drained fr n v' g', evs)"
  shows "drain_loop fuel mem [] 0 v g = Some (Drained fr n v' g')" "\<forall>fd. FdClosed fd \<notin> set evs"
  using assms by (auto simp: drainTXLocked_def split: bind_splits drain_result.splits if_splits option.splits)

lemma txPump_in:
  assumes "txPump fuel d g = Some (Some (d', g'))" "dev_wf d" "dmem d = Some mem"
  shows "dev_kept txQueue d d' \<and> same_on (- table_cells mem) g g'"
proof (cases "started (ring_at d txQueue)")
  case True
  then obtain fr n v evs where dr: "drainTXLocked fuel mem (ring_at d txQueue) g = Some (Drained fr n v g', evs)"
      and d': "d' = log_ev (evs @ map FrameDelivered fr) (set_ring txQueue v d)"
    using assms(1,3) by (auto simp: txPump_def split: bind_splits drain_result.splits)
  have "used_in (table_cells mem) (ring_at d txQueue)"
    using dev_wf_ring [OF assms(2)] assms(3) by (simp add: ring_wf_used_in)
  from drain_loop_in [OF drainTXLocked_parts(1) [OF dr] this] drainTXLocked_parts(2) [OF dr] show ?thesis
    using d' by (auto intro!: dev_keptI)
qed (use assms dev_kept_refl in \<open>auto simp: txPump_def\<close>)

lemma publish_events: "publish us v g = Some (v', g', evs) \<Longrightarrow> FdClosed fd \<notin> set evs"
  by (auto simp: publish_def split: bind_splits option.splits)

lemma WriteFrame_in:
  assumes "WriteFrame fuel frame d g = Some (Some (b, d', g'))" "dev_wf d" "dmem d = Some mem"
  shows "dev_kept rxQueue d d' \<and> same_on (- table_cells mem) g g'"
proof (cases "length frame > maxFrameSize \<or> \<not> started (ring_at d rxQueue)")
  case True
  then show ?thesis using assms dev_kept_refl by (auto simp: WriteFrame_def Let_def split: if_splits)
next
  case False
  let ?v = "ring_at d rxQueue" and ?A = "table_cells mem"
  define w0 where "w0 = \<lparr>remaining = virtioNetHdrSize + length frame, src = frame, hdrLeft = virtioNetHdrSize,
    hdrSeg = None, written = 0\<rparr>"
  from assms(1,3) False obtain r where r: "rx_loop fuel (mrgRxbufLocked d) mem ?v w0 [] g = Some r" and
    alts: "(\<exists>v1 hs g1 v2 evs. r = RxMalformed v1 hs g1 \<and> publish (map (\<lambda>h. (h, 0)) hs) v1 g1 = Some (v2, g', evs)
        \<and> d' = log_ev evs (set_ring rxQueue v2 d))
      \<or> (\<exists>v1 w us. r = RxFilled v1 w us g' \<and> d' = set_ring rxQueue (v1\<lparr>lastAvail := lastAvail ?v\<rparr>) d)
      \<or> (\<exists>v1 w us g1 v2 evs. r = RxFilled v1 w us g1 \<and> d' = log_ev evs (set_ring rxQueue v2 d)
          \<and> publish us v1 (patchNumBuffers (hdrSeg w) (length us) g1) = Some (v2, g', evs))"
    by (auto simp: WriteFrame_def Let_def w0_def split: bind_splits rx_result.splits if_splits)
  have wf: "list_all region_wf mem" "used_in ?A ?v"
    using dev_wf_ring [OF assms(2)] assms(2,3) by (simp_all add: ring_wf_used_in dev_wf_def)
  have safe: "rx_safe ?A ?v g r" by (rule rx_loop_in [OF r wf(1)]) (simp add: hdr_in_def w0_def)
  have pub: "dev_kept rxQueue d (log_ev evs (set_ring rxQueue v2 d)) \<and> same_on (- ?A) g g'"
    if "publish us v1 g2 = Some (v2, g', evs)" "ring_kept ?v v1" "same_on (- ?A) g g2" for us v1 g2 v2 evs
    using publish_in [OF that(1)] wf(2) that(2,3) publish_events [OF that(1)]
    by (auto simp: used_in_kept intro!: dev_keptI elim: ring_kept_trans same_on_trans)
  from alts show ?thesis
  proof (elim disjE exE conjE)
    fix v1 hs g1 v2 evs assume a: "r = RxMalformed v1 hs g1" "publish (map (\<lambda>h. (h, 0)) hs) v1 g1 = Some (v2, g', evs)"
      "d' = log_ev evs (set_ring rxQueue v2 d)"
    show ?thesis unfolding a(3) by (rule pub [OF a(2)]) (use safe in \<open>simp_all add: rx_safe_def a(1)\<close>)
  next
    fix v1 w us assume "r = RxFilled v1 w us g'" "d' = set_ring rxQueue (v1\<lparr>lastAvail := lastAvail ?v\<rparr>) d"
    then show ?thesis
      using safe dev_keptI [of d rxQueue "v1\<lparr>lastAvail := lastAvail ?v\<rparr>" "[]"] ring_kept_trans [OF _ ring_kept_update(1)]
      by (simp add: rx_safe_def)
  next
    fix v1 w us g1 v2 evs assume a: "r = RxFilled v1 w us g1" "d' = log_ev evs (set_ring rxQueue v2 d)"
      "publish us v1 (patchNumBuffers (hdrSeg w) (length us) g1) = Some (v2, g', evs)"
    show ?thesis unfolding a(2)
      by (rule pub [OF a(3)]) (use safe in \<open>auto simp: rx_safe_def a(1) intro: same_on_trans [OF _ patch_in]\<close>)
  qed
qed

section \<open>Runs of a session\<close>

text \<open>
  The steps of a device: a message served, a turn of the transmit pump and its exit, a frame
  written to the guest, the session closed by its owner. Guest memory is an argument of every
  step: the guest may have written anything in between. A panic, and a loop that does not end
  within its fuel, have no next state.
\<close>

datatype dev_op = DServe gmem bool message | DPump nat gmem | DPumpExit | DWrite nat "byte list" gmem | DClose

fun dev_step :: "mmap_fn \<Rightarrow> u64 \<Rightarrow> dev_op \<Rightarrow> netDevice \<Rightarrow> netDevice option" where
  "dev_step mmap pm (DServe g ok m) d = serve mmap pm g ok m d"
| "dev_step mmap pm (DPump fuel g) d = do { r \<leftarrow> txPump fuel d g; map_option fst r }"
| "dev_step mmap pm DPumpExit d = Some (txPump_exit d)"
| "dev_step mmap pm (DWrite fuel frame g) d = do { r \<leftarrow> WriteFrame fuel frame d g; map_option (fst \<circ> snd) r }"
| "dev_step mmap pm DClose d = Some (CloseDev d)"

definition exec_dev :: "mmap_fn \<Rightarrow> u64 \<Rightarrow> dev_op \<Rightarrow> netDevice option \<Rightarrow> netDevice option" where
  "exec_dev mmap pm op s = Option.bind s (dev_step mmap pm op)"

lemma dev_kept_wf: "dev_wf d \<Longrightarrow> i < 2 \<Longrightarrow> dev_kept i d d' \<Longrightarrow> dev_wf d'"
  using dev_wf_ring [of d i] by (auto simp: dev_kept_def ring_kept_wf intro!: dev_wf_set_ring)

lemma dev_wf_pump_exit: "dev_wf d \<Longrightarrow> dev_wf (txPump_exit d)"
  using dev_wf_ring [of d txQueue]
  by (auto simp: txPump_exit_def Let_def intro!: dev_wf_set_ring split: option.split)

lemma data_path_kept:
  assumes "dev_wf d"
  shows "txPump fuel d g = Some (Some (d', g')) \<Longrightarrow> dev_kept txQueue d d'"
    "WriteFrame fuel frame d g = Some (Some (b, d', g')) \<Longrightarrow> dev_kept rxQueue d d'"
proof -
  assume a: "txPump fuel d g = Some (Some (d', g'))"
  show "dev_kept txQueue d d'"
    using a txPump_in [OF a assms] dev_kept_refl by (cases "dmem d") (auto simp: txPump_def)
next
  assume a: "WriteFrame fuel frame d g = Some (Some (b, d', g'))"
  show "dev_kept rxQueue d d'"
    using a WriteFrame_in [OF a assms] dev_kept_refl by (cases "dmem d") (auto simp: WriteFrame_def Let_def split: if_splits)
qed

lemma dev_step_kinds:
  assumes "dev_step mmap pm op d = Some d'"
  obtains (serve) g ok m where "op = DServe g ok m" "serve mmap pm g ok m d = Some d'"
    | (pump) fuel g g' where "op = DPump fuel g" "txPump fuel d g = Some (Some (d', g'))"
    | (pumpexit) "op = DPumpExit" "d' = txPump_exit d"
    | (frame) fuel fr g b g' where "op = DWrite fuel fr g" "WriteFrame fuel fr d g = Some (Some (b, d', g'))"
    | (close) "op = DClose" "d' = CloseDev d"
  using assms by (cases op) (auto split: bind_splits)

lemma dev_wf_step:
  assumes "dev_wf d" "dev_step mmap pm op d = Some d'"
  shows "dev_wf d'"
  using assms(2)
proof (cases rule: dev_step_kinds)
  case pump
  show ?thesis by (rule dev_kept_wf [OF assms(1) _ data_path_kept(1) [OF assms(1) pump(2)]]) simp
next
  case frame
  show ?thesis by (rule dev_kept_wf [OF assms(1) _ data_path_kept(2) [OF assms(1) frame(2)]]) simp
qed (use assms(1) dev_wf_serve in \<open>auto simp: dev_wf_pump_exit dev_wf_CloseDev\<close>)

interpretation dev: invariant_system "exec_dev mmap pm" "\<lambda>s. \<forall>d. s = Some d \<longrightarrow> dev_wf d" for mmap pm
  by unfold_locales (auto simp: exec_dev_def dest: dev_wf_step split: bind_splits)

text \<open>
  C8. Every reachable state of the device is well-formed, whatever messages, guest memory and
  interleaving of the data path led to it: negotiated features are a subset of the offered ones,
  ring areas lie inside the current memory table, and a running ring has a table, a size and a
  kick descriptor.
\<close>

theorem reachable_device_wf:
  assumes "fold (exec_dev mmap pm) ops (Some (NewNetDevice ap)) = Some d"
  shows "dev_wf d"
  using dev.inv_run [of "Some (NewNetDevice ap)" mmap pm ops] assms dev_wf_New by simp

theorem reachable_device_wf_witness:
  "\<exists>d. fold (exec_dev (\<lambda>_ _ _. None) 4095) [DClose, DPumpExit] (Some (NewNetDevice True)) = Some d \<and> dclosed d \<and> dev_wf d"
proof -
  let ?run = "fold (exec_dev (\<lambda>_ _ _. None) 4095) [DClose, DPumpExit] (Some (NewNetDevice True))"
  have "\<exists>d. ?run = Some d \<and> dclosed d"
    by (auto simp: exec_dev_def txPump_exit_def Let_def CloseDev_def NewNetDevice_def split: option.split)
  then show ?thesis using reachable_device_wf by blast
qed

definition shared_cells :: "netDevice \<Rightarrow> (nat \<times> nat) set" where
  "shared_cells d = (case dmem d of None \<Rightarrow> {} | Some t \<Rightarrow> table_cells t)"


definition ex_dev :: netDevice where
  "ex_dev = (NewNetDevice False)\<lparr>dmem := Some [ex_region], rings := [ex_ring, ex_ring]\<rparr>"

lemma ex_dev_wf: "dev_wf ex_dev"
proof -
  have "in_table [ex_region] b" if "0 < sl_len b" "sl_obj b = 7" "sl_off b + sl_len b \<le> 128" for b
    using that by (auto simp: in_table_def ex_region_def cells_def)
  then have "ring_wf (Some [ex_region]) ex_ring"
    by (simp add: ring_wf_def areas_wf_def area_in_def ex_ring_def newVring_def pow2_size_def)
  then show ?thesis by (simp add: dev_wf_def ex_dev_def NewNetDevice_def ex_region_def region_wf_def)
qed


end
