(* ===== verification/VhostFds.thy ===== *)
theory VhostFds
  imports VhostInv
begin

text \<open>
  The file descriptors of a vhost-user session. Front-ends pass descriptors with their messages; a
  descriptor closed twice could hit an unrelated file, one never closed leaks. The multiset of
  closed descriptors and of those held by the rings is compared with the multiset received.
\<close>

section \<open>Accounting\<close>

fun fd_closed :: "dev_event \<Rightarrow> int list" where
  "fd_closed (FdClosed fd) = [fd]"
| "fd_closed _ = []"

definition closed_fds :: "netDevice \<Rightarrow> int multiset" where
  "closed_fds d = mset (concat (map fd_closed (dlog d)))"

definition opt_fd :: "int option \<Rightarrow> int multiset" where
  "opt_fd f = (case f of Some fd \<Rightarrow> {#fd#} | None \<Rightarrow> {#})"

definition ring_fds :: "vring \<Rightarrow> int multiset" where
  "ring_fds v = opt_fd (kick v) + opt_fd (call v)"

definition held_fds :: "netDevice \<Rightarrow> int multiset" where
  "held_fds d = ring_fds (ring_at d rxQueue) + ring_fds (ring_at d txQueue)"

definition fd_total :: "netDevice \<Rightarrow> int multiset" where
  "fd_total d = closed_fds d + held_fds d"

lemma opt_fd_simps [simp]: "opt_fd None = {#}" "opt_fd (Some fd) = {#fd#}"
  by (simp_all add: opt_fd_def)

lemma held_log [simp]: "held_fds (log_ev es d) = held_fds d"
  by (simp add: held_fds_def ring_at_def)

lemma closed_log [simp]: "closed_fds (log_ev es d) = closed_fds d + mset (concat (map fd_closed es))"
  by (simp add: closed_fds_def)

lemma total_log [simp]: "fd_total (log_ev es d) = fd_total d + mset (concat (map fd_closed es))"
  by (simp add: fd_total_def)

lemma concat_closed [simp]: "concat (map fd_closed (map FdClosed fs)) = fs"
  by (induction fs) simp_all

lemma closed_set_ring [simp]: "closed_fds (set_ring i v d) = closed_fds d"
  by (simp add: closed_fds_def)

lemma two_queues: "i < 2 \<Longrightarrow> i = rxQueue \<or> i = txQueue"
  by (auto simp: rxQueue_def txQueue_def)

lemma total_set_ring:
  assumes "length (rings d) = 2" "i < 2" "ring_fds v = ring_fds (ring_at d i) + A"
  shows "fd_total (set_ring i v d) = fd_total d + A"
  using two_queues [OF assms(2)] assms(1,3)
  by (auto simp: fd_total_def held_fds_def ring_at_def rxQueue_def txQueue_def)

lemma total_set_ring_minus:
  assumes "length (rings d) = 2" "i < 2" "ring_fds v + A = ring_fds (ring_at d i) + B"
  shows "fd_total (set_ring i v d) + A = fd_total d + B"
proof -
  have "fd_total (set_ring i v d) + ring_fds (ring_at d i) = fd_total d + ring_fds v"
    using two_queues [OF assms(2)] assms(1) by (auto simp: fd_total_def held_fds_def ring_at_def rxQueue_def txQueue_def)
  then have "fd_total (set_ring i v d) + A + ring_fds (ring_at d i) = fd_total d + B + ring_fds (ring_at d i)"
    using assms(3) by (metis union_assoc union_commute)
  then show ?thesis by simp
qed

lemma total_stop:
  assumes "length (rings d) = 2" "i < 2"
  shows "fd_total (stopRingLocked i d) = fd_total d"
proof -
  let ?v = "ring_at d i"
  have "fd_total (set_ring i (stopped_ring ?v) d) + ring_fds ?v = fd_total d + {#}"
    by (rule total_set_ring_minus [OF assms]) (simp add: stopped_ring_def ring_fds_def)
  moreover have "mset (concat (map fd_closed (map FdClosed (case kick ?v of Some k \<Rightarrow> [k] | None \<Rightarrow> []) @
      map FdClosed (case call ?v of Some c \<Rightarrow> [c] | None \<Rightarrow> [])))) = ring_fds ?v"
    by (simp add: ring_fds_def split: option.split)
  ultimately show ?thesis by (simp add: stopRingLocked_def Let_def)
qed

lemma total_eval:
  assumes "length (rings d) = 2" "i < 2"
  shows "fd_total (evalRingLocked i d) = fd_total d"
proof -
  have "fd_total (set_ring i v d) = fd_total d" if "ring_fds v = ring_fds (ring_at d i)" for v
    using total_set_ring [OF assms, of v "{#}"] that by simp
  then show ?thesis
    by (auto simp: evalRingLocked_def Let_def ring_fds_def split: option.split)
qed

lemma length_eval_stop [simp]:
  "length (rings (evalRingLocked i d)) = length (rings d)" "length (rings (stopRingLocked i d)) = length (rings d)"
  by (simp_all add: evalRingLocked_def stopRingLocked_def Let_def split: option.split)

lemma total_close_mem: "fd_total (closeMem d) = fd_total d"
proof -
  have "concat (map fd_closed (map Unmapped xs)) = []" for xs by (induction xs) simp_all
  then show ?thesis
    by (simp add: closeMem_def fd_total_def held_fds_def ring_at_def closed_fds_def split: option.split)
qed

lemma total_stopRings: "length (rings d) = 2 \<Longrightarrow> fd_total (stopRings d) = fd_total d"
  by (simp add: stopRings_def total_stop)

lemma total_evalRings: "length (rings d) = 2 \<Longrightarrow> fd_total (evalRings d) = fd_total d"
  by (simp add: evalRings_def total_eval)

lemma total_fields [simp]:
  "fd_total (d\<lparr>dmem := m\<rparr>) = fd_total d" "fd_total (d\<lparr>dclosed := c\<rparr>) = fd_total d"
  "fd_total (d\<lparr>protoFeatures := f\<rparr>) = fd_total d" "fd_total (d\<lparr>features := f, protoOn := p\<rparr>) = fd_total d"
  by (simp_all add: fd_total_def closed_fds_def held_fds_def ring_at_def)

lemma total_CloseDev: "length (rings d) = 2 \<Longrightarrow> fd_total (CloseDev d) = fd_total d"
  by (simp add: CloseDev_def total_close_mem total_stopRings)

lemma total_setMemTable:
  assumes "length (rings d) = 2" "setMemTableLocked mmap pm m d = Some (e, d')"
  shows "fd_total d' = fd_total d"
  using assms by (auto simp: setMemTableLocked_def Let_def total_evalRings total_close_mem total_stopRings
      split: option.splits sum.splits if_splits)

lemma total_setVringAddr:
  assumes l: "length (rings d) = 2" and eq: "setVringAddrLocked g p d = Some (e, d')"
  shows "fd_total d' = fd_total d"
proof -
  have same: "fd_total (set_ring i v d) = fd_total d" if "i < 2" "ring_fds v = ring_fds (ring_at d i)" for i v
    using total_set_ring [OF l that(1), of v "{#}"] that(2) by simp
  show ?thesis
    using eq l
    by (auto simp: setVringAddrLocked_def Let_def ring_fds_def total_eval ring_of_Some
        split: option.splits sum.splits if_splits bind_splits intro!: same)
qed

lemma total_swap:
  assumes "length (rings d) = 2" "i < 2"
  shows "kick (ring_at d i) = Some k \<Longrightarrow>
      fd_total (log_ev [FdClosed k] (set_ring i ((ring_at d i)\<lparr>started := b, kick := f\<rparr>) d)) = fd_total d + opt_fd f"
    "kick (ring_at d i) = None \<Longrightarrow> fd_total (set_ring i ((ring_at d i)\<lparr>kick := f\<rparr>) d) = fd_total d + opt_fd f"
    "call (ring_at d i) = Some k \<Longrightarrow>
      fd_total (log_ev [FdClosed k] (set_ring i ((ring_at d i)\<lparr>call := f\<rparr>) d)) = fd_total d + opt_fd f"
    "call (ring_at d i) = None \<Longrightarrow> fd_total (set_ring i ((ring_at d i)\<lparr>call := f\<rparr>) d) = fd_total d + opt_fd f"
  using total_set_ring_minus [OF assms, of "(ring_at d i)\<lparr>started := b, kick := f\<rparr>" "{#k#}" "opt_fd f"]
    total_set_ring [OF assms, of "(ring_at d i)\<lparr>kick := f\<rparr>" "opt_fd f"]
    total_set_ring_minus [OF assms, of "(ring_at d i)\<lparr>call := f\<rparr>" "{#k#}" "opt_fd f"]
    total_set_ring [OF assms, of "(ring_at d i)\<lparr>call := f\<rparr>" "opt_fd f"]
  by (simp_all add: ring_fds_def)

lemma total_setVringFD:
  assumes l: "length (rings d) = 2" and eq: "setVringFDLocked m isKick d = (e, d', left)"
  shows "fd_total d' + mset left = fd_total d + mset (fds m)"
proof -
  let ?val = "le64 (payload m)"
  let ?idx = "ucast (?val AND vringIdxMask) :: u32"
  show ?thesis
  proof (cases "length (payload m) < 8 \<or> ring_of ?idx = None \<or> (?val AND invalidFDFlag = 0 \<and> fds m = [])")
    case True
    then show ?thesis using eq by (auto simp: setVringFDLocked_def Let_def split: option.splits if_splits)
  next
    case False
    then obtain i where i: "ring_of ?idx = Some i" by auto
    define f where "f = (if ?val AND invalidFDFlag = 0 then Some (hd (fds m)) else None)"
    have "left = (if ?val AND invalidFDFlag = 0 then tl (fds m) else fds m)"
      using eq False i by (auto simp: setVringFDLocked_def Let_def split: option.splits if_splits)
    then have f: "opt_fd f + mset left = mset (fds m)"
      using False by (cases "fds m") (auto simp: f_def)
    note sw = total_swap [OF l ring_of_Some [OF i]]
    have "fd_total d' = fd_total d + opt_fd f"
      using eq False i l sw
      by (auto simp: setVringFDLocked_def Let_def total_eval ring_of_Some [OF i] f_def split: option.splits if_splits)
    then show ?thesis using f by (simp add: union_assoc)
  qed
qed

lemma total_handleReq:
  assumes l: "length (rings d) = 2" and eq: "handleReq mmap pm g m d = Some (e, reply, d', left)"
  shows "fd_total d' + mset left = fd_total d + mset (fds m)"
proof -
  have same: "fd_total (set_ring i v d) = fd_total d" if "ring_of idx = Some i" "ring_fds v = ring_fds (ring_at d i)" for idx i v
    using total_set_ring [OF l ring_of_Some [OF that(1)], of v "{#}"] that(2) by simp
  have ev: "fd_total (evalRingLocked i (set_ring i v d)) = fd_total d"
    if "ring_of idx = Some i" "ring_fds v = ring_fds (ring_at d i)" for idx i v
    using total_eval [of "set_ring i v d" i] same [OF that] ring_of_Some [OF that(1)] l by simp
  have stop: "fd_total (stopRingLocked i d) = fd_total d" if "ring_of idx = Some i" for idx i
    by (rule total_stop [OF l ring_of_Some [OF that]])
  note eqs = same ev stop total_setMemTable [OF l] total_setVringAddr [OF l]
  show ?thesis
    using eq unfolding handleReq_def Let_def
    by (auto split: if_split_asm option.splits prod.splits dest: total_setVringFD [OF l]
        simp: eqs total_stopRings [OF l] ring_fds_def)
qed

section \<open>Whole sessions\<close>

lemma total_handle:
  assumes "length (rings d) = 2" "handle mmap pm g ok m d = Some (e, d')"
  shows "fd_total d' = fd_total d + mset (fds m)"
  using assms(2)
proof (rule handle_log)
  fix e1 reply d1 left es
  assume r: "handleReq mmap pm g m d = Some (e1, reply, d1, left)"
    and d': "d' = log_ev (map FdClosed left) (log_ev es d1)" and es: "es = [] \<or> (\<exists>pl. es = [Replied (req m) pl])"
  have "fd_total d' = fd_total d1 + mset left" unfolding d' total_log concat_closed using es by auto
  then show ?thesis using total_handleReq [OF assms(1) r] by simp
qed

fun op_fds :: "dev_op \<Rightarrow> int multiset" where
  "op_fds (DServe g ok m) = mset (fds m)"
| "op_fds _ = {#}"

lemma dev_wf_rings: "dev_wf d \<Longrightarrow> length (rings d) = 2"
  by (simp add: dev_wf_def)

lemma total_kept:
  assumes "length (rings d) = 2" "i < 2" "dev_kept i d d'"
  shows "fd_total d' = fd_total d"
proof -
  from assms(3) obtain v es where v: "ring_kept (ring_at d i) v" "d' = log_ev es (set_ring i v d)" "\<forall>fd. FdClosed fd \<notin> set es"
    by (auto simp: dev_kept_def)
  have "fd_closed e = []" if "e \<in> set es" for e using v(3) that by (cases e) auto
  then have "concat (map fd_closed es) = []" by simp
  moreover have "fd_total (set_ring i v d) = fd_total d"
    using total_set_ring [OF assms(1,2), of v "{#}"] ring_kept_fields [OF v(1)] by (simp add: ring_fds_def)
  ultimately show ?thesis by (simp add: v(2))
qed

lemma total_pump_exit: "length (rings d) = 2 \<Longrightarrow> fd_total (txPump_exit d) = fd_total d"
  using total_set_ring [of d txQueue _ "{#}"]
  by (auto simp: txPump_exit_def Let_def ring_fds_def split: option.split)

lemma total_step:
  assumes "dev_wf d" "dev_step mmap pm op d = Some d'"
  shows "fd_total d' = fd_total d + op_fds op"
  using assms(2)
proof (cases rule: dev_step_kinds)
  case (serve g ok m)
  from serve(2) obtain e d1 where h: "handle mmap pm g ok m d = Some (e, d1)" "d' = (if e = None then d1 else serve_end d1)"
    by (auto simp: serve_def)
  have "length (rings d1) = 2" by (rule dev_wf_rings [OF dev_wf_handle [OF assms(1) h(1)]])
  then show ?thesis
    using total_handle [OF dev_wf_rings [OF assms(1)] h(1)] h(2) serve(1) by (simp add: serve_end_def total_CloseDev)
next
  case pump
  then show ?thesis using total_kept [OF dev_wf_rings [OF assms(1)] _ data_path_kept(1) [OF assms(1) pump(2)]] by simp
next
  case frame
  then show ?thesis using total_kept [OF dev_wf_rings [OF assms(1)] _ data_path_kept(2) [OF assms(1) frame(2)]] by simp
qed (use dev_wf_rings [OF assms(1)] in \<open>simp_all add: total_pump_exit total_CloseDev\<close>)

lemma exec_dev_simps [simp]: "exec_dev mmap pm op (Some d) = dev_step mmap pm op d" "exec_dev mmap pm op None = None"
  by (simp_all add: exec_dev_def)

lemma exec_dev_None: "fold (exec_dev mmap pm) ops None = None"
  by (induction ops) simp_all

lemma total_run:
  "fold (exec_dev mmap pm) ops (Some d) = Some d' \<Longrightarrow> dev_wf d \<Longrightarrow>
    fd_total d' = fd_total d + sum_list (map op_fds ops) \<and> dev_wf d'"
proof (induction ops arbitrary: d)
  case (Cons op ops)
  then obtain d1 where s: "dev_step mmap pm op d = Some d1" "fold (exec_dev mmap pm) ops (Some d1) = Some d'"
    by (cases "dev_step mmap pm op d") (auto simp: exec_dev_None)
  from Cons.IH [OF s(2) dev_wf_step [OF Cons.prems(2) s(1)]] total_step [OF Cons.prems(2) s(1)]
  show ?case by (simp add: union_assoc)
qed simp

lemma held_CloseDev:
  assumes "length (rings d) = 2" "\<not> dclosed d"
  shows "held_fds (CloseDev d) = {#}"
  using assms
  by (simp add: CloseDev_def held_fds_def ring_at_def stopRings_def stopRingLocked_def Let_def stopped_ring_def
      ring_fds_def rxQueue_def txQueue_def)


lemma ring_of_queues: "ring_of 0 = Some 0" "ring_of 1 = Some 1"
  by (simp_all add: ring_of_def nQueues_def word_le_nat_alt)

definition ex_kick :: message where
  "ex_kick = \<lparr>req = reqSetVringKick, flags = 1, payload = u64Payload 0, fds = [5]\<rparr>"

definition ex_call :: message where
  "ex_call = \<lparr>req = reqSetVringCall, flags = 1, payload = u64Payload 1, fds = [6, 7]\<rparr>"


end
