(* ===== verification/StpStatus.thy ===== *)
theory StpStatus
  imports Switch NetText "HOL-Library.Signed_Division"
begin

text \<open>
  The views of the spanning tree the control plane shows (\<^verbatim>\<open>STPStatus\<close> and \<^verbatim>\<open>STPPortStatus\<close> of
  \<^verbatim>\<open>internal/switchcore/stp.go\<close>). A printed bridge identifier determines the identifier.
\<close>

section \<open>Definitions\<close>

record STPPortStatus =
  State :: string
  Role :: string

record STPStatus =
  st_Enabled :: bool
  st_BridgeID :: string
  st_RootID :: string
  st_IsRoot :: bool
  st_RootPort :: string
  st_RootPathCost :: u32
  st_Priority :: u16
  st_HelloSeconds :: int
  st_MaxAgeSeconds :: int
  st_ForwardDelaySeconds :: int
  st_TopologyChange :: bool

fun stpStateName :: "stpState \<Rightarrow> string" where
  "stpStateName Blocking = ''blocking''"
| "stpStateName Listening = ''listening''"
| "stpStateName Learning = ''learning''"
| "stpStateName Forwarding = ''forwarding''"

text \<open>The source keeps a role as the text it is shown as.\<close>

fun stpRoleName :: "stpRole \<Rightarrow> string" where
  "stpRoleName RoleRoot = ''root''"
| "stpRoleName RoleDesignated = ''designated''"
| "stpRoleName RoleBlocked = ''blocked''"

definition hex_byte :: "byte \<Rightarrow> string" where
  "hex_byte v = [hex_chars ! unat (drop_bit 4 v), hex_chars ! unat (v AND 0xf)]"

definition formatBridgeID :: "u64 \<Rightarrow> string" where
  "formatBridgeID bid = concat (map (\<lambda>i. hex_byte (ucast (drop_bit (8 * i) bid))
     @ (if i = 6 \<or> i > 0 \<and> i < 6 then ''.'' else [])) [7, 6, 5, 4, 3, 2, 1, 0])"

definition port_status :: "switch \<Rightarrow> stpPort \<Rightarrow> STPPortStatus" where
  "port_status s sp = \<lparr>State = stpStateName (state (ent s (sp_entry sp))), Role = stpRoleName (role sp)\<rparr>"

definition STPStatus_of :: "switch \<Rightarrow> STPStatus \<times> (string, STPPortStatus) gomap" where
  "STPStatus_of s = (let b = stp s; on = Enabled (cfg b) in
     (\<lparr>st_Enabled = on,
       st_BridgeID = formatBridgeID (bridgeID b),
       st_RootID = (if on then formatBridgeID (rootID b) else []),
       st_IsRoot = (on \<and> rootPort b = []),
       st_RootPort = rootPort b,
       st_RootPathCost = rootCost b,
       st_Priority = Priority (cfg b),
       st_HelloSeconds = HelloTime (cfg b) sdiv time_Second,
       st_MaxAgeSeconds = MaxAge (cfg b) sdiv time_Second,
       st_ForwardDelaySeconds = ForwardDelay (cfg b) sdiv time_Second,
       st_TopologyChange = (tcWhile b > 0 \<or> tcnPending b)\<rparr>,
      map (\<lambda>(pid, sp). (pid, port_status s sp)) (bports b)))"

text \<open>The second result is whether the port takes part in the tree.\<close>

definition STPPortStatus_of :: "string \<Rightarrow> switch \<Rightarrow> STPPortStatus \<times> bool" where
  "STPPortStatus_of pid s = (case mget (bports (stp s)) pid of
       None \<Rightarrow> (\<lparr>State = ''-'', Role = ''-''\<rparr>, False)
     | Some sp \<Rightarrow> (port_status s sp, True))"

section \<open>Bridge identifiers are shown without loss\<close>

definition hex_digit :: "char \<Rightarrow> nat" where
  "hex_digit c = the (hex_val c)"

lemma hex_digit_char: "n < 16 \<Longrightarrow> hex_digit (hex_chars ! n) = n"
proof -
  assume "n < 16"
  then have "n \<in> {0, 1, 2, 3, 4, 5, 6, 7, 8, 9, 10, 11, 12, 13, 14, 15}" by simp arith
  then show ?thesis by (auto simp: hex_digit_def hex_chars_def hex_val_def)
qed

lemma hex_nibbles: "unat (v :: byte) = 16 * unat (drop_bit 4 v) + unat (v AND 0xf)"
proof -
  have "unat (drop_bit 4 v) = unat v div 16" by (simp add: drop_bit_eq_div unat_div_distrib)
  moreover have "unat (v AND 0xf) = unat v mod 16"
  proof -
    have "v AND 0xf = v AND mask 4" by (simp add: mask_eq_exp_minus_1)
    also have "\<dots> = take_bit 4 v" by (simp add: take_bit_eq_mask)
    finally show ?thesis by (simp add: take_bit_eq_mod unat_mod_distrib)
  qed
  ultimately show ?thesis by simp
qed

lemma nibble_bound: "unat (drop_bit 4 (v :: byte)) < 16" "unat ((v :: byte) AND 0xf) < 16"
proof -
  have "v AND 0xf \<le> 0xf" by (rule word_and_le1)
  then show "unat (v AND 0xf) < 16" by (simp add: word_le_nat_alt)
  show "unat (drop_bit 4 v) < 16" using hex_nibbles [of v] unat_bound(1) [of v] by simp
qed

lemma hex_byte_inj: "hex_byte v = hex_byte w \<Longrightarrow> v = w"
proof -
  assume "hex_byte v = hex_byte w"
  then have "hex_chars ! unat (drop_bit 4 v) = hex_chars ! unat (drop_bit 4 w)"
    "hex_chars ! unat (v AND 0xf) = hex_chars ! unat (w AND 0xf)"
    by (simp_all add: hex_byte_def)
  from arg_cong [OF this(1), of hex_digit] arg_cong [OF this(2), of hex_digit]
  have "unat (drop_bit 4 v) = unat (drop_bit 4 w)" "unat (v AND 0xf) = unat (w AND 0xf)"
    by (simp_all only: hex_digit_char nibble_bound)
  then have "unat v = unat w" using hex_nibbles [of v] hex_nibbles [of w] by simp
  then show ?thesis by (rule unsigned_word_eqI)
qed

lemma length_hex_byte [simp]: "length (hex_byte v) = 2"
  by (simp add: hex_byte_def)

lemma hex_byte_append: "hex_byte v @ xs = hex_byte w @ ys \<longleftrightarrow> v = w \<and> xs = ys"
  using hex_byte_inj [of v w] by (auto simp: append_eq_append_conv)

lemma hex_byte_eq: "hex_byte v = hex_byte w \<longleftrightarrow> v = w"
  using hex_byte_inj by blast

lemma byte_of_u64: "(\<And>i. i < 8 \<Longrightarrow> (ucast (drop_bit (8 * i) a) :: byte) = ucast (drop_bit (8 * i) b)) \<Longrightarrow> (a :: u64) = b"
proof (rule bit_word_eqI)
  fix n assume bytes: "\<And>i. i < 8 \<Longrightarrow> (ucast (drop_bit (8 * i) a) :: byte) = ucast (drop_bit (8 * i) b)"
    and "n < LENGTH(64)"
  then have "n div 8 < 8" by simp
  from bytes [OF this] have "bit (ucast (drop_bit (8 * (n div 8)) a) :: byte) (n mod 8)
      = bit (ucast (drop_bit (8 * (n div 8)) b) :: byte) (n mod 8)" by simp
  then show "bit a n = bit b n" by (simp add: bit_ucast_iff bit_drop_bit_eq)
qed

theorem bridge_id_shown_exactly: "formatBridgeID a = formatBridgeID b \<longleftrightarrow> a = b"
proof
  assume "formatBridgeID a = formatBridgeID b"
  then have h: "\<forall>i \<in> {0, 1, 2, 3, 4, 5, 6, 7}. (ucast (drop_bit (8 * i) a) :: byte) = ucast (drop_bit (8 * i) b)"
    by (simp add: formatBridgeID_def hex_byte_append hex_byte_eq)
  show "a = b"
  proof (rule byte_of_u64)
    fix i :: nat assume "i < 8"
    then have "i \<in> {0, 1, 2, 3, 4, 5, 6, 7}" by simp arith
    then show "(ucast (drop_bit (8 * i) a) :: byte) = ucast (drop_bit (8 * i) b)" by (rule bspec [OF h])
  qed
qed simp

end
