(* ===== verification/Framing.thy ===== *)
theory Framing
  imports Vlan
begin

text \<open>
  How transports carry frames (\<^verbatim>\<open>internal/ports/framing.go\<close>): over a byte stream behind a length prefix,
  or one frame per datagram. Frames written to a stream are read back by the peer one by one,
  however the stream is fragmented.

  What a connection delivers and what was written to it are fields of its state. Whether a
  write fails, and after how many bytes, is an argument.
\<close>

section \<open>Streams\<close>

definition maxFrameSize :: nat where "maxFrameSize = 65535"

text \<open>The reader buffers the connection, which does not change the bytes it gives out.\<close>

record streamIO =
  sio_in :: conn
  sio_out :: "byte list"
  sio_closed :: bool

datatype frame_error = ConnFailed | BadFrameLength u32

definition newStreamIO :: "conn \<Rightarrow> streamIO" where
  "newStreamIO c = \<lparr>sio_in = c, sio_out = [], sio_closed = False\<rparr>"

text \<open>\<^verbatim>\<open>io.ReadFull\<close> of a buffer of \<open>n\<close> bytes; a closed connection gives an error.\<close>

definition ReadFull :: "nat \<Rightarrow> streamIO \<Rightarrow> (byte list \<times> streamIO) option" where
  "ReadFull n s = (if sio_closed s then None
     else map_option (\<lambda>(b, cs). (b, s\<lparr>sio_in := cs\<rparr>)) (read_rest n n [] (sio_in s)))"

definition ReadFrame :: "streamIO \<Rightarrow> frame_error + (frame \<times> streamIO)" where
  "ReadFrame s = (case ReadFull 4 s of
       None \<Rightarrow> Inl ConnFailed
     | Some (hdr, s1) \<Rightarrow>
         (let n = be32 hdr in
          if n = 0 \<or> n > word_of_nat maxFrameSize then Inl (BadFrameLength n)
          else (case ReadFull (unat n) s1 of
                  None \<Rightarrow> Inl ConnFailed
                | Some (buf, s2) \<Rightarrow> Inr (buf, s2))))"

text \<open>
  \<^verbatim>\<open>conn.Write\<close>: with \<open>None\<close> it writes the whole buffer, with \<open>Some n\<close> it fails after at most \<open>n\<close>
  bytes. It fails at once on a closed connection.
\<close>

definition conn_write :: "nat option \<Rightarrow> byte list \<Rightarrow> streamIO \<Rightarrow> bool \<times> streamIO" where
  "conn_write res buf s = (if sio_closed s then (False, s)
     else case res of
       None \<Rightarrow> (True, s\<lparr>sio_out := sio_out s @ buf\<rparr>)
     | Some n \<Rightarrow> (False, s\<lparr>sio_out := sio_out s @ take n buf\<rparr>))"

definition stream_buf :: "frame \<Rightarrow> byte list" where
  "stream_buf fr =
    (let b0 = replicate (4 + length fr) 0;
         b1 = blit b0 0 (put_be32 (word_of_nat (length fr)))
     in blit b1 4 fr)"

definition WriteFrame :: "nat option \<Rightarrow> frame \<Rightarrow> streamIO \<Rightarrow> bool \<times> streamIO" where
  "WriteFrame res fr s = conn_write res (stream_buf fr) s"

definition CloseStream :: "streamIO \<Rightarrow> streamIO" where
  "CloseStream s = s\<lparr>sio_closed := True\<rparr>"

section \<open>Datagrams\<close>

text \<open>A read takes one datagram; the part that does not fit the scratch buffer is lost.\<close>

record dgramIO =
  dio_in :: "byte list list"
  dio_out :: "byte list list"
  dio_closed :: bool

definition newDgramIO :: "byte list list \<Rightarrow> dgramIO" where
  "newDgramIO ds = \<lparr>dio_in = ds, dio_out = [], dio_closed = False\<rparr>"

definition ReadDgram :: "dgramIO \<Rightarrow> frame_error + (frame \<times> dgramIO)" where
  "ReadDgram d = (if dio_closed d then Inl ConnFailed
     else case dio_in d of
       [] \<Rightarrow> Inl ConnFailed
     | x # xs \<Rightarrow> Inr (take (maxFrameSize + 1) x, d\<lparr>dio_in := xs\<rparr>))"

definition WriteDgram :: "bool \<Rightarrow> frame \<Rightarrow> dgramIO \<Rightarrow> bool \<times> dgramIO" where
  "WriteDgram ok fr d = (if dio_closed d \<or> \<not> ok then (False, d) else (True, d\<lparr>dio_out := dio_out d @ [fr]\<rparr>))"

definition CloseDgram :: "dgramIO \<Rightarrow> dgramIO" where
  "CloseDgram d = d\<lparr>dio_closed := True\<rparr>"

section \<open>The interface\<close>

datatype frameIO = Stream streamIO | Dgram dgramIO

definition io_read :: "frameIO \<Rightarrow> frame_error + (frame \<times> frameIO)" where
  "io_read x = (case x of
       Stream s \<Rightarrow> (case ReadFrame s of Inl e \<Rightarrow> Inl e | Inr (fr, s') \<Rightarrow> Inr (fr, Stream s'))
     | Dgram d \<Rightarrow> (case ReadDgram d of Inl e \<Rightarrow> Inl e | Inr (fr, d') \<Rightarrow> Inr (fr, Dgram d')))"

definition io_write :: "nat option \<Rightarrow> frame \<Rightarrow> frameIO \<Rightarrow> bool \<times> frameIO" where
  "io_write res fr x = (case x of
       Stream s \<Rightarrow> (let (ok, s') = WriteFrame res fr s in (ok, Stream s'))
     | Dgram d \<Rightarrow> (let (ok, d') = WriteDgram (res = None) fr d in (ok, Dgram d')))"

definition io_close :: "frameIO \<Rightarrow> frameIO" where
  "io_close x = (case x of Stream s \<Rightarrow> Stream (CloseStream s) | Dgram d \<Rightarrow> Dgram (CloseDgram d))"

definition io_closed :: "frameIO \<Rightarrow> bool" where
  "io_closed x = (case x of Stream s \<Rightarrow> sio_closed s | Dgram d \<Rightarrow> dio_closed d)"

section \<open>The wire format\<close>

text \<open>The wire form of a frame, and the frames a stream reader can carry.\<close>

definition encode_frame :: "frame \<Rightarrow> byte list" where
  "encode_frame fr = put_be32 (word_of_nat (length fr)) @ fr"

definition frame_fits :: "frame \<Rightarrow> bool" where
  "frame_fits fr \<longleftrightarrow> 0 < length fr \<and> length fr \<le> maxFrameSize"

lemma stream_buf_encode: "stream_buf fr = encode_frame fr"
proof -
  have "(replicate (4 + length fr) 0 :: byte list) = replicate 4 0 @ replicate (length fr) 0"
    by (simp flip: replicate_add)
  then show ?thesis by (simp add: stream_buf_def Let_def blit_fields encode_frame_def)
qed

lemma ReadFull_concat:
  assumes "\<not> sio_closed s" "[] \<notin> set (sio_in s)" "concat (sio_in s) = b @ rest"
  shows "\<exists>cs. ReadFull (length b) s = Some (b, s\<lparr>sio_in := cs\<rparr>) \<and> concat cs = rest \<and> [] \<notin> set cs"
  using read_rest_concat [OF assms(2), of "length b" "length b" "[]"] assms
  by (auto simp: ReadFull_def)

lemma unat_frame_length:
  assumes "length fr \<le> maxFrameSize"
  shows "unat (word_of_nat (length fr) :: u32) = length fr"
  using assms by (simp add: unat_of_nat maxFrameSize_def)

lemma ReadFrame_encoded:
  assumes "\<not> sio_closed s" "[] \<notin> set (sio_in s)" "concat (sio_in s) = encode_frame fr @ rest" "frame_fits fr"
  shows "\<exists>cs. ReadFrame s = Inr (fr, s\<lparr>sio_in := cs\<rparr>) \<and> concat cs = rest \<and> [] \<notin> set cs"
proof -
  let ?n = "word_of_nat (length fr) :: u32"
  have n: "unat ?n = length fr" using assms(4) by (intro unat_frame_length) (simp add: frame_fits_def)
  moreover have "unat (word_of_nat maxFrameSize :: u32) = maxFrameSize"
    by (simp add: maxFrameSize_def unat_of_nat)
  ultimately have ok: "?n \<noteq> 0" "\<not> ?n > word_of_nat maxFrameSize"
    using assms(4) by (auto simp: frame_fits_def word_less_nat_alt unat_eq_0 simp flip: unat_eq_zero)
  from ReadFull_concat [OF assms(1,2), of "put_be32 ?n" "fr @ rest"] assms(3) obtain cs where
    h: "ReadFull 4 s = Some (put_be32 ?n, s\<lparr>sio_in := cs\<rparr>)" and cs: "concat cs = fr @ rest" "[] \<notin> set cs"
    by (auto simp: encode_frame_def)
  from ReadFull_concat [of "s\<lparr>sio_in := cs\<rparr>" fr rest] cs assms(1) n obtain cs' where
    "ReadFull (unat ?n) (s\<lparr>sio_in := cs\<rparr>) = Some (fr, s\<lparr>sio_in := cs'\<rparr>)" "concat cs' = rest" "[] \<notin> set cs'"
    by auto
  then show ?thesis using ok by (auto simp: ReadFrame_def h Let_def)
qed

section \<open>Round trip\<close>

text \<open>Writing and reading several frames, one call after the other.\<close>

fun write_frames :: "frame list \<Rightarrow> streamIO \<Rightarrow> bool \<times> streamIO" where
  "write_frames [] s = (True, s)"
| "write_frames (fr # frs) s = (let (ok, s') = WriteFrame None fr s in if ok then write_frames frs s' else (False, s'))"

fun read_frames :: "nat \<Rightarrow> streamIO \<Rightarrow> frame list \<times> streamIO" where
  "read_frames 0 s = ([], s)"
| "read_frames (Suc n) s = (case ReadFrame s of
     Inl e \<Rightarrow> ([], s)
   | Inr (fr, s') \<Rightarrow> (let (frs, s'') = read_frames n s' in (fr # frs, s'')))"

lemma write_frames_out:
  "\<not> sio_closed s \<Longrightarrow> write_frames frs s = (True, s\<lparr>sio_out := sio_out s @ concat (map encode_frame frs)\<rparr>)"
  by (induction frs arbitrary: s) (auto simp: WriteFrame_def conn_write_def stream_buf_encode)

lemma read_frames_encoded:
  assumes "\<not> sio_closed s" "[] \<notin> set (sio_in s)" "concat (sio_in s) = concat (map encode_frame frs) @ rest"
    "list_all frame_fits frs"
  shows "\<exists>cs. read_frames (length frs) s = (frs, s\<lparr>sio_in := cs\<rparr>) \<and> concat cs = rest"
  using assms
proof (induction frs arbitrary: s)
  case Nil
  then show ?case by (intro exI [of _ "sio_in s"]) simp
next
  case (Cons fr frs)
  from ReadFrame_encoded [of s fr "concat (map encode_frame frs) @ rest"] Cons.prems obtain cs where
    r: "ReadFrame s = Inr (fr, s\<lparr>sio_in := cs\<rparr>)" "concat cs = concat (map encode_frame frs) @ rest" "[] \<notin> set cs"
    by auto
  from Cons.IH [of "s\<lparr>sio_in := cs\<rparr>"] r Cons.prems show ?case by auto
qed

end
