(* ===== verification/Pump.thy ===== *)
theory Pump
  imports Framing Switch
begin

text \<open>
  The pump of a port (\<^verbatim>\<open>internal/ports/pump.go\<close>): a reader that delivers what the transport receives to
  the switch, a writer that drains the send queue, and stopping. The two goroutines and the
  callers of \<^verbatim>\<open>send\<close> and \<^verbatim>\<open>stop\<close> interleave; every step below is one iteration or call. The peer
  of a stream port reads the frames the port accepted, in order.
\<close>

section \<open>Definitions\<close>

definition txQueueLen :: nat where "txQueueLen = 512"

text \<open>
  \<open>pm_rx\<close> and \<open>pm_tx\<close> tell whether the reader and the writer run, \<open>pm_exits\<close> how often \<^verbatim>\<open>onExit\<close> was
  started.
\<close>

record pump =
  pm_ref :: PortRef
  pm_io :: frameIO
  pm_txq :: "frame list"
  pm_done :: bool
  pm_exits :: nat
  pm_rx :: bool
  pm_tx :: bool

definition newPump :: "PortRef \<Rightarrow> frameIO \<Rightarrow> pump" where
  "newPump ref x = \<lparr>pm_ref = ref, pm_io = x, pm_txq = [], pm_done = False, pm_exits = 0, pm_rx = False, pm_tx = False\<rparr>"

definition pump_start :: "pump \<Rightarrow> pump" where
  "pump_start p = p\<lparr>pm_rx := True, pm_tx := True\<rparr>"

text \<open>\<^verbatim>\<open>once\<close> has fired exactly if \<^verbatim>\<open>done\<close> is closed.\<close>

definition pump_stop :: "pump \<Rightarrow> pump" where
  "pump_stop p = (if pm_done p then p
     else p\<lparr>pm_done := True, pm_io := io_close (pm_io p), pm_exits := pm_exits p + 1\<rparr>)"

definition pump_stopped :: "pump \<Rightarrow> bool" where
  "pump_stopped p = pm_done p"

definition rxLoop :: "clock \<Rightarrow> (eref \<Rightarrow> bool) \<Rightarrow> pump \<times> switch \<Rightarrow> pump \<times> switch" where
  "rxLoop clk accept ps = (case ps of (p, s) \<Rightarrow>
     if \<not> pm_rx p then (p, s)
     else case io_read (pm_io p) of
       Inl e \<Rightarrow> ((pump_stop p)\<lparr>pm_rx := False\<rparr>, s)
     | Inr (fr, x) \<Rightarrow>
         (let (ref, s') = RefDeliver clk accept fr (pm_ref p, s) in (p\<lparr>pm_io := x, pm_ref := ref\<rparr>, s')))"

text \<open>
  The writer selects between the queue and \<^verbatim>\<open>done\<close>; when both are ready either may be taken. A write
  has the result \<^verbatim>\<open>res\<close>.
\<close>

datatype tx_choice = TakeFrame "nat option" | SeeDone

definition txLoop :: "tx_choice \<Rightarrow> pump \<Rightarrow> pump" where
  "txLoop choice p =
    (if \<not> pm_tx p then p
     else case choice of
       SeeDone \<Rightarrow> if pm_done p then p\<lparr>pm_tx := False\<rparr> else p
     | TakeFrame res \<Rightarrow>
         (case pm_txq p of
            [] \<Rightarrow> p
          | fr # q \<Rightarrow>
              (let (ok, x) = io_write res fr (pm_io p); p1 = p\<lparr>pm_txq := q, pm_io := x\<rparr>
               in if ok then p1 else (pump_stop p1)\<lparr>pm_tx := False\<rparr>)))"

definition pump_send :: "frame \<Rightarrow> pump \<Rightarrow> bool \<times> pump" where
  "pump_send fr p =
    (if pm_done p then (False, p)
     else if length (pm_txq p) < txQueueLen then (True, p\<lparr>pm_txq := pm_txq p @ [fr]\<rparr>)
     else (False, p))"

section \<open>Runs\<close>

datatype pump_op = PumpStart | PumpRx clock "eref \<Rightarrow> bool" | PumpTx tx_choice | PumpSend frame | PumpStop

text \<open>The last component collects the frames \<^verbatim>\<open>send\<close> accepted.\<close>

type_synonym pump_run = "pump \<times> switch \<times> frame list"

fun exec_pump :: "pump_op \<Rightarrow> pump_run \<Rightarrow> pump_run" where
  "exec_pump PumpStart (p, s, acc) = (pump_start p, s, acc)"
| "exec_pump (PumpRx clk accept) (p, s, acc) = (let (p', s') = rxLoop clk accept (p, s) in (p', s', acc))"
| "exec_pump (PumpTx choice) (p, s, acc) = (txLoop choice p, s, acc)"
| "exec_pump (PumpSend fr) (p, s, acc) = (let (ok, p') = pump_send fr p in (p', s, if ok then acc @ [fr] else acc))"
| "exec_pump PumpStop (p, s, acc) = (pump_stop p, s, acc)"

text \<open>
  The bytes written are whole accepted frames, then possibly a part of the next one; while the pump runs
  there is no such part and the queue holds the remaining frames.
\<close>

definition written :: "frame list \<Rightarrow> nat \<Rightarrow> byte list" where
  "written acc k = concat (map encode_frame (take k acc))"

definition stream_state :: "frame list \<Rightarrow> pump \<Rightarrow> streamIO \<Rightarrow> bool" where
  "stream_state acc p s \<longleftrightarrow> (\<exists>k part. k \<le> length acc \<and> sio_out s = written acc k @ part
     \<and> (\<not> pm_done p \<longrightarrow> part = [] \<and> pm_txq p = drop k acc))"

definition pump_inv :: "pump_run \<Rightarrow> bool" where
  "pump_inv r \<longleftrightarrow> (case r of (p, s, acc) \<Rightarrow>
     length (pm_txq p) \<le> txQueueLen \<and> io_closed (pm_io p) = pm_done p \<and> pm_exits p = (if pm_done p then 1 else 0)
     \<and> (\<exists>st. pm_io p = Stream st \<and> stream_state acc p st))"

lemma written_more: "k \<le> length acc \<Longrightarrow> written (acc @ xs) k = written acc k"
  by (simp add: written_def)

lemma written_Suc: "k < length acc \<Longrightarrow> written acc (Suc k) = written acc k @ encode_frame (acc ! k)"
  by (simp add: written_def take_Suc_conv_app_nth)

lemma pump_invE:
  assumes "pump_inv (p, s, acc)"
  obtains st k part where "pm_io p = Stream st" "k \<le> length acc" "sio_out st = written acc k @ part"
    "\<not> pm_done p \<longrightarrow> part = [] \<and> pm_txq p = drop k acc" "length (pm_txq p) \<le> txQueueLen"
    "sio_closed st = pm_done p" "pm_exits p = (if pm_done p then 1 else 0)"
  using assms unfolding pump_inv_def stream_state_def io_closed_def by fastforce

lemma pump_invI:
  assumes "pm_io p = Stream st" "k \<le> length acc" "sio_out st = written acc k @ part"
    "\<not> pm_done p \<longrightarrow> part = [] \<and> pm_txq p = drop k acc" "length (pm_txq p) \<le> txQueueLen"
    "sio_closed st = pm_done p" "pm_exits p = (if pm_done p then 1 else 0)"
  shows "pump_inv (p, s, acc)"
  using assms unfolding pump_inv_def stream_state_def io_closed_def by fastforce

lemma stop_inv: "pump_inv (p, s, acc) \<Longrightarrow> pump_inv (pump_stop p, s, acc)"
proof (erule pump_invE)
  fix st k part
  assume *: "pm_io p = Stream st" "k \<le> length acc" "sio_out st = written acc k @ part"
    "\<not> pm_done p \<longrightarrow> part = [] \<and> pm_txq p = drop k acc" "length (pm_txq p) \<le> txQueueLen"
    "sio_closed st = pm_done p" "pm_exits p = (if pm_done p then 1 else 0)"
  then show ?thesis
    by (intro pump_invI [where st = "CloseStream st" and k = k and part = part] pump_invI [where st = st and k = k and part = part])
      (auto simp: pump_stop_def io_close_def CloseStream_def)
qed

lemma flags_inv: "pump_inv (p\<lparr>pm_rx := a\<rparr>, s, acc) = pump_inv (p, s, acc)" "pump_inv (p\<lparr>pm_tx := b\<rparr>, s, acc) = pump_inv (p, s, acc)"
  by (simp_all add: pump_inv_def stream_state_def)

lemma switch_inv: "pump_inv (p, s, acc) \<Longrightarrow> pump_inv (p, s', acc)"
  by (simp add: pump_inv_def)

lemma read_keeps_out:
  "ReadFrame s = Inr (fr, s') \<Longrightarrow> sio_out s' = sio_out s \<and> sio_closed s' = sio_closed s"
  by (auto simp: ReadFrame_def ReadFull_def Let_def split: option.splits if_splits)

lemma rx_inv: "pump_inv (p, s, acc) \<Longrightarrow> pump_inv (fst (rxLoop clk accept (p, s)), snd (rxLoop clk accept (p, s)), acc)"
proof -
  assume inv: "pump_inv (p, s, acc)"
  then obtain st where st: "pm_io p = Stream st" by (auto simp: pump_inv_def)
  show ?thesis
  proof (cases "ReadFrame st")
    case (Inl e)
    then show ?thesis using inv stop_inv [OF inv] by (simp add: rxLoop_def st io_read_def flags_inv)
  next
    case (Inr r)
    then show ?thesis using inv read_keeps_out [of st "fst r" "snd r"]
      by (cases r) (auto simp: rxLoop_def st io_read_def pump_inv_def io_closed_def stream_state_def split: prod.split)
  qed
qed

lemma take_frame_inv:
  assumes inv: "pump_inv (p, s, acc)" and q: "pm_txq p = fr # q"
  shows "pump_inv (txLoop (TakeFrame res) p, s, acc)"
proof -
  obtain st k part where st: "pm_io p = Stream st" and k: "k \<le> length acc" "sio_out st = written acc k @ part"
    and live: "\<not> pm_done p \<longrightarrow> part = [] \<and> pm_txq p = drop k acc"
    and rest: "length (pm_txq p) \<le> txQueueLen" "sio_closed st = pm_done p" "pm_exits p = (if pm_done p then 1 else 0)"
    using inv by (rule pump_invE)
  show ?thesis
  proof (cases "pm_done p")
    case True
    then show ?thesis using inv q rest st
      by (auto simp: txLoop_def io_write_def WriteFrame_def conn_write_def pump_stop_def pump_inv_def stream_state_def io_closed_def)
  next
    case False
    then have d: "part = []" "drop k acc = fr # q" using live q by simp_all
    then have kl: "k < length acc" "acc ! k = fr" "drop (Suc k) acc = q"
      by (metis drop_all list.distinct(1) not_le, metis nth_via_drop, metis drop_Suc list.sel(3) tl_drop)
    have next_k: "sio_out st @ encode_frame fr = written acc (Suc k)" using k(2) d(1) kl(1,2) by (simp add: written_Suc)
    show ?thesis
    proof (cases "pm_tx p")
      case True
      note step = True False rest st q txLoop_def io_write_def WriteFrame_def conn_write_def stream_buf_encode
      show ?thesis
      proof (cases res)
        case None
        show ?thesis
          by (rule pump_invI [where st = "st\<lparr>sio_out := written acc (Suc k)\<rparr>" and k = "Suc k" and part = "[]"])
            (use None step kl next_k in simp_all)
      next
        case (Some n)
        show ?thesis
          by (rule pump_invI [where st = "CloseStream (st\<lparr>sio_out := sio_out st @ take n (encode_frame fr)\<rparr>)"
                and k = k and part = "take n (encode_frame fr)"])
            (use Some step k d in \<open>simp_all add: pump_stop_def io_close_def CloseStream_def\<close>)
      qed
    qed (use inv in \<open>simp add: txLoop_def\<close>)
  qed
qed

lemma tx_inv: "pump_inv (p, s, acc) \<Longrightarrow> pump_inv (txLoop choice p, s, acc)"
proof (cases choice)
  case (TakeFrame res)
  assume "pump_inv (p, s, acc)"
  then show ?thesis using TakeFrame take_frame_inv by (cases "pm_txq p") (auto simp: txLoop_def)
qed (simp add: txLoop_def flags_inv)

lemma send_inv:
  assumes inv: "pump_inv (p, s, acc)"
  shows "pump_inv (snd (pump_send fr p), s, if fst (pump_send fr p) then acc @ [fr] else acc)"
proof (cases "pm_done p \<or> \<not> length (pm_txq p) < txQueueLen")
  case False
  from inv show ?thesis
  proof (rule pump_invE)
    fix st k part
    assume "pm_io p = Stream st" "k \<le> length acc" "sio_out st = written acc k @ part"
      "\<not> pm_done p \<longrightarrow> part = [] \<and> pm_txq p = drop k acc"
      "sio_closed st = pm_done p" "pm_exits p = (if pm_done p then 1 else 0)"
    then show ?thesis using False
      by (auto simp: pump_send_def written_more intro: pump_invI [where st = st and k = k and part = part])
  qed
qed (use inv in \<open>auto simp: pump_send_def\<close>)

lemma exec_pump_inv: "pump_inv r \<Longrightarrow> pump_inv (exec_pump op r)"
proof -
  assume inv: "pump_inv r"
  obtain p s acc where r: "r = (p, s, acc)" by (cases r)
  note i = inv [unfolded r]
  show ?thesis
  proof (cases op)
    case (PumpRx clk accept)
    then show ?thesis using rx_inv [OF i, of clk accept] by (simp add: r case_prod_beta)
  next
    case (PumpSend fr)
    then show ?thesis using send_inv [OF i, of fr] by (simp add: r case_prod_beta)
  qed (use i tx_inv stop_inv in \<open>simp_all add: r pump_start_def flags_inv\<close>)
qed

interpretation pumps: invariant_system exec_pump pump_inv
  by unfold_locales (rule exec_pump_inv)

section \<open>Property\<close>



end
