(* ===== verification/StreamServer.thy ===== *)
theory StreamServer
  imports Pump SwitchInv NetText "HOL-Library.Char_ord"
begin

text \<open>
  The listening port on a stream transport (\<^verbatim>\<open>streamServer\<close> of \<^verbatim>\<open>internal/ports/server.go\<close>): adopting one
  connection at a time, replacing or refusing others, or one switchport per connection.

  Its methods release the lock between their parts, so each part is a step of its own: the accept
  loop is at a program point, and callbacks and stops that were started and have not run are tasks. Pumps
  are indices into a store, as pointers in the source. The shared state is read and written
  in the critical sections only.
\<close>

section \<open>State\<close>

definition ModeReplace :: string where "ModeReplace = ''replace''"
definition ModeOccupy :: string where "ModeOccupy = ''occupy''"
definition ModeMultiplex :: string where "ModeMultiplex = ''multiplex''"

lemmas mode_defs = ModeReplace_def ModeOccupy_def ModeMultiplex_def

text \<open>A remote address as \<^verbatim>\<open>net.Addr\<close> shows it; a vsock address has two numbers.\<close>

datatype net_addr = VsockAddr u32 u32 | OtherAddr string string

record net_conn =
  nc_remote :: "net_addr option"
  nc_data :: conn

definition is_space :: "char \<Rightarrow> bool" where
  "is_space c \<longleftrightarrow> of_char c \<in> {9, 10, 11, 12, 13, 32 :: nat}"

definition TrimSpace :: "string \<Rightarrow> string" where
  "TrimSpace s = rev (dropWhile is_space (rev (dropWhile is_space s)))"

definition peerString :: "net_conn \<Rightarrow> string" where
  "peerString c = (case nc_remote c of
       None \<Rightarrow> []
     | Some (VsockAddr cid port) \<Rightarrow> decimal (unat cid) @ '':'' @ decimal (unat port)
     | Some (OtherAddr network s) \<Rightarrow>
         if network = ''unix'' then
           (let t = TrimSpace s in if t = [] \<or> t = ''@'' then [] else t)
         else s)"

record subPort =
  sub_id :: string
  sub_pump :: nat

record streamServer =
  ss_id :: string
  ss_mode :: string
  ss_ln :: bool
  ss_attrs :: PortAttrs
  ss_pump :: "nat option"
  ss_peer :: string
  ss_subs :: "(string, subPort) gomap"
  ss_anonIDs :: "(nat, bool) gomap"
  ss_closed :: bool

text \<open>The exit callback of a pump: of the adopted connection, or of a subport with its anonymous number.\<close>

datatype exit_fun = ExitAdopted | ExitSub string "nat option"

text \<open>Where the accept loop is: waiting; about to stop the pump it takes over from; about to take the lock
  again; about to register a subport.\<close>

datatype accept_pc = Accepting | Kicking nat net_conn | Adopting net_conn | Registering string nat "nat option" PortAttrs

datatype task = RunExit nat | NotifyTask | RemoveTask string | StopTask nat | UpdateTask string PortAttrs

record server_world =
  w_srv :: streamServer
  w_sw :: switch
  w_pumps :: "(pump \<times> exit_fun) list"
  w_objs :: "(eref, nat) gomap"
  w_pc :: accept_pc
  w_tasks :: "task list"
  w_refused :: "streamIO list"

definition newStreamServer :: "string \<Rightarrow> string \<Rightarrow> PortAttrs \<Rightarrow> streamServer" where
  "newStreamServer i mode a = \<lparr>ss_id = i, ss_mode = mode, ss_ln = True, ss_attrs = a, ss_pump = None, ss_peer = [],
     ss_subs = [], ss_anonIDs = [], ss_closed = False\<rparr>"

section \<open>Pumps in the store\<close>

definition set_pump :: "nat \<Rightarrow> (pump \<Rightarrow> pump) \<Rightarrow> server_world \<Rightarrow> server_world" where
  "set_pump i f w = (if i < length (w_pumps w)
     then w\<lparr>w_pumps := (w_pumps w)[i := (f (fst (w_pumps w ! i)), snd (w_pumps w ! i))]\<rparr> else w)"

definition add_task :: "task \<Rightarrow> server_world \<Rightarrow> server_world" where
  "add_task t w = w\<lparr>w_tasks := w_tasks w @ [t]\<rparr>"

text \<open>Stopping a pump starts its exit callback, the first time.\<close>

definition stop_at :: "nat \<Rightarrow> server_world \<Rightarrow> server_world" where
  "stop_at i w = (if i < length (w_pumps w) \<and> \<not> pm_done (fst (w_pumps w ! i))
     then add_task (RunExit i) (set_pump i pump_stop w) else w)"

definition refuse :: "net_conn \<Rightarrow> server_world \<Rightarrow> server_world" where
  "refuse c w = w\<lparr>w_refused := w_refused w @ [CloseStream (newStreamIO (nc_data c))]\<rparr>"

section \<open>Accepting\<close>

definition install :: "net_conn \<Rightarrow> server_world \<Rightarrow> server_world" where
  "install c w =
    (let i = length (w_pumps w);
         p = pump_start (newPump (Ref (ss_id (w_srv w))) (Stream (newStreamIO (nc_data c))))
     in w\<lparr>w_pumps := w_pumps w @ [(p, ExitAdopted)], w_pc := Accepting,
          w_srv := (w_srv w)\<lparr>ss_pump := Some i, ss_peer := peerString c\<rparr>\<rparr>)"

text \<open>\<^verbatim>\<open>adopt\<close> up to the point where it releases the lock, and from where it takes it again.\<close>

definition adopt :: "net_conn \<Rightarrow> bool \<Rightarrow> server_world \<Rightarrow> server_world" where
  "adopt c kickOld w =
    (let s = w_srv w in
     if ss_closed s then refuse c w
     else case ss_pump s of
       Some old \<Rightarrow>
         if \<not> kickOld then refuse c w
         else w\<lparr>w_srv := s\<lparr>ss_pump := None\<rparr>, w_pc := Kicking old c\<rparr>
     | None \<Rightarrow> install c w)"

definition adopt_relock :: "net_conn \<Rightarrow> server_world \<Rightarrow> server_world" where
  "adopt_relock c w =
    (if ss_closed (w_srv w) \<or> ss_pump (w_srv w) \<noteq> None then refuse c (w\<lparr>w_pc := Accepting\<rparr>)
     else install c w)"

text \<open>
  The first number that is not in use. The loop looks at one number after the other; it ends
  within the length of the table, so that is fuel enough.
\<close>

fun anon_search :: "nat \<Rightarrow> nat \<Rightarrow> (nat, bool) gomap \<Rightarrow> nat" where
  "anon_search 0 i m = i"
| "anon_search (Suc n) i m = (if mget m i = Some True then anon_search n (Suc i) m else i)"

definition allocAnonLocked :: "streamServer \<Rightarrow> nat \<times> streamServer" where
  "allocAnonLocked s =
    (let i = anon_search (length (ss_anonIDs s)) 0 (ss_anonIDs s)
     in (i, s\<lparr>ss_anonIDs := mput i True (ss_anonIDs s)\<rparr>))"

definition free_anon :: "nat option \<Rightarrow> streamServer \<Rightarrow> streamServer" where
  "free_anon a s = (case a of None \<Rightarrow> s | Some n \<Rightarrow> s\<lparr>ss_anonIDs := mdel n (ss_anonIDs s)\<rparr>)"

text \<open>\<^verbatim>\<open>addSub\<close> up to the point where it releases the lock, and its second half with \<^verbatim>\<open>AddPort\<close>.\<close>

definition sub_name :: "net_conn \<Rightarrow> streamServer \<Rightarrow> string \<times> nat option \<times> streamServer" where
  "sub_name c s =
    (if peerString c = [] then
       (let (n, s') = allocAnonLocked s in (ss_id s @ ''@'' @ ''anonymous-'' @ decimal n, Some n, s'))
     else (ss_id s @ ''@'' @ peerString c, None, s))"

definition addSub :: "net_conn \<Rightarrow> server_world \<Rightarrow> server_world" where
  "addSub c w =
    (if ss_closed (w_srv w) then refuse c w
     else (let (subID, anon, s) = sub_name c (w_srv w) in
       if mget (ss_subs s) subID \<noteq> None then refuse c (w\<lparr>w_srv := free_anon anon s\<rparr>)
       else (let i = length (w_pumps w);
                 p = newPump (Ref subID) (Stream (newStreamIO (nc_data c)));
                 sub = \<lparr>sub_id = subID, sub_pump = i\<rparr>
             in w\<lparr>w_pumps := w_pumps w @ [(p, ExitSub subID anon)],
                  w_srv := s\<lparr>ss_subs := mput subID sub (ss_subs s)\<rparr>,
                  w_pc := Registering subID i anon (ss_attrs s)\<rparr>)))"

definition drop_sub :: "string \<Rightarrow> nat option \<Rightarrow> streamServer \<Rightarrow> streamServer" where
  "drop_sub subID anon s = free_anon anon (s\<lparr>ss_subs := mdel subID (ss_subs s)\<rparr>)"

definition register_sub :: "string \<Rightarrow> nat \<Rightarrow> nat option \<Rightarrow> PortAttrs \<Rightarrow> server_world \<Rightarrow> server_world" where
  "register_sub subID i anon a w =
    (case AddPort subID a (w_sw w) of
       Inl e \<Rightarrow>
         set_pump i (\<lambda>p. p\<lparr>pm_io := io_close (pm_io p)\<rparr>)
           (w\<lparr>w_srv := drop_sub subID anon (w_srv w), w_pc := Accepting\<rparr>)
     | Inr sw' \<Rightarrow>
         set_pump i pump_start
           (w\<lparr>w_sw := sw', w_objs := mput (length (store (w_sw w))) i (w_objs w), w_pc := Accepting\<rparr>))"

definition acceptLoop :: "net_conn \<Rightarrow> server_world \<Rightarrow> server_world" where
  "acceptLoop c w =
    (if w_pc w \<noteq> Accepting then w
     else if ss_mode (w_srv w) = ModeReplace then adopt c True w
     else if ss_mode (w_srv w) = ModeOccupy then adopt c False w
     else if ss_mode (w_srv w) = ModeMultiplex then addSub c w
     else w)"

text \<open>The next part of the method the accept loop is in.\<close>

definition accept_continue :: "server_world \<Rightarrow> server_world" where
  "accept_continue w = (case w_pc w of
       Accepting \<Rightarrow> w
     | Kicking old c \<Rightarrow> (stop_at old w)\<lparr>w_pc := Adopting c\<rparr>
     | Adopting c \<Rightarrow> adopt_relock c w
     | Registering subID i anon a \<Rightarrow> register_sub subID i anon a w)"

section \<open>Tasks\<close>

text \<open>The critical section of an exit callback; what follows it is a task.\<close>

definition run_exit :: "nat \<Rightarrow> server_world \<Rightarrow> server_world" where
  "run_exit i w = (case snd (w_pumps w ! i) of
       ExitAdopted \<Rightarrow>
         (let s = w_srv w in
          case ss_pump s of
            Some j \<Rightarrow> if j < length (w_pumps w) \<and> pump_stopped (fst (w_pumps w ! j))
                then add_task NotifyTask (w\<lparr>w_srv := s\<lparr>ss_pump := None, ss_peer := []\<rparr>\<rparr>) else w
          | None \<Rightarrow> w)
     | ExitSub subID anon \<Rightarrow> add_task (RemoveTask subID) (w\<lparr>w_srv := drop_sub subID anon (w_srv w)\<rparr>))"

text \<open>Removing a subport from the switch closes it, which stops its pump.\<close>

definition remove_sub :: "string \<Rightarrow> server_world \<Rightarrow> server_world" where
  "remove_sub subID w =
    (let w1 = w\<lparr>w_sw := RemovePort subID (w_sw w)\<rparr> in
     case Option.bind (mget (ports (w_sw w)) subID) (mget (w_objs w)) of
       None \<Rightarrow> w1
     | Some i \<Rightarrow> stop_at i w1)"

fun run_task :: "task \<Rightarrow> server_world \<Rightarrow> server_world" where
  "run_task (RunExit i) w = run_exit i w"
| "run_task NotifyTask w = w\<lparr>w_sw := NotifyDown (ss_id (w_srv w)) (w_sw w)\<rparr>"
| "run_task (RemoveTask subID) w = remove_sub subID w"
| "run_task (StopTask i) w = stop_at i w"
| "run_task (UpdateTask subID a) w = w\<lparr>w_sw := or_same (w_sw w) (UpdatePortAttrs subID a (w_sw w))\<rparr>"

section \<open>The port interface\<close>

definition ServerSend :: "frame \<Rightarrow> server_world \<Rightarrow> bool \<times> server_world" where
  "ServerSend fr w = (case ss_pump (w_srv w) of
       None \<Rightarrow> (False, w)
     | Some i \<Rightarrow> (fst (pump_send fr (fst (w_pumps w ! i))), set_pump i (\<lambda>p. snd (pump_send fr p)) w))"

definition SubSend :: "subPort \<Rightarrow> frame \<Rightarrow> server_world \<Rightarrow> bool \<times> server_world" where
  "SubSend sub fr w = (fst (pump_send fr (fst (w_pumps w ! sub_pump sub))),
     set_pump (sub_pump sub) (\<lambda>p. snd (pump_send fr p)) w)"

definition ServerClose :: "server_world \<Rightarrow> server_world" where
  "ServerClose w =
    (let s = w_srv w in
     if ss_closed s then w
     else w\<lparr>w_srv := s\<lparr>ss_closed := True, ss_pump := None, ss_ln := False\<rparr>,
            w_tasks := w_tasks w @ map StopTask ((case ss_pump s of None \<Rightarrow> [] | Some i \<Rightarrow> [i]) @ map (sub_pump \<circ> snd) (ss_subs s))\<rparr>)"

record Status =
  Online :: bool
  Peer :: string
  Connections :: "string list"

definition ServerStatus :: "streamServer \<Rightarrow> Status" where
  "ServerStatus s =
    (if ss_mode s = ModeMultiplex
     then \<lparr>Online = (ss_subs s \<noteq> []), Peer = ss_peer s, Connections = sort (map fst (ss_subs s))\<rparr>
     else \<lparr>Online = (ss_pump s \<noteq> None), Peer = ss_peer s, Connections = []\<rparr>)"

definition UpdateSubAttrs :: "PortAttrs \<Rightarrow> server_world \<Rightarrow> server_world" where
  "UpdateSubAttrs a w = w\<lparr>w_srv := (w_srv w)\<lparr>ss_attrs := a\<rparr>,
     w_tasks := w_tasks w @ map (\<lambda>i. UpdateTask i a) (map fst (ss_subs (w_srv w)))\<rparr>"

section \<open>Runs\<close>

text \<open>One iteration of the reader or the writer of a pump; if it stops the pump, the exit callback starts.\<close>

definition put_back :: "nat \<Rightarrow> pump \<Rightarrow> server_world \<Rightarrow> server_world" where
  "put_back i p w =
    (let w1 = set_pump i (\<lambda>_. p) w
     in if \<not> pm_done (fst (w_pumps w ! i)) \<and> pm_done p then add_task (RunExit i) w1 else w1)"

definition server_rx :: "nat \<Rightarrow> clock \<Rightarrow> (eref \<Rightarrow> bool) \<Rightarrow> server_world \<Rightarrow> server_world" where
  "server_rx i clk accept w =
    (if i < length (w_pumps w)
     then (let (p, sw') = rxLoop clk accept (fst (w_pumps w ! i), w_sw w) in put_back i p (w\<lparr>w_sw := sw'\<rparr>))
     else w)"

definition server_tx :: "nat \<Rightarrow> tx_choice \<Rightarrow> server_world \<Rightarrow> server_world" where
  "server_tx i choice w =
    (if i < length (w_pumps w) then put_back i (txLoop choice (fst (w_pumps w ! i))) w else w)"

text \<open>\<open>SEnv\<close> is what others do to the switch meanwhile.\<close>

datatype server_op = SAccept net_conn | SContinue | STask nat | SRx nat clock "eref \<Rightarrow> bool" | STx nat tx_choice
  | SSend frame | SSubSend string frame | SClose | SUpdate PortAttrs | SEnv sw_op

definition drop_task :: "nat \<Rightarrow> server_world \<Rightarrow> server_world" where
  "drop_task k w = w\<lparr>w_tasks := take k (w_tasks w) @ drop (Suc k) (w_tasks w)\<rparr>"

fun exec_server :: "server_op \<Rightarrow> server_world \<Rightarrow> server_world" where
  "exec_server (SAccept c) w = acceptLoop c w"
| "exec_server SContinue w = accept_continue w"
| "exec_server (STask k) w = (if k < length (w_tasks w)
     then run_task (w_tasks w ! k) (drop_task k w) else w)"
| "exec_server (SRx i clk accept) w = server_rx i clk accept w"
| "exec_server (STx i choice) w = server_tx i choice w"
| "exec_server (SSend fr) w = snd (ServerSend fr w)"
| "exec_server (SSubSend subID fr) w = (case mget (ss_subs (w_srv w)) subID of None \<Rightarrow> w | Some sub \<Rightarrow> snd (SubSend sub fr w))"
| "exec_server SClose w = ServerClose w"
| "exec_server (SUpdate a) w = UpdateSubAttrs a w"
| "exec_server (SEnv op) w = w\<lparr>w_sw := exec_sw op (w_sw w)\<rparr>"

definition new_world :: "streamServer \<Rightarrow> switch \<Rightarrow> server_world" where
  "new_world s sw = \<lparr>w_srv = s, w_sw = sw, w_pumps = [], w_objs = [], w_pc = Accepting, w_tasks = [], w_refused = []\<rparr>"

section \<open>Connections are accounted for\<close>

definition pump_at :: "server_world \<Rightarrow> nat \<Rightarrow> pump" where
  "pump_at w i = fst (w_pumps w ! i)"

definition exit_at :: "server_world \<Rightarrow> nat \<Rightarrow> exit_fun" where
  "exit_at w i = snd (w_pumps w ! i)"

text \<open>The connection of a pump is open.\<close>

definition live :: "server_world \<Rightarrow> nat \<Rightarrow> bool" where
  "live w i \<longleftrightarrow> i < length (w_pumps w) \<and> \<not> io_closed (pm_io (pump_at w i))"

definition in_subs :: "server_world \<Rightarrow> string \<Rightarrow> nat \<Rightarrow> bool" where
  "in_subs w k i \<longleftrightarrow> (\<exists>sub. mget (ss_subs (w_srv w)) k = Some sub \<and> sub_pump sub = i)"

definition kicking :: "server_world \<Rightarrow> nat \<Rightarrow> bool" where
  "kicking w i \<longleftrightarrow> (\<exists>c. w_pc w = Kicking i c)"

text \<open>A pump whose registration failed: it never started and nothing will stop it.\<close>

definition dead :: "server_world \<Rightarrow> nat \<Rightarrow> bool" where
  "dead w i \<longleftrightarrow> io_closed (pm_io (pump_at w i)) \<and> \<not> pm_rx (pump_at w i) \<and> \<not> pm_tx (pump_at w i)
     \<and> \<not> pm_done (pump_at w i) \<and> i \<notin> snd ` set (w_objs w) \<and> (\<forall>k a b. w_pc w \<noteq> Registering k i a b)"

definition exits :: "server_world \<Rightarrow> nat list" where
  "exits w = List.map_filter (\<lambda>t. case t of RunExit i \<Rightarrow> Some i | _ \<Rightarrow> None) (w_tasks w)"

definition refs_ok :: "server_world \<Rightarrow> bool" where
  "refs_ok w \<longleftrightarrow> (\<forall>i. ss_pump (w_srv w) = Some i \<longrightarrow> i < length (w_pumps w) \<and> exit_at w i = ExitAdopted)
     \<and> (\<forall>i. kicking w i \<longrightarrow> i < length (w_pumps w) \<and> exit_at w i = ExitAdopted)
     \<and> (\<forall>k i a b. w_pc w = Registering k i a b \<longrightarrow> i < length (w_pumps w) \<and> exit_at w i = ExitSub k a
         \<and> \<not> pm_rx (pump_at w i) \<and> \<not> pm_tx (pump_at w i) \<and> i \<notin> snd ` set (w_objs w))
     \<and> (\<forall>i \<in> snd ` set (w_objs w). i < length (w_pumps w) \<and> (\<exists>k a. exit_at w i = ExitSub k a))"

definition exits_ok :: "server_world \<Rightarrow> bool" where
  "exits_ok w \<longleftrightarrow> distinct (exits w) \<and> (\<forall>i \<in> set (exits w). i < length (w_pumps w) \<and> pm_done (pump_at w i))
     \<and> (\<forall>i < length (w_pumps w). pm_done (pump_at w i) \<longrightarrow> io_closed (pm_io (pump_at w i)))"

text \<open>While the server is open every pump that has not run its exit callback is the current one, one about
  to be replaced, that of its subport, or dead.\<close>

definition open_ok :: "server_world \<Rightarrow> bool" where
  "open_ok w \<longleftrightarrow> (\<forall>i. StopTask i \<notin> set (w_tasks w))
     \<and> (\<forall>i. live w i \<and> exit_at w i = ExitAdopted \<longrightarrow> ss_pump (w_srv w) = Some i \<or> kicking w i)
     \<and> (\<forall>i k a. i < length (w_pumps w) \<and> exit_at w i = ExitSub k a \<and> (\<not> pm_done (pump_at w i) \<or> i \<in> set (exits w))
          \<longrightarrow> in_subs w k i \<or> dead w i)
     \<and> (\<forall>k i a b. w_pc w = Registering k i a b \<longrightarrow> \<not> pm_done (pump_at w i))"

definition closed_ok :: "server_world \<Rightarrow> bool" where
  "closed_ok w \<longleftrightarrow> ss_pump (w_srv w) = None \<and> (\<forall>i. live w i \<longrightarrow> StopTask i \<in> set (w_tasks w) \<or> kicking w i)"

definition conn_inv :: "server_world \<Rightarrow> bool" where
  "conn_inv w \<longleftrightarrow> refs_ok w \<and> exits_ok w \<and> (if ss_closed (w_srv w) then closed_ok w else open_ok w)
     \<and> list_all sio_closed (w_refused w)"

end
