(* ===== verification/StreamServerInv.thy ===== *)
theory StreamServerInv
  imports StreamServer
begin

text \<open>
  Connections of a listening port: whatever is accepted, replaced, stopped and closed, in any
  interleaving, every open connection is accounted for, and a closed server ends with none. Two
  interleavings of a multiplexing server leave the switch in a state nobody intended.
\<close>

section \<open>The store of pumps\<close>

lemma set_pump_sel [simp]:
  "w_srv (set_pump i f w) = w_srv w" "w_sw (set_pump i f w) = w_sw w" "w_objs (set_pump i f w) = w_objs w"
  "w_pc (set_pump i f w) = w_pc w" "w_tasks (set_pump i f w) = w_tasks w" "w_refused (set_pump i f w) = w_refused w"
  "length (w_pumps (set_pump i f w)) = length (w_pumps w)"
  by (simp_all add: set_pump_def)

lemma exit_at_set [simp]: "exit_at (set_pump i f w) j = exit_at w j"
  by (cases "i < length (w_pumps w)"; cases "j = i") (simp_all add: exit_at_def set_pump_def)

lemma pump_at_set:
  "i < length (w_pumps w) \<Longrightarrow> pump_at (set_pump i f w) j = (if j = i then f (pump_at w i) else pump_at w j)"
  by (simp add: pump_at_def set_pump_def)

lemma add_task_sel [simp]:
  "w_srv (add_task t w) = w_srv w" "w_sw (add_task t w) = w_sw w" "w_objs (add_task t w) = w_objs w"
  "w_pc (add_task t w) = w_pc w" "w_pumps (add_task t w) = w_pumps w" "w_refused (add_task t w) = w_refused w"
  "w_tasks (add_task t w) = w_tasks w @ [t]" "pump_at (add_task t w) = pump_at w" "exit_at (add_task t w) = exit_at w"
  by (simp_all add: add_task_def pump_at_def exit_at_def fun_eq_iff)

lemma exits_add [simp]:
  "exits (add_task (RunExit i) w) = exits w @ [i]" "exits (add_task NotifyTask w) = exits w"
  "exits (add_task (RemoveTask k) w) = exits w"
  by (simp_all add: exits_def map_filter_def add_task_def)

lemma exits_mem: "i \<in> set (exits w) \<longleftrightarrow> RunExit i \<in> set (w_tasks w)"
  by (force simp: exits_def map_filter_def split: task.splits)

lemmas parts = refs_ok_def exits_ok_def open_ok_def closed_ok_def
lemmas views = live_def dead_def in_subs_def kicking_def

section \<open>Changes that keep connections where they are\<close>

text \<open>A change of a pump that neither stops it nor starts its goroutines.\<close>

definition calm :: "pump \<Rightarrow> pump \<Rightarrow> bool" where
  "calm p p' \<longleftrightarrow> pm_done p' = pm_done p \<and> (io_closed (pm_io p) \<longrightarrow> io_closed (pm_io p'))
     \<and> (pm_rx p' \<longrightarrow> pm_rx p) \<and> (pm_tx p' \<longrightarrow> pm_tx p)"

lemma calm_refl [simp]: "calm p p"
  by (simp add: calm_def)

lemma conn_inv_calm:
  assumes inv: "conn_inv w" and c: "calm (pump_at w i) (f (pump_at w i))"
  shows "conn_inv (set_pump i f w)"
proof (cases "i < length (w_pumps w)")
  case True
  let ?w = "set_pump i f w"
  have at: "calm (pump_at w j) (pump_at ?w j)" for j using c True by (simp add: pump_at_set)
  then have flags: "pm_done (pump_at ?w j) = pm_done (pump_at w j)"
    "io_closed (pm_io (pump_at w j)) \<Longrightarrow> io_closed (pm_io (pump_at ?w j))"
    "pm_rx (pump_at ?w j) \<Longrightarrow> pm_rx (pump_at w j)" "pm_tx (pump_at ?w j) \<Longrightarrow> pm_tx (pump_at w j)" for j
    by (simp_all add: calm_def)
  have same: "exits ?w = exits w" "kicking ?w j = kicking w j" "in_subs ?w k j = in_subs w k j" for j k
    by (simp_all add: exits_def views)
  have mono: "live ?w j \<Longrightarrow> live w j" "dead w j \<Longrightarrow> dead ?w j" for j
    using flags [of j] by (auto simp: live_def dead_def)
  have "refs_ok ?w" "exits_ok ?w" using inv flags by (auto simp: conn_inv_def refs_ok_def exits_ok_def same)
  moreover have "open_ok w \<Longrightarrow> open_ok ?w"
    unfolding open_ok_def same exit_at_set set_pump_sel flags using mono by blast
  moreover have "closed_ok w \<Longrightarrow> closed_ok ?w" unfolding closed_ok_def same set_pump_sel using mono by blast
  ultimately show ?thesis using inv by (auto simp: conn_inv_def)
qed (use inv in \<open>simp add: set_pump_def\<close>)

text \<open>The switch is not looked at; a new task that neither stops a pump nor runs a callback changes nothing.\<close>

lemma conn_inv_sw [simp]: "conn_inv (w\<lparr>w_sw := s\<rparr>) = conn_inv w"
  by (simp add: conn_inv_def parts views exits_def pump_at_def exit_at_def)

definition inert :: "task \<Rightarrow> bool" where
  "inert t \<longleftrightarrow> (\<forall>i. t \<noteq> RunExit i \<and> t \<noteq> StopTask i)"

lemma conn_inv_inert:
  assumes "conn_inv w" "list_all inert ts"
  shows "conn_inv (w\<lparr>w_tasks := w_tasks w @ ts\<rparr>)"
proof -
  have no: "RunExit i \<notin> set ts" "StopTask i \<notin> set ts" for i using assms(2) by (auto simp: list_all_iff inert_def)
  have "List.map_filter (\<lambda>t. case t of RunExit i \<Rightarrow> Some i | _ \<Rightarrow> None) ts = []"
    using assms(2) by (induction ts) (auto simp: map_filter_def inert_def split: task.splits)
  then have ex: "exits (w\<lparr>w_tasks := w_tasks w @ ts\<rparr>) = exits w" by (simp add: exits_def map_filter_def)
  show ?thesis
    using assms(1) no by (cases "ss_closed (w_srv w)") (simp_all add: conn_inv_def parts views ex pump_at_def exit_at_def)
qed

lemma conn_inv_refuse: "conn_inv w \<Longrightarrow> conn_inv (refuse c w)"
  by (cases "ss_closed (w_srv w)")
    (simp_all add: conn_inv_def parts views exits_def pump_at_def exit_at_def refuse_def CloseStream_def)

section \<open>Stopping\<close>

lemma stop_at_sel [simp]:
  "w_srv (stop_at i w) = w_srv w" "w_sw (stop_at i w) = w_sw w" "w_objs (stop_at i w) = w_objs w"
  "w_pc (stop_at i w) = w_pc w" "w_refused (stop_at i w) = w_refused w" "length (w_pumps (stop_at i w)) = length (w_pumps w)"
  "exit_at (stop_at i w) j = exit_at w j" "StopTask j \<in> set (w_tasks (stop_at i w)) \<longleftrightarrow> StopTask j \<in> set (w_tasks w)"
  by (auto simp: stop_at_def)

lemma pump_stop_sel [simp]:
  "pm_done (pump_stop p)" "pm_rx (pump_stop p) = pm_rx p" "pm_tx (pump_stop p) = pm_tx p"
  by (simp_all add: pump_stop_def)

lemma io_closed_close [simp]: "io_closed (io_close x)"
  by (cases x) (simp_all add: io_closed_def io_close_def CloseStream_def CloseDgram_def)

lemma stopped_closed: "conn_inv w \<Longrightarrow> i < length (w_pumps w) \<Longrightarrow> io_closed (pm_io (pump_at (stop_at i w) i))"
  by (cases "pm_done (pump_at w i)")
    (auto simp: conn_inv_def exits_ok_def stop_at_def pump_at_set pump_stop_def simp flip: pump_at_def)

lemma conn_inv_stop:
  assumes inv: "conn_inv w"
    and ok: "\<not> ss_closed (w_srv w) \<Longrightarrow> exit_at w i \<noteq> ExitAdopted \<Longrightarrow> \<not> dead w i \<and> (\<forall>k a b. w_pc w \<noteq> Registering k i a b)"
  shows "conn_inv (stop_at i w)"
proof (cases "i < length (w_pumps w) \<and> \<not> pm_done (pump_at w i)")
  case False
  then have "stop_at i w = w" by (auto simp: stop_at_def pump_at_def)
  then show ?thesis using inv by simp
next
  case True
  let ?s = "set_pump i pump_stop w" and ?w = "stop_at i w"
  have w: "?w = add_task (RunExit i) ?s" using True by (simp add: stop_at_def pump_at_def)
  have at: "pump_at ?w j = (if j = i then pump_stop (pump_at w i) else pump_at w j)" for j
    using True by (simp add: w pump_at_set)
  have ex: "exits ?w = exits w @ [i]" by (simp add: w) (simp add: exits_def)
  have same: "kicking ?w j = kicking w j" "in_subs ?w k j = in_subs w k j" for j k by (simp_all add: views)
  have io: "io_closed (pm_io (pump_stop (pump_at w i)))" using True by (simp add: pump_stop_def)
  have live: "live ?w j \<longleftrightarrow> live w j \<and> j \<noteq> i" for j using True io by (auto simp: live_def at)
  have dead: "j \<noteq> i \<Longrightarrow> dead w j \<Longrightarrow> dead ?w j" for j by (simp add: dead_def at)
  have fresh: "i \<notin> set (exits w)" using inv True by (auto simp: conn_inv_def exits_ok_def)
  have "refs_ok ?w" using inv by (auto simp: conn_inv_def refs_ok_def same at)
  moreover have "exits_ok ?w" using inv True io fresh by (auto simp: conn_inv_def exits_ok_def ex at)
  moreover have "closed_ok w \<Longrightarrow> closed_ok ?w" by (auto simp: closed_ok_def live same)
  moreover have "open_ok ?w" if "open_ok w" "\<not> ss_closed (w_srv w)"
    unfolding open_ok_def
  proof (intro conjI allI impI)
    show "StopTask j \<notin> set (w_tasks ?w)" for j using that(1) by (simp add: open_ok_def)
    show "ss_pump (w_srv ?w) = Some j \<or> kicking ?w j" if "live ?w j \<and> exit_at ?w j = ExitAdopted" for j
      using that \<open>open_ok w\<close> by (auto simp: open_ok_def live same)
    show "in_subs ?w k j \<or> dead ?w j"
      if "j < length (w_pumps ?w) \<and> exit_at ?w j = ExitSub k a \<and> (\<not> pm_done (pump_at ?w j) \<or> j \<in> set (exits ?w))" for j k a
    proof (cases "j = i")
      case ji: True
      have "in_subs w k i \<or> dead w i"
        using that True \<open>open_ok w\<close> unfolding open_ok_def ji stop_at_sel by blast
      then show ?thesis using that ok [OF \<open>\<not> ss_closed (w_srv w)\<close>] ji by (simp add: same)
    next
      case False
      then have "j < length (w_pumps w)" "exit_at w j = ExitSub k a" "\<not> pm_done (pump_at w j) \<or> j \<in> set (exits w)"
        using that by (auto simp: at ex)
      then have "in_subs w k j \<or> dead w j" using \<open>open_ok w\<close> unfolding open_ok_def by blast
      then show ?thesis using dead False by (auto simp: same)
    qed
    show "\<not> pm_done (pump_at ?w j)" if "w_pc ?w = Registering k j a b" for k j a b
    proof -
      have "exit_at w j = ExitSub k a" using that inv by (simp add: conn_inv_def refs_ok_def)
      then show ?thesis using that ok [OF \<open>\<not> ss_closed (w_srv w)\<close>] \<open>open_ok w\<close> by (auto simp: open_ok_def at)
    qed
  qed
  ultimately show ?thesis using inv by (auto simp: conn_inv_def)
qed

text \<open>Leaving a program point that holds no open connection.\<close>

lemma conn_inv_leave:
  assumes inv: "conn_inv w" and pc: "pc = Accepting \<or> (\<exists>c. pc = Adopting c)"
    and out: "\<And>i. kicking w i \<Longrightarrow> \<not> live w i" "\<And>k i a b. w_pc w \<noteq> Registering k i a b"
  shows "conn_inv (w\<lparr>w_pc := pc\<rparr>)"
proof -
  let ?w = "w\<lparr>w_pc := pc\<rparr>"
  have no: "\<not> kicking ?w i" "pc \<noteq> Registering k i a b" for i k a b using pc by (auto simp: kicking_def)
  have same: "pump_at ?w = pump_at w" "exit_at ?w = exit_at w" "exits ?w = exits w" "in_subs ?w = in_subs w" "live ?w = live w"
    by (simp_all add: fun_eq_iff pump_at_def exit_at_def exits_def live_def in_subs_def)
  have dead: "dead w i \<Longrightarrow> dead ?w i" for i using no by (simp add: dead_def same)
  have "refs_ok ?w" "exits_ok ?w" using inv no by (simp_all add: conn_inv_def refs_ok_def exits_ok_def same)
  moreover have "closed_ok ?w" if "closed_ok w"
    using that out(1) unfolding closed_ok_def same by (simp add: no) blast
  moreover have "open_ok ?w" if o: "open_ok w"
    unfolding open_ok_def same
  proof (intro conjI allI impI)
    show "StopTask i \<notin> set (w_tasks ?w)" for i using o by (simp add: open_ok_def)
    show "ss_pump (w_srv ?w) = Some i \<or> kicking ?w i" if "live w i \<and> exit_at w i = ExitAdopted" for i
      using that o out(1) [of i] unfolding open_ok_def by auto
    show "in_subs w k i \<or> dead ?w i"
      if "i < length (w_pumps ?w) \<and> exit_at w i = ExitSub k a \<and> (\<not> pm_done (pump_at w i) \<or> i \<in> set (exits w))" for i k a
    proof -
      have "in_subs w k i \<or> dead w i" using that o unfolding open_ok_def by simp
      then show ?thesis using dead by blast
    qed
    show "\<not> pm_done (pump_at w i)" if "w_pc ?w = Registering k i a b" for k i a b using that no by simp
  qed
  ultimately show ?thesis using inv by (auto simp: conn_inv_def)
qed

section \<open>Reading and writing\<close>

lemma read_calm:
  "io_read x = Inr (fr, x') \<Longrightarrow> io_closed x' = io_closed x"
  by (auto simp: io_read_def io_closed_def ReadDgram_def dest: read_keeps_out
      split: frameIO.splits sum.splits if_splits list.splits)

lemma write_calm: "io_closed (snd (io_write res fr x)) = io_closed x"
  by (auto simp: io_write_def io_closed_def WriteFrame_def conn_write_def WriteDgram_def
      split: frameIO.splits option.splits)

lemma rx_outcome:
  "rxLoop clk accept (p, s) = (p', s') \<Longrightarrow> calm p p' \<or> pm_rx p \<and> p' = (pump_stop p)\<lparr>pm_rx := False\<rparr>"
  by (auto simp: rxLoop_def calm_def dest: read_calm split: sum.splits if_splits prod.splits)

lemma tx_outcome:
  "calm p (txLoop choice p) \<or> pm_tx p \<and> (\<exists>q x. calm p (p\<lparr>pm_txq := q, pm_io := x\<rparr>) \<and>
     txLoop choice p = (pump_stop (p\<lparr>pm_txq := q, pm_io := x\<rparr>))\<lparr>pm_tx := False\<rparr>)"
proof (cases choice)
  case (TakeFrame res)
  show ?thesis
  proof (cases "pm_txq p")
    case (Cons fr q)
    obtain ok x where r: "io_write res fr (pm_io p) = (ok, x)" by (cases "io_write res fr (pm_io p)")
    then have "io_closed x = io_closed (pm_io p)" using write_calm [of res fr "pm_io p"] by simp
    then have "calm p (p\<lparr>pm_txq := q, pm_io := x\<rparr>)" by (simp add: calm_def)
    then show ?thesis using r Cons TakeFrame by (cases ok) (auto simp: txLoop_def Let_def)
  qed (simp add: txLoop_def TakeFrame)
qed (simp add: txLoop_def calm_def)

lemma send_calm: "calm p (snd (pump_send fr p))"
  by (simp add: pump_send_def calm_def)

lemma set_pump_twice: "set_pump i g (set_pump i f w) = set_pump i (\<lambda>p. g (f p)) w"
  by (simp add: set_pump_def)

lemma set_pump_task: "set_pump i f (add_task t w) = add_task t (set_pump i f w)"
  by (simp add: set_pump_def add_task_def)

text \<open>A pump that runs is not dead and not being registered.\<close>

lemma running_ok:
  assumes "conn_inv w" "pm_rx (pump_at w i) \<or> pm_tx (pump_at w i)"
  shows "\<not> dead w i \<and> (\<forall>k a b. w_pc w \<noteq> Registering k i a b)"
  using assms by (auto simp: conn_inv_def refs_ok_def dead_def)

text \<open>Putting back a pump that one of its goroutines changed, possibly stopping it.\<close>

lemma put_back_calm:
  assumes "conn_inv w" "calm (pump_at w i) p"
  shows "conn_inv (put_back i p w)"
proof -
  have "put_back i p w = set_pump i (\<lambda>_. p) w"
    using assms(2) by (auto simp: put_back_def calm_def Let_def pump_at_def)
  then show ?thesis using conn_inv_calm [OF assms(1), of i "\<lambda>_. p"] assms(2) by simp
qed

lemma put_back_stop:
  assumes inv: "conn_inv w" and i: "i < length (w_pumps w)"
    and run: "pm_rx (pump_at w i) \<or> pm_tx (pump_at w i)"
    and q: "calm (pump_at w i) q" "pm_rx q = pm_rx (pump_at w i)" "pm_tx q = pm_tx (pump_at w i)"
    and p: "p = f (pump_stop q)" "\<And>x. calm x (f x)"
  shows "conn_inv (put_back i p w)"
proof -
  let ?w1 = "set_pump i (\<lambda>_. q) w"
  have 1: "conn_inv ?w1" using conn_inv_calm [OF inv, of i "\<lambda>_. q"] q(1) by simp
  have 2: "conn_inv (stop_at i ?w1)"
    by (rule conn_inv_stop [OF 1]) (use running_ok [OF 1, of i] run q i in \<open>auto simp: pump_at_set\<close>)
  have 3: "conn_inv (set_pump i f (stop_at i ?w1))" by (rule conn_inv_calm [OF 2, of i f, OF p(2)])
  have q_done: "pm_done q = pm_done (pump_at w i)" using q(1) by (simp add: calm_def)
  have "pm_done p" using p(2) [of "pump_stop q"] by (simp add: p(1) calm_def)
  then have "put_back i p w = set_pump i f (stop_at i ?w1)"
    using i q_done by (auto simp: put_back_def Let_def stop_at_def pump_at_def [symmetric] pump_at_set set_pump_task
        set_pump_twice p(1) pump_stop_def)
  with 3 show ?thesis by simp
qed

lemma conn_inv_rx: "conn_inv w \<Longrightarrow> conn_inv (server_rx i clk accept w)"
proof -
  assume inv: "conn_inv w"
  show ?thesis
  proof (cases "i < length (w_pumps w)")
    case True
    obtain p sw' where r: "rxLoop clk accept (pump_at w i, w_sw w) = (p, sw')" by fastforce
    let ?w = "w\<lparr>w_sw := sw'\<rparr>"
    have w: "conn_inv ?w" "pump_at ?w i = pump_at w i" "i < length (w_pumps ?w)" using inv True by (simp_all add: pump_at_def)
    have "conn_inv (put_back i p ?w)"
      using rx_outcome [OF r]
    proof
      assume "calm (pump_at w i) p"
      then show ?thesis using put_back_calm [OF w(1)] w(2) by simp
    next
      assume *: "pm_rx (pump_at w i) \<and> p = (pump_stop (pump_at w i))\<lparr>pm_rx := False\<rparr>"
      show ?thesis
        by (rule put_back_stop [OF w(1,3), where q = "pump_at w i" and f = "\<lambda>x. x\<lparr>pm_rx := False\<rparr>"])
          (use * w(2) in \<open>simp_all add: calm_def\<close>)
    qed
    then show ?thesis using True r by (simp add: server_rx_def pump_at_def)
  qed (use inv in \<open>simp add: server_rx_def\<close>)
qed

lemma conn_inv_tx: "conn_inv w \<Longrightarrow> conn_inv (server_tx i choice w)"
proof -
  assume inv: "conn_inv w"
  show ?thesis
  proof (cases "i < length (w_pumps w)")
    case True
    have "conn_inv (put_back i (txLoop choice (pump_at w i)) w)"
      using tx_outcome [of "pump_at w i" choice]
    proof (elim disjE conjE exE)
      fix q x
      assume *: "pm_tx (pump_at w i)" "calm (pump_at w i) ((pump_at w i)\<lparr>pm_txq := q, pm_io := x\<rparr>)"
        "txLoop choice (pump_at w i) = (pump_stop ((pump_at w i)\<lparr>pm_txq := q, pm_io := x\<rparr>))\<lparr>pm_tx := False\<rparr>"
      show ?thesis
        by (rule put_back_stop [OF inv True, where q = "(pump_at w i)\<lparr>pm_txq := q, pm_io := x\<rparr>" and f = "\<lambda>x. x\<lparr>pm_tx := False\<rparr>"])
          (use * in \<open>simp_all add: calm_def\<close>)
    qed (rule put_back_calm [OF inv])
    then show ?thesis using True by (simp add: server_tx_def pump_at_def)
  qed (use inv in \<open>simp add: server_tx_def\<close>)
qed

section \<open>Accepting\<close>

lemma append_at:
  assumes "w_pumps w' = w_pumps w @ [(p, e)]" "j < Suc (length (w_pumps w))"
  shows "pump_at w' j = (if j < length (w_pumps w) then pump_at w j else p)"
    "exit_at w' j = (if j < length (w_pumps w) then exit_at w j else e)"
  using assms by (auto simp: pump_at_def exit_at_def nth_append less_Suc_eq)

lemma conn_inv_install:
  assumes inv: "conn_inv w" and pc: "w_pc w = Accepting" and s: "\<not> ss_closed (w_srv w)" "ss_pump (w_srv w) = None"
  shows "conn_inv (install c w)"
proof -
  let ?n = "length (w_pumps w)" and ?w = "install c w"
  let ?p = "pump_start (newPump (Ref (ss_id (w_srv w))) (Stream (newStreamIO (nc_data c))))"
  have at: "pump_at ?w j = (if j < ?n then pump_at w j else ?p)" "exit_at ?w j = (if j < ?n then exit_at w j else ExitAdopted)"
    if "j < Suc ?n" for j
    using append_at [of ?w w ?p ExitAdopted j] that by (simp_all add: install_def Let_def)
  have sel: "length (w_pumps ?w) = Suc ?n" "w_pc ?w = Accepting" "w_tasks ?w = w_tasks w" "w_objs ?w = w_objs w"
    "ss_pump (w_srv ?w) = Some ?n" "ss_subs (w_srv ?w) = ss_subs (w_srv w)" "w_refused ?w = w_refused w"
    "ss_closed (w_srv ?w) = ss_closed (w_srv w)" "exits ?w = exits w"
    by (simp_all add: install_def Let_def exits_def)
  have o: "open_ok w" "refs_ok w" "exits_ok w" "list_all sio_closed (w_refused w)"
    using inv s(1) by (simp_all add: conn_inv_def)
  have none: "\<not> kicking w j" "\<not> kicking ?w j" for j using pc sel by (simp_all add: kicking_def)
  have "refs_ok ?w" using o(2) none by (auto simp: refs_ok_def sel at)
  moreover have "exits_ok ?w" using o(3) by (auto simp: exits_ok_def sel at pump_start_def newPump_def)
  moreover have "open_ok ?w"
    unfolding open_ok_def sel
  proof (intro conjI allI impI)
    show "StopTask j \<notin> set (w_tasks w)" for j using o(1) by (simp add: open_ok_def)
    show "Some ?n = Some j \<or> kicking ?w j" if "live ?w j \<and> exit_at ?w j = ExitAdopted" for j
    proof (cases "j < ?n")
      case True
      then have "live w j \<and> exit_at w j = ExitAdopted" using that by (simp add: live_def at sel)
      then show ?thesis using o(1) s(2) none by (auto simp: open_ok_def)
    next
      case False
      then show ?thesis using that by (simp add: live_def sel)
    qed
    show "in_subs ?w k j \<or> dead ?w j"
      if *: "j < Suc ?n \<and> exit_at ?w j = ExitSub k a \<and> (\<not> pm_done (pump_at ?w j) \<or> j \<in> set (exits w))" for j k a
    proof -
      have "j < ?n" using * at(2) [of j] by (auto split: if_splits)
      then have "in_subs w k j \<or> dead w j" using * o(1) unfolding open_ok_def by (simp add: at)
      then show ?thesis using \<open>j < ?n\<close> by (auto simp: in_subs_def dead_def sel at pc)
    qed
  qed (use sel in simp)
  ultimately show ?thesis using o(4) s(1) by (simp add: conn_inv_def sel)
qed

lemma conn_inv_adopt:
  assumes inv: "conn_inv w" and pc: "w_pc w = Accepting"
  shows "conn_inv (adopt c kick w)"
proof (cases "ss_closed (w_srv w) \<or> (\<exists>i. ss_pump (w_srv w) = Some i) \<and> \<not> kick")
  case True
  then show ?thesis using conn_inv_refuse [OF inv] by (auto simp: adopt_def Let_def)
next
  case open': False
  show ?thesis
  proof (cases "ss_pump (w_srv w)")
    case None
    then show ?thesis using open' conn_inv_install [OF inv pc] by (simp add: adopt_def Let_def)
  next
    case (Some old)
    let ?w = "w\<lparr>w_srv := (w_srv w)\<lparr>ss_pump := None\<rparr>, w_pc := Kicking old c\<rparr>"
    have "conn_inv ?w"
      using inv open' Some pc
      by (simp add: conn_inv_def parts views exits_def pump_at_def exit_at_def)
    then show ?thesis using Some open' by (simp add: adopt_def Let_def)
  qed
qed

lemma conn_inv_relock:
  assumes inv: "conn_inv w" and pc: "w_pc w = Adopting c"
  shows "conn_inv (adopt_relock c w)"
proof -
  have a: "conn_inv (w\<lparr>w_pc := Accepting\<rparr>)"
    by (rule conn_inv_leave [OF inv]) (simp_all add: pc kicking_def)
  have "install c w = install c (w\<lparr>w_pc := Accepting\<rparr>)" by (simp add: install_def Let_def)
  then show ?thesis using conn_inv_refuse [OF a] conn_inv_install [OF a] by (simp add: adopt_relock_def)
qed

lemma conn_inv_kick:
  assumes inv: "conn_inv w" and pc: "w_pc w = Kicking old c"
  shows "conn_inv ((stop_at old w)\<lparr>w_pc := Adopting c\<rparr>)"
proof (rule conn_inv_leave)
  have old: "old < length (w_pumps w)" "exit_at w old = ExitAdopted" using inv pc by (auto simp: conn_inv_def refs_ok_def kicking_def)
  show s: "conn_inv (stop_at old w)" by (rule conn_inv_stop [OF inv]) (simp add: old)
  show "\<not> live (stop_at old w) i" if "kicking (stop_at old w) i" for i
    using that pc stopped_closed [OF inv old(1)] by (simp add: kicking_def live_def)
qed (simp_all add: pc)

lemma set_mput: "snd ` set (mput k v m) \<subseteq> insert v (snd ` set m)"
  by (induction m) (auto simp: mput_def split: if_splits)

text \<open>A change of the server that the accounting does not look at.\<close>

lemma conn_inv_srv:
  assumes "conn_inv w" "ss_pump s = ss_pump (w_srv w)" "ss_subs s = ss_subs (w_srv w)" "ss_closed s = ss_closed (w_srv w)"
  shows "conn_inv (w\<lparr>w_srv := s\<rparr>)"
  using assms by (cases "ss_closed (w_srv w)")
    (simp_all add: conn_inv_def parts views exits_def pump_at_def exit_at_def)

lemma free_anon_sel [simp]:
  "ss_pump (free_anon a s) = ss_pump s" "ss_subs (free_anon a s) = ss_subs s" "ss_closed (free_anon a s) = ss_closed s"
  by (simp_all add: free_anon_def split: option.split)

lemma drop_sub_sel [simp]:
  "ss_pump (drop_sub k a s) = ss_pump s" "ss_subs (drop_sub k a s) = mdel k (ss_subs s)" "ss_closed (drop_sub k a s) = ss_closed s"
  by (simp_all add: drop_sub_def)

lemma sub_name_sel:
  "sub_name c s = (k, a, s') \<Longrightarrow> ss_pump s' = ss_pump s \<and> ss_subs s' = ss_subs s \<and> ss_closed s' = ss_closed s"
  by (auto simp: sub_name_def allocAnonLocked_def Let_def split: if_splits)

definition append_sub :: "string \<Rightarrow> nat option \<Rightarrow> PortAttrs \<Rightarrow> pump \<Rightarrow> server_world \<Rightarrow> server_world" where
  "append_sub k a b p w = w\<lparr>w_pumps := w_pumps w @ [(p, ExitSub k a)],
     w_srv := (w_srv w)\<lparr>ss_subs := mput k \<lparr>sub_id = k, sub_pump = length (w_pumps w)\<rparr> (ss_subs (w_srv w))\<rparr>,
     w_pc := Registering k (length (w_pumps w)) a b\<rparr>"

lemma conn_inv_append:
  assumes inv: "conn_inv w" and pc: "w_pc w = Accepting" and s: "\<not> ss_closed (w_srv w)"
    and new: "mget (ss_subs (w_srv w)) k = None" and p: "\<not> pm_done p" "\<not> pm_rx p" "\<not> pm_tx p"
  shows "conn_inv (append_sub k a b p w)"
proof -
  let ?n = "length (w_pumps w)" and ?w = "append_sub k a b p w"
  have at: "pump_at ?w j = (if j < ?n then pump_at w j else p)" "exit_at ?w j = (if j < ?n then exit_at w j else ExitSub k a)"
    if "j < Suc ?n" for j
    using append_at [of ?w w p "ExitSub k a" j] that by (simp_all add: append_sub_def)
  have sel: "length (w_pumps ?w) = Suc ?n" "w_pc ?w = Registering k ?n a b" "w_tasks ?w = w_tasks w" "w_objs ?w = w_objs w"
    "ss_pump (w_srv ?w) = ss_pump (w_srv w)" "w_refused ?w = w_refused w"
    "ss_closed (w_srv ?w) = ss_closed (w_srv w)" "exits ?w = exits w"
    by (simp_all add: append_sub_def exits_def)
  have subs: "in_subs ?w k' j \<longleftrightarrow> (if k' = k then j = ?n else in_subs w k' j)" for k' j
    by (auto simp: in_subs_def append_sub_def mget_mput)
  have o: "open_ok w" "refs_ok w" "exits_ok w" "list_all sio_closed (w_refused w)"
    using inv s(1) by (simp_all add: conn_inv_def)
  have none: "\<not> kicking w j" "\<not> kicking ?w j" for j using pc sel by (simp_all add: kicking_def)
  have nk: "\<not> in_subs w k j" for j using new by (simp add: in_subs_def)
  have objs: "?n \<notin> snd ` set (w_objs w)" using o(2) by (auto simp: refs_ok_def)
  have "refs_ok ?w" using o(2) none objs p by (auto simp: refs_ok_def sel at)
  moreover have "exits_ok ?w" using o(3) p by (auto simp: exits_ok_def sel at)
  moreover have "open_ok ?w"
    unfolding open_ok_def sel
  proof (intro conjI allI impI)
    show "StopTask j \<notin> set (w_tasks w)" for j using o(1) by (simp add: open_ok_def)
    show "ss_pump (w_srv w) = Some j \<or> kicking ?w j" if "live ?w j \<and> exit_at ?w j = ExitAdopted" for j
    proof -
      have "j < ?n" using that by (auto simp: live_def sel at split: if_splits)
      then have "live w j \<and> exit_at w j = ExitAdopted" using that by (simp add: live_def at sel)
      then show ?thesis using o(1) none by (auto simp: open_ok_def)
    qed
    show "in_subs ?w k' j \<or> dead ?w j"
      if *: "j < Suc ?n \<and> exit_at ?w j = ExitSub k' a' \<and> (\<not> pm_done (pump_at ?w j) \<or> j \<in> set (exits w))" for j k' a'
    proof (cases "j < ?n")
      case True
      then have "in_subs w k' j \<or> dead w j" using * o(1) unfolding open_ok_def by (simp add: at)
      then show ?thesis using True nk by (auto simp: subs dead_def sel at)
    next
      case False
      then show ?thesis using * by (auto simp: subs at)
    qed
    show "\<not> pm_done (pump_at ?w i)" if "Registering k ?n a b = Registering k' i a' b'" for k' i a' b'
      using that p at(1) [of ?n] by auto
  qed
  ultimately show ?thesis using o(4) s(1) by (simp add: conn_inv_def sel)
qed

lemma conn_inv_addSub:
  assumes inv: "conn_inv w" and pc: "w_pc w = Accepting"
  shows "conn_inv (addSub c w)"
proof (cases "ss_closed (w_srv w)")
  case False
  obtain k a s where n: "sub_name c (w_srv w) = (k, a, s)" by (metis prod_cases3)
  note sel = sub_name_sel [OF n]
  have ws: "conn_inv (w\<lparr>w_srv := s\<rparr>)" "conn_inv (w\<lparr>w_srv := free_anon a s\<rparr>)"
    using sel by (auto intro: conn_inv_srv [OF inv])
  show ?thesis
  proof (cases "mget (ss_subs s) k")
    case None
    let ?p = "newPump (Ref k) (Stream (newStreamIO (nc_data c)))"
    have "addSub c w = append_sub k a (ss_attrs s) ?p (w\<lparr>w_srv := s\<rparr>)"
      using False None by (simp add: addSub_def n append_sub_def Let_def)
    then show ?thesis
      using conn_inv_append [OF ws(1), of k ?p a "ss_attrs s"] pc False sel None by (simp add: newPump_def)
  next
    case (Some sub)
    then show ?thesis using False conn_inv_refuse [OF ws(2)] by (simp add: addSub_def n)
  qed
qed (use conn_inv_refuse [OF inv] in \<open>simp add: addSub_def\<close>)

lemma objs_step: "i \<in> snd ` set (mput r n m) \<Longrightarrow> i = n \<or> i \<in> snd ` set m"
  using set_mput [of r n m] by auto

lemma conn_inv_register_ok:
  assumes inv: "conn_inv w" and pc: "w_pc w = Registering k i a b"
  shows "conn_inv (set_pump i pump_start (w\<lparr>w_sw := sw', w_objs := mput r i (w_objs w), w_pc := Accepting\<rparr>))"
proof -
  let ?v = "w\<lparr>w_sw := sw', w_objs := mput r i (w_objs w), w_pc := Accepting\<rparr>"
  let ?w = "set_pump i pump_start ?v"
  have i: "i < length (w_pumps w)" "exit_at w i = ExitSub k a" using inv pc by (simp_all add: conn_inv_def refs_ok_def)
  have atv: "pump_at ?v = pump_at w" "exit_at ?v = exit_at w" by (simp_all add: fun_eq_iff pump_at_def exit_at_def)
  have at: "pump_at ?w j = (if j = i then pump_start (pump_at w i) else pump_at w j)" for j
    using i by (subst pump_at_set) (simp_all add: atv)
  have start: "pm_done (pump_start x) = pm_done x" "pm_io (pump_start x) = pm_io x" for x by (simp_all add: pump_start_def)
  have ex: "exit_at ?w = exit_at w" "exits ?w = exits w" by (simp_all add: fun_eq_iff atv exits_def)
  have none: "\<not> kicking w j" "\<not> kicking ?w j" for j using pc by (simp_all add: kicking_def)
  have dn: "pm_done (pump_at ?w j) = pm_done (pump_at w j)" "pm_io (pump_at ?w j) = pm_io (pump_at w j)" for j
    by (simp_all add: at start)
  have live: "live ?w j = live w j" "in_subs ?w k' j = in_subs w k' j" for j k' by (simp_all add: live_def in_subs_def dn)
  have dead: "dead ?w j" if "dead w j" for j
    using that pc objs_step [of j r i "w_objs w"] by (auto simp: dead_def at)
  have nd: "\<not> dead w i" using pc by (simp add: dead_def)
  have "refs_ok ?w"
    using inv i none objs_step [of _ r i "w_objs w"] by (fastforce simp: conn_inv_def refs_ok_def ex)
  moreover have "exits_ok ?w" using inv by (simp add: conn_inv_def exits_ok_def ex dn)
  moreover have "closed_ok ?w" if "closed_ok w" using that by (simp add: closed_ok_def live none)
  moreover have "open_ok ?w" if "open_ok w"
    using that dead none unfolding open_ok_def live ex dn by simp blast
  ultimately show ?thesis using inv by (auto simp: conn_inv_def)
qed

lemma conn_inv_register_fail:
  assumes inv: "conn_inv w" and pc: "w_pc w = Registering k i a b"
  shows "conn_inv (set_pump i (\<lambda>p. p\<lparr>pm_io := io_close (pm_io p)\<rparr>) (w\<lparr>w_srv := drop_sub k a (w_srv w), w_pc := Accepting\<rparr>))"
proof -
  let ?v = "w\<lparr>w_srv := drop_sub k a (w_srv w), w_pc := Accepting\<rparr>"
  let ?w = "set_pump i (\<lambda>p. p\<lparr>pm_io := io_close (pm_io p)\<rparr>) ?v"
  have i: "i < length (w_pumps w)" "exit_at w i = ExitSub k a" "\<not> pm_rx (pump_at w i)" "\<not> pm_tx (pump_at w i)"
    "i \<notin> snd ` set (w_objs w)" using inv pc by (simp_all add: conn_inv_def refs_ok_def)
  have atv: "pump_at ?v = pump_at w" "exit_at ?v = exit_at w" by (simp_all add: fun_eq_iff pump_at_def exit_at_def)
  have at: "pump_at ?w j = (if j = i then (pump_at w i)\<lparr>pm_io := io_close (pm_io (pump_at w i))\<rparr> else pump_at w j)" for j
    using i by (subst pump_at_set) (simp_all add: atv)
  have ex: "exit_at ?w = exit_at w" "exits ?w = exits w" by (simp_all add: fun_eq_iff atv exits_def)
  have none: "\<not> kicking w j" "\<not> kicking ?w j" for j using pc by (simp_all add: kicking_def)
  have flags: "pm_done (pump_at ?w j) = pm_done (pump_at w j)" "pm_rx (pump_at ?w j) = pm_rx (pump_at w j)"
    "pm_tx (pump_at ?w j) = pm_tx (pump_at w j)" "io_closed (pm_io (pump_at w j)) \<Longrightarrow> io_closed (pm_io (pump_at ?w j))" for j
    by (simp_all add: at)
  have live: "live ?w j \<Longrightarrow> live w j" for j using flags(4) [of j] by (auto simp: live_def)
  have dead: "dead ?w j" if "dead w j" for j using that flags [of j] by (simp add: dead_def)
  have "refs_ok ?w" using inv none by (simp add: conn_inv_def refs_ok_def ex flags)
  moreover have "exits_ok ?w" using inv flags by (simp add: conn_inv_def exits_ok_def ex)
  moreover have "closed_ok ?w" if "closed_ok w" using that live none by (auto simp: closed_ok_def)
  moreover have "open_ok ?w" if o: "open_ok w"
    unfolding open_ok_def ex
  proof (intro conjI allI impI)
    have nd: "\<not> pm_done (pump_at w i)" using o pc by (simp add: open_ok_def)
    have k: "in_subs w k i" using o i nd pc unfolding open_ok_def dead_def by blast
    have di: "dead ?w i" using i nd by (simp add: dead_def at)
    show "StopTask j \<notin> set (w_tasks ?w)" for j using o by (simp add: open_ok_def)
    show "ss_pump (w_srv ?w) = Some j \<or> kicking ?w j" if "live ?w j \<and> exit_at w j = ExitAdopted" for j
      using that o live none by (auto simp: open_ok_def)
    show "in_subs ?w k' j \<or> dead ?w j"
      if *: "j < length (w_pumps ?w) \<and> exit_at w j = ExitSub k' a' \<and> (\<not> pm_done (pump_at ?w j) \<or> j \<in> set (exits w))" for j k' a'
    proof (cases "j = i")
      case False
      have "in_subs w k' j \<or> dead w j" using * o unfolding open_ok_def by (simp add: flags)
      moreover have "in_subs w k' j \<Longrightarrow> k' \<noteq> k" using k False by (auto simp: in_subs_def)
      ultimately show ?thesis using dead by (auto simp: in_subs_def mget_mdel)
    qed (use di in simp)
  qed simp
  ultimately show ?thesis using inv by (auto simp: conn_inv_def)
qed

lemma conn_inv_continue: "conn_inv w \<Longrightarrow> conn_inv (accept_continue w)"
  using conn_inv_kick [of w] conn_inv_relock [of w] conn_inv_register_ok [of w] conn_inv_register_fail [of w]
  by (simp add: accept_continue_def register_sub_def split: accept_pc.split sum.split)

lemma conn_inv_accept: "conn_inv w \<Longrightarrow> conn_inv (acceptLoop c w)"
  using conn_inv_adopt conn_inv_addSub by (simp add: acceptLoop_def)

section \<open>Tasks\<close>

lemma drop_task_sel [simp]:
  "w_srv (drop_task k w) = w_srv w" "w_sw (drop_task k w) = w_sw w" "w_objs (drop_task k w) = w_objs w"
  "w_pc (drop_task k w) = w_pc w" "w_pumps (drop_task k w) = w_pumps w" "w_refused (drop_task k w) = w_refused w"
  "pump_at (drop_task k w) = pump_at w" "exit_at (drop_task k w) = exit_at w" "live (drop_task k w) = live w"
  "dead (drop_task k w) = dead w" "in_subs (drop_task k w) = in_subs w" "kicking (drop_task k w) = kicking w"
  by (simp_all add: drop_task_def pump_at_def exit_at_def fun_eq_iff views)

lemma drop_task_mem:
  "k < length (w_tasks w) \<Longrightarrow> t \<in> set (w_tasks w) \<longleftrightarrow> t = w_tasks w ! k \<or> t \<in> set (w_tasks (drop_task k w))"
  by (subst id_take_nth_drop [of k "w_tasks w"]) (auto simp: drop_task_def)

lemma exits_append: "exits (w\<lparr>w_tasks := xs @ ys\<rparr>) = exits (w\<lparr>w_tasks := xs\<rparr>) @ exits (w\<lparr>w_tasks := ys\<rparr>)"
  by (simp add: exits_def map_filter_def)

lemma exits_split:
  assumes "k < length (w_tasks w)"
  shows "exits w = exits (w\<lparr>w_tasks := take k (w_tasks w)\<rparr>)
    @ (case w_tasks w ! k of RunExit i \<Rightarrow> [i] | _ \<Rightarrow> []) @ exits (w\<lparr>w_tasks := drop (Suc k) (w_tasks w)\<rparr>)"
proof -
  have "exits w = exits (w\<lparr>w_tasks := take k (w_tasks w) @ w_tasks w ! k # drop (Suc k) (w_tasks w)\<rparr>)"
    using id_take_nth_drop [OF assms] by simp
  then show ?thesis by (simp add: exits_def map_filter_def split: task.split)
qed

lemma exits_drop: "exits (drop_task k w) = exits (w\<lparr>w_tasks := take k (w_tasks w)\<rparr>) @ exits (w\<lparr>w_tasks := drop (Suc k) (w_tasks w)\<rparr>)"
  by (simp add: drop_task_def exits_append)

lemma exits_drop_other:
  "k < length (w_tasks w) \<Longrightarrow> \<forall>i. w_tasks w ! k \<noteq> RunExit i \<Longrightarrow> exits (drop_task k w) = exits w"
  by (simp add: exits_split exits_drop split: task.split)

lemma exits_drop_exit:
  assumes "k < length (w_tasks w)" "w_tasks w ! k = RunExit i" "distinct (exits w)"
  shows "distinct (exits (drop_task k w))" "set (exits w) = insert i (set (exits (drop_task k w)))" "i \<notin> set (exits (drop_task k w))"
  using assms by (auto simp: exits_split [OF assms(1)] exits_drop)

lemma conn_inv_drop_plain:
  assumes inv: "conn_inv w" and k: "k < length (w_tasks w)" "\<forall>i. w_tasks w ! k \<noteq> RunExit i"
    and stop: "\<And>i. w_tasks w ! k = StopTask i \<Longrightarrow> \<not> live w i"
  shows "conn_inv (drop_task k w)"
proof -
  note ex = exits_drop_other [OF k]
  have "refs_ok (drop_task k w)" "exits_ok (drop_task k w)" using inv by (simp_all add: conn_inv_def refs_ok_def exits_ok_def ex)
  moreover have "open_ok w \<Longrightarrow> open_ok (drop_task k w)" using drop_task_mem [OF k(1)] by (simp add: open_ok_def ex)
  moreover have "closed_ok w \<Longrightarrow> closed_ok (drop_task k w)"
    using stop drop_task_mem [OF k(1)] unfolding closed_ok_def by (simp) metis
  ultimately show ?thesis using inv by (auto simp: conn_inv_def)
qed

lemma conn_inv_run_stop:
  assumes inv: "conn_inv w" and k: "k < length (w_tasks w)" "w_tasks w ! k = StopTask i"
  shows "conn_inv (stop_at i (drop_task k w))"
proof -
  have closed: "ss_closed (w_srv w)"
  proof (rule ccontr)
    assume "\<not> ?thesis"
    then have "StopTask i \<notin> set (w_tasks w)" using inv by (simp add: conn_inv_def open_ok_def)
    then show False using k nth_mem [OF k(1)] by simp
  qed
  have s: "conn_inv (stop_at i w)" by (rule conn_inv_stop [OF inv]) (simp add: closed)
  have "stop_at i (drop_task k w) = drop_task k (stop_at i w)"
    using k(1) by (auto simp: stop_at_def drop_task_def add_task_def set_pump_def)
  moreover have "conn_inv (drop_task k (stop_at i w))"
  proof (rule conn_inv_drop_plain [OF s])
    have t: "k < length (w_tasks (stop_at i w))" "w_tasks (stop_at i w) ! k = StopTask i"
      using k by (auto simp: stop_at_def nth_append)
    then show "k < length (w_tasks (stop_at i w))" "\<forall>j. w_tasks (stop_at i w) ! k \<noteq> RunExit j" by simp_all
    show "\<not> live (stop_at i w) j" if "w_tasks (stop_at i w) ! k = StopTask j" for j
      using that t stopped_closed [OF inv, of i] by (auto simp: live_def)
  qed
  ultimately show ?thesis by simp
qed

lemma conn_inv_exit_adopted:
  assumes inv: "conn_inv w" and k: "k < length (w_tasks w)" "w_tasks w ! k = RunExit i" and e: "exit_at w i = ExitAdopted"
  shows "conn_inv (drop_task k w)"
proof -
  let ?w = "drop_task k w"
  have d: "distinct (exits w)" using inv by (simp add: conn_inv_def exits_ok_def)
  note ex = exits_drop_exit [OF k d]
  have stop: "StopTask j \<in> set (w_tasks ?w) \<longleftrightarrow> StopTask j \<in> set (w_tasks w)" for j using drop_task_mem [OF k(1)] k(2) by auto
  have "refs_ok ?w" "exits_ok ?w" using inv ex by (auto simp: conn_inv_def refs_ok_def exits_ok_def)
  moreover have "open_ok ?w" if "open_ok w" using that ex(2) unfolding open_ok_def drop_task_sel stop by blast
  moreover have "closed_ok ?w" if "closed_ok w" using that by (simp add: closed_ok_def stop)
  ultimately show ?thesis using inv by (auto simp: conn_inv_def)
qed

lemma conn_inv_exit_sub:
  assumes inv: "conn_inv w" and k: "k < length (w_tasks w)" "w_tasks w ! k = RunExit i" and e: "exit_at w i = ExitSub n a"
  shows "conn_inv ((drop_task k w)\<lparr>w_srv := drop_sub n a (w_srv w)\<rparr>)"
proof -
  let ?v = "drop_task k w" let ?w = "?v\<lparr>w_srv := drop_sub n a (w_srv w)\<rparr>"
  have d: "distinct (exits w)" using inv by (simp add: conn_inv_def exits_ok_def)
  note ex = exits_drop_exit [OF k d]
  have stop: "StopTask j \<in> set (w_tasks ?v) \<longleftrightarrow> StopTask j \<in> set (w_tasks w)" for j using drop_task_mem [OF k(1)] k(2) by auto
  have same: "pump_at ?w = pump_at w" "exit_at ?w = exit_at w" "exits ?w = exits ?v" "live ?w = live w" "dead ?w = dead w"
    "kicking ?w = kicking w"
    by (simp_all add: fun_eq_iff pump_at_def exit_at_def exits_def views drop_task_def)
  have subs: "in_subs ?w m j \<longleftrightarrow> m \<noteq> n \<and> in_subs w m j" for m j by (auto simp: in_subs_def mget_mdel)
  have i: "i < length (w_pumps w)" "pm_done (pump_at w i)" "i \<in> set (exits w)"
    using inv k ex(2) by (auto simp: conn_inv_def exits_ok_def)
  have "refs_ok ?w" "exits_ok ?w" using inv ex by (auto simp: conn_inv_def refs_ok_def exits_ok_def same)
  moreover have "closed_ok ?w" if "closed_ok w" using that by (simp add: closed_ok_def stop same)
  moreover have "open_ok ?w" if o: "open_ok w"
  proof -
    have n: "in_subs w n i" using o i e unfolding open_ok_def dead_def by blast
    have "m \<noteq> n \<and> in_subs w m j \<or> dead w j"
      if "j < length (w_pumps w)" "exit_at w j = ExitSub m b" "\<not> pm_done (pump_at w j) \<or> j \<in> set (exits ?v)" for j m b
    proof -
      have "j \<noteq> i" using that(3) i(2) ex(3) by auto
      have "in_subs w m j \<or> dead w j" using that ex(2) o unfolding open_ok_def by blast
      then show ?thesis using n \<open>j \<noteq> i\<close> by (auto simp: in_subs_def)
    qed
    then show ?thesis using o unfolding open_ok_def same subs by (simp add: stop)
  qed
  ultimately show ?thesis using inv by (auto simp: conn_inv_def)
qed

lemma conn_inv_run_exit:
  assumes inv: "conn_inv w" and k: "k < length (w_tasks w)" "w_tasks w ! k = RunExit i"
  shows "conn_inv (run_exit i (drop_task k w))"
proof (cases "exit_at w i")
  case ExitAdopted
  let ?v = "drop_task k w"
  note v = conn_inv_exit_adopted [OF inv k ExitAdopted]
  have off: "conn_inv (add_task NotifyTask (?v\<lparr>w_srv := (w_srv w)\<lparr>ss_pump := None, ss_peer := []\<rparr>\<rparr>))"
    if j: "ss_pump (w_srv w) = Some j" "pm_done (pump_at w j)" for j
  proof -
    let ?u = "?v\<lparr>w_srv := (w_srv w)\<lparr>ss_pump := None, ss_peer := []\<rparr>\<rparr>"
    have "\<not> live w j" using inv j by (auto simp: conn_inv_def exits_ok_def live_def)
    then have "conn_inv ?u" using v j
      by (cases "ss_closed (w_srv w)")
        (auto simp: conn_inv_def parts views exits_def pump_at_def exit_at_def drop_task_def)
    from conn_inv_inert [OF this, of "[NotifyTask]"] show ?thesis by (simp add: inert_def add_task_def)
  qed
  show ?thesis
    using v off ExitAdopted
    by (auto simp: run_exit_def Let_def exit_at_def [symmetric] pump_at_def [symmetric] pump_stopped_def split: option.split)
next
  case (ExitSub n a)
  from conn_inv_inert [OF conn_inv_exit_sub [OF inv k ExitSub], of "[RemoveTask n]"] show ?thesis
    using ExitSub by (simp add: run_exit_def exit_at_def [symmetric] inert_def add_task_def)
qed

lemma conn_inv_remove_sub: "conn_inv w \<Longrightarrow> conn_inv (remove_sub n w)"
proof -
  assume inv: "conn_inv w"
  have "conn_inv (stop_at i (w\<lparr>w_sw := sw'\<rparr>))" if "mget (w_objs w) r = Some i" for i r sw'
  proof (rule conn_inv_stop)
    have "i \<in> snd ` set (w_objs w)" using mget_Some_mem [OF that] by force
    then show "\<not> dead (w\<lparr>w_sw := sw'\<rparr>) i \<and> (\<forall>k a b. w_pc (w\<lparr>w_sw := sw'\<rparr>) \<noteq> Registering k i a b)"
      using inv unfolding conn_inv_def refs_ok_def dead_def by simp blast
  qed (use inv in simp)
  then show ?thesis using inv by (auto simp: remove_sub_def Let_def bind_eq_Some_conv split: option.split)
qed

lemma conn_inv_task:
  assumes inv: "conn_inv w" and k: "k < length (w_tasks w)"
  shows "conn_inv (run_task (w_tasks w ! k) (drop_task k w))"
proof (cases "w_tasks w ! k")
  case (RunExit i)
  then show ?thesis using conn_inv_run_exit [OF inv k] by simp
next
  case (StopTask i)
  then show ?thesis using conn_inv_run_stop [OF inv k] by simp
qed (use conn_inv_drop_plain [OF inv k] conn_inv_remove_sub in simp_all)

section \<open>Closing\<close>

lemma conn_inv_close: "conn_inv w \<Longrightarrow> conn_inv (ServerClose w)"
proof (cases "ss_closed (w_srv w)")
  case False
  assume inv: "conn_inv w"
  let ?w = "ServerClose w"
  let ?is = "(case ss_pump (w_srv w) of None \<Rightarrow> [] | Some i \<Rightarrow> [i]) @ map (sub_pump \<circ> snd) (ss_subs (w_srv w))"
  have sel: "w_pumps ?w = w_pumps w" "w_pc ?w = w_pc w" "w_objs ?w = w_objs w" "w_refused ?w = w_refused w"
    "w_tasks ?w = w_tasks w @ map StopTask ?is" "ss_pump (w_srv ?w) = None" "ss_closed (w_srv ?w)"
    using False by (simp_all add: ServerClose_def Let_def)
  have same: "pump_at ?w = pump_at w" "exit_at ?w = exit_at w" "live ?w = live w" "kicking ?w = kicking w"
    by (simp_all add: fun_eq_iff pump_at_def exit_at_def live_def kicking_def sel)
  have "List.map_filter (\<lambda>t. case t of RunExit i \<Rightarrow> Some i | _ \<Rightarrow> None) (map StopTask js) = []" for js
    by (induction js) (simp_all add: map_filter_def)
  then have ex: "exits ?w = exits w" by (simp add: exits_def sel map_filter_def)
  have o: "open_ok w" using inv False by (simp add: conn_inv_def)
  have stop: "StopTask i \<in> set (w_tasks ?w) \<or> kicking w i" if l: "live w i" for i
  proof (cases "exit_at w i")
    case ExitAdopted
    then show ?thesis using l o by (auto simp: open_ok_def sel)
  next
    case (ExitSub n a)
    have "\<not> pm_done (pump_at w i)" "i < length (w_pumps w)" using l inv by (auto simp: live_def conn_inv_def exits_ok_def)
    then have "in_subs w n i" using o ExitSub l unfolding open_ok_def dead_def live_def by blast
    then show ?thesis by (force simp: in_subs_def sel dest: mget_Some_mem)
  qed
  have "refs_ok ?w" "exits_ok ?w" using inv by (simp_all add: conn_inv_def refs_ok_def exits_ok_def same sel ex)
  then show ?thesis using inv stop by (simp add: conn_inv_def closed_ok_def same sel)
qed (simp add: ServerClose_def)

lemma conn_inv_update: "conn_inv w \<Longrightarrow> conn_inv (UpdateSubAttrs a w)"
proof -
  assume inv: "conn_inv w"
  let ?s = "(w_srv w)\<lparr>ss_attrs := a\<rparr>"
  have "conn_inv (w\<lparr>w_srv := ?s\<rparr>)" by (rule conn_inv_srv [OF inv]) simp_all
  from conn_inv_inert [OF this, of "map (\<lambda>i. UpdateTask i a) (map fst (ss_subs (w_srv w)))"]
  show ?thesis by (simp add: UpdateSubAttrs_def inert_def list_all_iff)
qed

lemma conn_inv_exec: "conn_inv w \<Longrightarrow> conn_inv (exec_server op w)"
proof (cases op)
  case (SSend fr)
  assume "conn_inv w"
  then show ?thesis using SSend by (auto simp: ServerSend_def send_calm intro: conn_inv_calm split: option.split)
next
  case (SSubSend k fr)
  assume "conn_inv w"
  then show ?thesis using SSubSend by (auto simp: SubSend_def send_calm intro: conn_inv_calm split: option.split)
qed (simp_all add: conn_inv_accept conn_inv_continue conn_inv_task conn_inv_rx conn_inv_tx conn_inv_close conn_inv_update)

interpretation server: invariant_system exec_server conn_inv
  by unfold_locales (rule conn_inv_exec)

section \<open>Anonymous numbers\<close>

lemma anon_search_spec:
  "i \<le> anon_search n i m \<and> (\<forall>j. i \<le> j \<and> j < anon_search n i m \<longrightarrow> mget m j = Some True)
    \<and> (mget m (anon_search n i m) = Some True \<longrightarrow> anon_search n i m = i + n)"
proof (induction n i m rule: anon_search.induct)
  case (2 n i m)
  show ?case
  proof (cases "mget m i = Some True")
    case True
    note ih = "2.IH" [OF True]
    have "mget m j = Some True" if "i \<le> j" "j < anon_search n (Suc i) m" for j
      using that ih True by (cases "j = i") auto
    then show ?thesis using True ih by auto
  qed auto
qed auto

text \<open>The number allocated is the smallest one not in use.\<close>

lemma allocAnon_first_free:
  "mget (ss_anonIDs s) (fst (allocAnonLocked s)) \<noteq> Some True"
  "j < fst (allocAnonLocked s) \<Longrightarrow> mget (ss_anonIDs s) j = Some True"
proof -
  let ?m = "ss_anonIDs s" and ?r = "fst (allocAnonLocked s)"
  have r: "?r = anon_search (length ?m) 0 ?m" by (simp add: allocAnonLocked_def Let_def)
  note spec = anon_search_spec [of 0 "length ?m" ?m, folded r]
  show "j < ?r \<Longrightarrow> mget ?m j = Some True" using spec by simp
  show "mget ?m ?r \<noteq> Some True"
  proof
    assume t: "mget ?m ?r = Some True"
    then have "?r = length ?m" using spec by simp
    then have used: "mget ?m j = Some True" if "j \<le> length ?m" for j
      using that t spec by (cases "j = ?r") simp_all
    have "{0..length ?m} \<subseteq> fst ` set ?m"
    proof
      fix j assume "j \<in> {0..length ?m}"
      then have "mget ?m j \<noteq> None" using used [of j] by simp
      then show "j \<in> fst ` set ?m" by (simp add: mget_None_iff)
    qed
    then have "card {0..length ?m} \<le> card (fst ` set ?m)" by (intro card_mono) simp_all
    also have "\<dots> \<le> length ?m" by (metis card_length length_map set_map)
    finally show False by simp
  qed
qed

section \<open>Properties\<close>

lemma conn_inv_new: "conn_inv (new_world (newStreamServer i mode a) sw)"
  by (simp add: conn_inv_def parts views exits_def map_filter_def new_world_def newStreamServer_def)

text \<open>
  C20. A listening port loses track of no connection. Whatever connections arrive and whatever the peers, the
  switch and the control plane do, in any interleaving of the critical sections: a refused connection is
  closed, a stopped pump has closed its connection, and every open connection is the current one of the port,
  the one about to be replaced, or that of a listed subport. Once the port is closed and what it started
  has run, no connection is open.
\<close>

theorem server_connections_accounted:
  "let w = fold exec_server ops (new_world (newStreamServer i mode a) sw) in
     list_all sio_closed (w_refused w)
     \<and> (\<forall>j. live w j \<longrightarrow> \<not> pm_done (pump_at w j))
     \<and> (\<not> ss_closed (w_srv w) \<longrightarrow> (\<forall>j. live w j \<longrightarrow> ss_pump (w_srv w) = Some j \<or> kicking w j \<or> (\<exists>k. in_subs w k j)))
     \<and> (ss_closed (w_srv w) \<and> w_pc w = Accepting \<and> w_tasks w = [] \<longrightarrow> (\<forall>j. \<not> live w j))"
proof -
  let ?w = "fold exec_server ops (new_world (newStreamServer i mode a) sw)"
  have inv: "conn_inv ?w" by (rule server.inv_run [OF conn_inv_new])
  then have dn: "live ?w j \<Longrightarrow> \<not> pm_done (pump_at ?w j)" for j by (auto simp: conn_inv_def exits_ok_def live_def)
  have o: "ss_pump (w_srv ?w) = Some j \<or> kicking ?w j \<or> (\<exists>k. in_subs ?w k j)"
    if "\<not> ss_closed (w_srv ?w)" "live ?w j" for j
  proof (cases "exit_at ?w j")
    case ExitAdopted
    then show ?thesis using that inv by (auto simp: conn_inv_def open_ok_def)
  next
    case (ExitSub k b)
    have "open_ok ?w" "\<not> dead ?w j" "j < length (w_pumps ?w)" using that inv by (auto simp: conn_inv_def dead_def live_def)
    then show ?thesis using ExitSub dn [OF that(2)] unfolding open_ok_def by blast
  qed
  have c: "\<not> live ?w j" if "ss_closed (w_srv ?w)" "w_pc ?w = Accepting" "w_tasks ?w = []" for j
    using that inv by (auto simp: conn_inv_def closed_ok_def kicking_def)
  have "list_all sio_closed (w_refused ?w)" using inv by (simp add: conn_inv_def)
  then show ?thesis unfolding Let_def using dn o c by blast
qed

text \<open>A connection of a peer with a name, as the multiplexing server sees it.\<close>

definition named :: "string \<Rightarrow> net_conn" where
  "named peer = \<lparr>nc_remote = Some (OtherAddr ''tcp'' peer), nc_data = []\<rparr>"

lemma peer_named [simp]: "peerString (named peer) = peer"
  by (simp add: named_def peerString_def)

definition new_attrs :: "int \<Rightarrow> PortAttrs" where
  "new_attrs vlan = \<lparr>SecurityMAC = None, Isolated = False, VLAN = vlan, Disabled = False, BPDUGuard = False,
     LoopDetect = False, StormPPS = 0, STP = False, STPCost = 0, STPPriority = 0\<rparr>"

theorem server_connections_accounted_witness:
  "let w = fold exec_server [SAccept (named ''a''), SAccept (named ''b''), SContinue, SContinue, STask 0, SClose, STask 0, STask 0]
       (new_world (newStreamServer ''srv'' ModeReplace (new_attrs 7)) (New [])) in
     ss_closed (w_srv w) \<and> w_pc w = Accepting \<and> w_tasks w = [] \<and> length (w_pumps w) = 2 \<and> \<not> live w 0 \<and> \<not> live w 1"
proof -
  let ?ops = "[SAccept (named ''a''), SAccept (named ''b''), SContinue, SContinue, STask 0, SClose, STask 0, STask 0]"
  let ?w = "fold exec_server ?ops (new_world (newStreamServer ''srv'' ModeReplace (new_attrs 7)) (New []))"
  have "ss_closed (w_srv ?w) \<and> w_pc ?w = Accepting \<and> w_tasks ?w = [] \<and> length (w_pumps ?w) = 2"
    by (simp add: new_world_def newStreamServer_def acceptLoop_def adopt_def install_def accept_continue_def
        adopt_relock_def stop_at_def set_pump_def pump_stop_def pump_start_def newPump_def add_task_def drop_task_def
        run_exit_def pump_stopped_def ServerClose_def Let_def nth_append)
  then show ?thesis
    using server_connections_accounted [of ?ops "''srv''" ModeReplace "new_attrs 7" "New []"] by (simp add: Let_def)
qed

lemma new_subport:
  assumes "validate a = None" "k \<noteq> []" "mget (ports sw) k = None"
  obtains sw' where "AddPort k a sw = Inr sw'" "mget (ports sw') k \<noteq> None" "PortAttrs_of k sw' = Some a"
  using assms by (simp add: AddPort_def Let_def portChangedLocked_def mget_mput ent_def PortAttrs_of_def new_entry_def)

lemmas server_run = new_world_def newStreamServer_def acceptLoop_def addSub_def sub_name_def accept_continue_def register_sub_def
  stop_at_def set_pump_def pump_stop_def pump_start_def newPump_def add_task_def drop_task_def run_exit_def
  ServerClose_def remove_sub_def drop_sub_def free_anon_def RemovePort_def UpdateSubAttrs_def Let_def mode_defs
  mget_mput mdel_def mput_def

lemma closed_while_registering:
  assumes "peer \<noteq> []" "mget (ports sw) (i @ ''@'' @ peer) = None" "AddPort (i @ ''@'' @ peer) a sw = Inr sw'"
  shows "let w = fold exec_server [SAccept (named peer), SClose, STask 0, STask 0, STask 0, SContinue]
      (new_world (newStreamServer i ModeMultiplex a) sw) in
    ss_closed (w_srv w) \<and> w_pc w = Accepting \<and> w_tasks w = [] \<and> ss_subs (w_srv w) = [] \<and> w_sw w = sw' \<and> (\<forall>j. \<not> live w j)"
proof -
  let ?w = "fold exec_server [SAccept (named peer), SClose, STask 0, STask 0, STask 0, SContinue]
    (new_world (newStreamServer i ModeMultiplex a) sw)"
  have *: "ss_closed (w_srv ?w) \<and> w_pc ?w = Accepting \<and> w_tasks ?w = [] \<and> ss_subs (w_srv ?w) = [] \<and> w_sw ?w = sw'"
    using assms by (simp add: server_run)
  have "conn_inv ?w" by (rule server.inv_run [OF conn_inv_new])
  with * have "\<not> live ?w j" for j by (simp add: conn_inv_def closed_ok_def kicking_def)
  with * show ?thesis by (simp add: Let_def)
qed

lemma updated_while_registering:
  assumes "peer \<noteq> []" "mget (ports sw) (i @ ''@'' @ peer) = None" "AddPort (i @ ''@'' @ peer) a sw = Inr sw'"
  shows "let w = fold exec_server [SAccept (named peer), SUpdate a', STask 0, SContinue]
      (new_world (newStreamServer i ModeMultiplex a) sw) in
    ss_attrs (w_srv w) = a' \<and> w_pc w = Accepting \<and> w_tasks w = [] \<and> w_sw w = sw'"
proof -
  have "or_same sw (UpdatePortAttrs (i @ ''@'' @ peer) a' sw) = sw"
    using assms(2) by (simp add: UpdatePortAttrs_def or_same_def split: option.split)
  then show ?thesis using assms by (simp add: server_run)
qed



end
