(* ===== verification/Transports.thy ===== *)
theory Transports
  imports StreamServer
begin

text \<open>
  The other transports of a port (\<^verbatim>\<open>internal/ports\<close>): configuration and construction of every kind, dialing and
  listening (\<^verbatim>\<open>net.go\<close>, \<^verbatim>\<open>vsock.go\<close>), the datagram server, the client port, TAP and AF_XDP
  devices and the vhost-user port. What the operating system answers is an argument. A method
  runs between two releases of its lock in one step; what it does after the lock is in the same step unless
  another goroutine does it.
\<close>

section \<open>Transports and modes\<close>

definition isStreamTransport :: "string \<Rightarrow> bool" where
  "isStreamTransport t \<longleftrightarrow> t = ''tcp'' \<or> t = ''unix'' \<or> t = ''vsock''"

definition isDgramTransport :: "string \<Rightarrow> bool" where
  "isDgramTransport t \<longleftrightarrow> t = ''udp'' \<or> t = ''unixgram'' \<or> t = ''vsock-dgram''"

text \<open>Errors of dialing and listening; \<open>SysError\<close> is what the operating system reports.\<close>

datatype net_error = SysError string | AddrInUse | BadLocal string | BadRemote string | NotStream string | NotDgram string
  | VsockNoLocal | NeedsLocalPath | VsockNeedsCid string | BadCid string | BadVsockPort string | NeedsListenAddr

datatype port_error = UnknownTransport string | UnknownReplacingMode string | MultiplexDatagram
  | ListenFailed string string net_error | DialFailed string string net_error
  | VhostDialFailed string net_error | VhostListenFailed string net_error | VhostReplacingMode | VhostBadMode string
  | TapNeedsName | TapNeedsBridge | TapFailed string | XdpNeedsInterface | XdpQueueRange | XdpFailed string

definition validateTransport :: "string \<Rightarrow> port_error option" where
  "validateTransport t = (if \<not> isStreamTransport t \<and> \<not> isDgramTransport t then Some (UnknownTransport t) else None)"

section \<open>Vsock addresses\<close>

definition VMADDR_CID_ANY :: u32 where "VMADDR_CID_ANY = 0xffffffff"

text \<open>\<^verbatim>\<open>strconv.ParseUint(s, 10, 32)\<close>.\<close>

definition ParseUint32 :: "string \<Rightarrow> u32 option" where
  "ParseUint32 s = (if s = [] \<or> \<not> list_all is_digit s then None
     else (let v = fold (\<lambda>c acc. acc * 10 + digit_val c) s 0 in if v < 2 ^ 32 then Some (word_of_nat v) else None))"

definition parseVsockAddr :: "string \<Rightarrow> bool \<Rightarrow> net_error + u32 \<times> u32" where
  "parseVsockAddr s cidOptional =
    (let cut = takeWhile (\<lambda>c. c \<noteq> CHR '':'') s;
         found = (cut \<noteq> s);
         cidStr = (if found then cut else []);
         portStr = (if found then drop (Suc (length cut)) s else s);
         port = (\<lambda>cid. case ParseUint32 portStr of None \<Rightarrow> Inl (BadVsockPort portStr) | Some p \<Rightarrow> Inr (cid, p))
     in if cidStr = [] then
          (if \<not> cidOptional then Inl (VsockNeedsCid s) else port VMADDR_CID_ANY)
        else case ParseUint32 cidStr of
          None \<Rightarrow> Inl (BadCid cidStr)
        | Some cid \<Rightarrow> port cid)"

section \<open>Dialing and listening\<close>

text \<open>
  Answers of the operating system. \<open>os_listen\<close> depends on whether it is the first or the second
  attempt. \<open>os_alive\<close>: something accepts on a unix path; \<open>os_socket\<close>: the path names a socket;
  \<open>os_vsock_dgram\<close>: the kernel creates datagram sockets of the vsock family.
\<close>

datatype sys_answer = SysOk | InUse | SysFail string

record net_os =
  os_listen :: "nat \<Rightarrow> string \<Rightarrow> string \<Rightarrow> sys_answer"
  os_dial :: "string \<Rightarrow> string \<Rightarrow> string \<Rightarrow> sys_answer"
  os_resolves :: "string \<Rightarrow> string \<Rightarrow> bool"
  os_alive :: "string \<Rightarrow> bool"
  os_socket :: "string \<Rightarrow> bool"
  os_vsock_dgram :: sys_answer

text \<open>The second result is the paths removed from the file system.\<close>

type_synonym dialed = "net_error option \<times> string list"

definition answer :: "sys_answer \<Rightarrow> net_error option" where
  "answer a = (case a of SysOk \<Rightarrow> None | InUse \<Rightarrow> Some AddrInUse | SysFail e \<Rightarrow> Some (SysError e))"

definition removeStaleSocket :: "net_os \<Rightarrow> string \<Rightarrow> string list" where
  "removeStaleSocket os path = (if os_socket os path then [path] else [])"

definition unixSocketIsStale :: "net_os \<Rightarrow> string \<Rightarrow> bool" where
  "unixSocketIsStale os path \<longleftrightarrow> \<not> os_alive os path"

definition dialVsockStream :: "net_os \<Rightarrow> string \<Rightarrow> string \<Rightarrow> net_error option" where
  "dialVsockStream os lcl rmt =
    (if lcl \<noteq> [] then Some VsockNoLocal
     else case parseVsockAddr rmt False of
       Inl e \<Rightarrow> Some e
     | Inr _ \<Rightarrow> answer (os_dial os ''vsock'' lcl rmt))"

definition newVsockDgramSocket :: "net_os \<Rightarrow> string \<Rightarrow> net_error option" where
  "newVsockDgramSocket os lcl = (case answer (os_vsock_dgram os) of
       Some e \<Rightarrow> Some e
     | None \<Rightarrow>
         if lcl = [] then None
         else (case parseVsockAddr lcl True of
                 Inl e \<Rightarrow> Some e
               | Inr _ \<Rightarrow> answer (os_listen os 0 ''vsock-dgram'' lcl)))"

definition dialVsockDgram :: "net_os \<Rightarrow> string \<Rightarrow> string \<Rightarrow> net_error option" where
  "dialVsockDgram os lcl rmt = (case parseVsockAddr rmt False of
       Inl e \<Rightarrow> Some e
     | Inr _ \<Rightarrow> (case newVsockDgramSocket os lcl of
           Some e \<Rightarrow> Some e
         | None \<Rightarrow> answer (os_dial os ''vsock-dgram'' lcl rmt)))"

definition dialStream :: "net_os \<Rightarrow> string \<Rightarrow> string \<Rightarrow> string \<Rightarrow> dialed" where
  "dialStream os transport lcl rmt =
    (if transport = ''tcp'' then
       (if lcl \<noteq> [] \<and> \<not> os_resolves os ''tcp'' lcl then (Some (BadLocal lcl), [])
        else (answer (os_dial os ''tcp'' lcl rmt), []))
     else if transport = ''unix'' then (answer (os_dial os ''unix'' lcl rmt), [])
     else if transport = ''vsock'' then (dialVsockStream os lcl rmt, [])
     else (Some (NotStream transport), []))"

definition dialDgram :: "net_os \<Rightarrow> string \<Rightarrow> string \<Rightarrow> string \<Rightarrow> dialed" where
  "dialDgram os transport lcl rmt =
    (if transport = ''udp'' then
       (if \<not> os_resolves os ''udp'' rmt then (Some (BadRemote rmt), [])
        else if lcl \<noteq> [] \<and> \<not> os_resolves os ''udp'' lcl then (Some (BadLocal lcl), [])
        else (answer (os_dial os ''udp'' lcl rmt), []))
     else if transport = ''unixgram'' then
       (if lcl = [] then (Some NeedsLocalPath, [])
        else (answer (os_dial os ''unixgram'' lcl rmt), removeStaleSocket os lcl))
     else if transport = ''vsock-dgram'' then (dialVsockDgram os lcl rmt, [])
     else (Some (NotDgram transport), []))"

definition listenVsockStream :: "net_os \<Rightarrow> string \<Rightarrow> net_error option" where
  "listenVsockStream os addr = (case parseVsockAddr addr True of
       Inl e \<Rightarrow> Some e
     | Inr _ \<Rightarrow> answer (os_listen os 0 ''vsock'' addr))"

definition listenVsockDgram :: "net_os \<Rightarrow> string \<Rightarrow> net_error option" where
  "listenVsockDgram os addr = (if addr = [] then Some NeedsListenAddr else newVsockDgramSocket os addr)"

definition listenStream :: "net_os \<Rightarrow> string \<Rightarrow> string \<Rightarrow> dialed" where
  "listenStream os transport addr =
    (if transport = ''tcp'' then (answer (os_listen os 0 ''tcp'' addr), [])
     else if transport = ''unix'' then
       (let r = os_listen os 0 ''unix'' addr in
        if r = InUse \<and> unixSocketIsStale os addr then (answer (os_listen os 1 ''unix'' addr), [addr])
        else (answer r, []))
     else if transport = ''vsock'' then (listenVsockStream os addr, [])
     else (Some (NotStream transport), []))"

definition listenPacket :: "net_os \<Rightarrow> string \<Rightarrow> string \<Rightarrow> dialed" where
  "listenPacket os transport addr =
    (if transport = ''udp'' then (answer (os_listen os 0 ''udp'' addr), [])
     else if transport = ''unixgram'' then
       (let r = os_listen os 0 ''unixgram'' addr in
        if r = InUse then (answer (os_listen os 1 ''unixgram'' addr), [addr]) else (answer r, []))
     else if transport = ''vsock-dgram'' then (listenVsockDgram os addr, [])
     else (Some (NotDgram transport), []))"

section \<open>The datagram server\<close>

text \<open>
  An address is the text \<^verbatim>\<open>String\<close> gives. A datagram from an unbound unix socket has no address:
  \<^verbatim>\<open>ReadFrom\<close> returns a nil interface.
\<close>

record dgramServer =
  ds_id :: string
  ds_mode :: string
  ds_ref :: PortRef
  ds_peer :: "string option"
  ds_closed :: bool

definition newDgramServer :: "string \<Rightarrow> string \<Rightarrow> dgramServer" where
  "newDgramServer i mode = \<lparr>ds_id = i, ds_mode = mode, ds_ref = Ref i, ds_peer = None, ds_closed = False\<rparr>"

text \<open>
  What one turn of \<^verbatim>\<open>rxLoop\<close> does with the peer: the new peer and whether the datagram is delivered.
  Comparing addresses calls a method of the sender's, which panics if it has none.
\<close>

definition dgram_peer :: "string \<Rightarrow> string option \<Rightarrow> string option \<Rightarrow> (string option \<times> bool) option" where
  "dgram_peer mode peer addr = (case peer of
       None \<Rightarrow> Some (addr, True)
     | Some p \<Rightarrow>
         (case addr of
            None \<Rightarrow> None
          | Some a \<Rightarrow>
              if a \<noteq> p then (if mode = ModeReplace then Some (Some a, True) else Some (Some p, False))
              else Some (Some p, True)))"

definition dgramRx :: "clock \<Rightarrow> (eref \<Rightarrow> bool) \<Rightarrow> string option \<Rightarrow> byte list \<Rightarrow> dgramServer \<times> switch \<Rightarrow> (dgramServer \<times> switch) option" where
  "dgramRx clk accept addr buf ds = (case ds of (d, s) \<Rightarrow>
     case dgram_peer (ds_mode d) (ds_peer d) addr of
       None \<Rightarrow> None
     | Some (peer, mine) \<Rightarrow>
         if mine then
           (let (ref, s') = RefDeliver clk accept (take (maxFrameSize + 1) buf) (ds_ref d, s)
            in Some (d\<lparr>ds_peer := peer, ds_ref := ref\<rparr>, s'))
         else Some (d\<lparr>ds_peer := peer\<rparr>, s))"

text \<open>The destination of a frame, if it can be sent; \<open>ok\<close> is the answer to the write.\<close>

definition DgramSend :: "bool \<Rightarrow> frame \<Rightarrow> dgramServer \<Rightarrow> bool \<times> (string \<times> frame) option" where
  "DgramSend ok fr d = (case ds_peer d of None \<Rightarrow> (False, None) | Some p \<Rightarrow> (ok, Some (p, fr)))"

definition DgramClose :: "dgramServer \<Rightarrow> dgramServer" where
  "DgramClose d = (if ds_closed d then d else d\<lparr>ds_closed := True\<rparr>)"

definition DgramStatus :: "dgramServer \<Rightarrow> Status" where
  "DgramStatus d = \<lparr>Online = (ds_peer d \<noteq> None), Peer = (case ds_peer d of None \<Rightarrow> [] | Some p \<Rightarrow> p), Connections = []\<rparr>"

section \<open>Client and TAP ports\<close>

text \<open>\<open>cp_set\<close>: the field \<^verbatim>\<open>pump\<close> is not nil. The exit callback clears it and reports the port down.\<close>

record clientPort =
  cp_id :: string
  cp_pump :: pump
  cp_set :: bool
  cp_peer :: string

definition newClientPort :: "string \<Rightarrow> string \<Rightarrow> frameIO \<Rightarrow> clientPort" where
  "newClientPort i peer x = \<lparr>cp_id = i, cp_pump = pump_start (newPump (Ref i) x), cp_set = True, cp_peer = peer\<rparr>"

definition client_exit :: "clientPort \<times> switch \<Rightarrow> clientPort \<times> switch" where
  "client_exit cs = (case cs of (c, s) \<Rightarrow> (c\<lparr>cp_set := False\<rparr>, NotifyDown (cp_id c) s))"

definition ClientSend :: "frame \<Rightarrow> clientPort \<Rightarrow> bool \<times> clientPort" where
  "ClientSend fr c = (if \<not> cp_set c then (False, c)
     else (let (ok, p) = pump_send fr (cp_pump c) in (ok, c\<lparr>cp_pump := p\<rparr>)))"

definition ClientClose :: "clientPort \<Rightarrow> clientPort" where
  "ClientClose c = (if cp_set c then c\<lparr>cp_pump := pump_stop (cp_pump c)\<rparr> else c)"

definition ClientStatus :: "clientPort \<Rightarrow> Status" where
  "ClientStatus c = \<lparr>Online = cp_set c, Peer = cp_peer c, Connections = []\<rparr>"

text \<open>A TAP port is a client port over a device that is deleted when it is closed.\<close>

record tapPort =
  tp_port :: clientPort
  tp_link :: bool

definition TapSend :: "frame \<Rightarrow> tapPort \<Rightarrow> bool \<times> tapPort" where
  "TapSend fr t = (let (ok, c) = ClientSend fr (tp_port t) in (ok, t\<lparr>tp_port := c\<rparr>))"

definition TapClose :: "tapPort \<Rightarrow> tapPort" where
  "TapClose t = t\<lparr>tp_port := ClientClose (tp_port t), tp_link := False\<rparr>"

definition TapStatus :: "tapPort \<Rightarrow> Status" where
  "TapStatus t = ClientStatus (tp_port t)"

section \<open>Peers of a datagram server\<close>

text \<open>A datagram with the clock and the answers of the ports at the time it is read.\<close>

type_synonym datagram = "clock \<times> (eref \<Rightarrow> bool) \<times> string option \<times> byte list"

definition sender :: "datagram \<Rightarrow> string option" where
  "sender x = fst (snd (snd x))"

fun dgram_run :: "datagram list \<Rightarrow> dgramServer \<times> switch \<Rightarrow> (dgramServer \<times> switch) option" where
  "dgram_run [] ds = Some ds"
| "dgram_run ((clk, accept, addr, buf) # xs) ds = Option.bind (dgramRx clk accept addr buf ds) (dgram_run xs)"

text \<open>Handing datagrams to the switch, one after the other.\<close>

definition hand_over :: "datagram \<Rightarrow> PortRef \<times> switch \<Rightarrow> PortRef \<times> switch" where
  "hand_over x rs = (case x of (clk, accept, addr, buf) \<Rightarrow> RefDeliver clk accept (take (maxFrameSize + 1) buf) rs)"

text \<open>With a peer already known.\<close>

definition accepted_from :: "string \<Rightarrow> string \<Rightarrow> datagram \<Rightarrow> bool" where
  "accepted_from mode p x \<longleftrightarrow> mode = ModeReplace \<or> sender x = Some p"

definition peer_after :: "string \<Rightarrow> string \<Rightarrow> datagram list \<Rightarrow> string option" where
  "peer_after mode p xs = (if mode = ModeReplace \<and> xs \<noteq> [] then sender (last xs) else Some p)"

lemma dgram_run_bound:
  assumes "ds_peer d = Some p" "list_all (\<lambda>x. sender x \<noteq> None) xs"
  shows "\<exists>ref s'. dgram_run xs (d, s) = Some (d\<lparr>ds_peer := peer_after (ds_mode d) p xs, ds_ref := ref\<rparr>, s')
    \<and> fold hand_over (filter (accepted_from (ds_mode d) p) xs) (ds_ref d, s) = (ref, s')"
  using assms
proof (induction xs arbitrary: d s p)
  case Nil
  then show ?case by (cases d) (simp add: peer_after_def)
next
  case (Cons x xs)
  then obtain clk accept a buf where x: "x = (clk, accept, Some a, buf)" by (cases x) (auto simp: sender_def)
  obtain ref1 s1 where h: "hand_over x (ds_ref d, s) = (ref1, s1)" by fastforce
  have bound: "list_all (\<lambda>x. sender x \<noteq> None) xs" using Cons.prems(2) by simp
  show ?case
  proof (cases "ds_mode d = ModeReplace \<or> a = p")
    case True
    let ?d = "d\<lparr>ds_peer := Some a, ds_ref := ref1\<rparr>"
    have step: "dgram_run (x # xs) (d, s) = dgram_run xs (?d, s1)"
      using True Cons.prems(1) h by (auto simp: x dgramRx_def dgram_peer_def hand_over_def)
    have acc: "filter (accepted_from (ds_mode d) p) (x # xs) = x # filter (accepted_from (ds_mode ?d) a) xs"
      using True by (auto simp: accepted_from_def x sender_def intro: filter_cong)
    have last: "peer_after (ds_mode d) p (x # xs) = peer_after (ds_mode ?d) a xs"
      using True by (auto simp: peer_after_def x sender_def)
    from Cons.IH [of ?d a s1] bound obtain ref s' where
      "dgram_run xs (?d, s1) = Some (?d\<lparr>ds_peer := peer_after (ds_mode ?d) a xs, ds_ref := ref\<rparr>, s')"
      "fold hand_over (filter (accepted_from (ds_mode ?d) a) xs) (ref1, s1) = (ref, s')" by auto
    then show ?thesis unfolding step acc last by (simp add: h)
  next
    case False
    have same: "d\<lparr>ds_peer := Some p\<rparr> = d" using Cons.prems(1) by (cases d) simp
    have step: "dgram_run (x # xs) (d, s) = dgram_run xs (d, s)"
      using False Cons.prems(1) by (simp add: x dgramRx_def dgram_peer_def, simp only: same)
    have acc: "filter (accepted_from (ds_mode d) p) (x # xs) = filter (accepted_from (ds_mode d) p) xs"
      using False by (simp add: accepted_from_def x sender_def)
    have last: "peer_after (ds_mode d) p (x # xs) = peer_after (ds_mode d) p xs" using False by (simp add: peer_after_def)
    show ?thesis unfolding step acc last by (rule Cons.IH [OF Cons.prems(1) bound])
  qed
qed

lemma dgram_run_unbound:
  "ds_peer d = Some p \<Longrightarrow> \<not> list_all (\<lambda>x. sender x \<noteq> None) xs \<Longrightarrow> dgram_run xs (d, s) = None"
proof (induction xs arbitrary: d s p)
  case (Cons x xs)
  obtain clk accept addr buf where x: "x = (clk, accept, addr, buf)" by (cases x)
  show ?case
  proof (cases addr)
    case None
    then show ?thesis using Cons.prems by (simp add: x dgramRx_def dgram_peer_def)
  next
    case (Some a)
    then have rest: "\<not> list_all (\<lambda>x. sender x \<noteq> None) xs" using Cons.prems by (simp add: x sender_def)
    show ?thesis
      using Cons.IH [OF _ rest] Cons.prems(1) Some
      by (cases "ds_mode d = ModeReplace \<or> a = p") (auto simp: x dgramRx_def dgram_peer_def split: prod.split)
  qed
qed simp

text \<open>Before the first sender with an address everything is delivered.\<close>

lemma dgram_run_prefix:
  "ds_peer d = None \<Longrightarrow> list_all (\<lambda>x. sender x = None) xs \<Longrightarrow>
    \<exists>ref s'. fold hand_over xs (ds_ref d, s) = (ref, s') \<and> dgram_run (xs @ ys) (d, s) = dgram_run ys (d\<lparr>ds_ref := ref\<rparr>, s')"
proof (induction xs arbitrary: d s)
  case (Cons x xs)
  then obtain clk accept buf where x: "x = (clk, accept, None, buf)" by (cases x) (auto simp: sender_def)
  obtain ref1 s1 where h: "hand_over x (ds_ref d, s) = (ref1, s1)" by fastforce
  have same: "d\<lparr>ds_peer := None, ds_ref := ref1\<rparr> = d\<lparr>ds_ref := ref1\<rparr>" using Cons.prems(1) by (cases d) simp
  have step: "dgram_run ((x # xs) @ ys) (d, s) = dgram_run (xs @ ys) (d\<lparr>ds_ref := ref1\<rparr>, s1)"
    using Cons.prems(1) h by (simp add: x dgramRx_def dgram_peer_def hand_over_def, simp only: same)
  show ?case using Cons.IH [of "d\<lparr>ds_ref := ref1\<rparr>" s1] Cons.prems unfolding step by (simp add: h)
qed simp

text \<open>
  C23. A datagram server follows its peer, and stops working at a sender without an address. As long as every
  datagram comes from a bound socket, the port delivers them all and answers the last sender in
  replace mode, and delivers only those of the first sender and keeps answering it in occupy mode. But
  once a peer is known, a datagram from an unbound socket panics the process, whatever the mode.
\<close>

theorem dgram_server_peers:
  assumes "list_all (\<lambda>x. sender x = None) xs" "sender y = Some p"
  shows "if list_all (\<lambda>x. sender x \<noteq> None) zs then
      \<exists>ref s'. dgram_run (xs @ y # zs) (newDgramServer i mode, s) =
          Some ((newDgramServer i mode)\<lparr>ds_peer := peer_after mode p zs, ds_ref := ref\<rparr>, s')
        \<and> fold hand_over (xs @ y # filter (accepted_from mode p) zs) (Ref i, s) = (ref, s')
    else dgram_run (xs @ y # zs) (newDgramServer i mode, s) = None"
proof -
  let ?d = "newDgramServer i mode"
  obtain ref1 s1 where pre: "fold hand_over xs (Ref i, s) = (ref1, s1)"
    "dgram_run (xs @ y # zs) (?d, s) = dgram_run (y # zs) (?d\<lparr>ds_ref := ref1\<rparr>, s1)"
    using dgram_run_prefix [of ?d xs s "y # zs"] assms(1) by (auto simp: newDgramServer_def)
  obtain clk accept buf where y: "y = (clk, accept, Some p, buf)" using assms(2) by (cases y) (auto simp: sender_def)
  obtain ref2 s2 where h: "hand_over y (ref1, s1) = (ref2, s2)" by fastforce
  let ?e = "?d\<lparr>ds_peer := Some p, ds_ref := ref2\<rparr>"
  have run: "dgram_run (xs @ y # zs) (?d, s) = dgram_run zs (?e, s2)"
    using h unfolding pre(2) by (simp add: y dgramRx_def dgram_peer_def hand_over_def newDgramServer_def)
  show ?thesis
  proof (cases "list_all (\<lambda>x. sender x \<noteq> None) zs")
    case True
    from dgram_run_bound [of ?e p zs s2] True obtain ref s' where
      "dgram_run zs (?e, s2) = Some (?e\<lparr>ds_peer := peer_after mode p zs, ds_ref := ref\<rparr>, s')"
      "fold hand_over (filter (accepted_from mode p) zs) (ref2, s2) = (ref, s')" by (auto simp: newDgramServer_def)
    then show ?thesis using True pre(1) h by (simp add: run)
  next
    case False
    then show ?thesis using dgram_run_unbound [of ?e p zs s2] by (simp add: run)
  qed
qed

definition dg :: "string option \<Rightarrow> datagram" where
  "dg addr = (\<lparr>at_learn = 0, at_lookup = 0, at_storm = 0\<rparr>, (\<lambda>_. True), addr, [])"

theorem dgram_server_peers_witness:
  "dgram_run [dg (Some ''a''), dg None] (newDgramServer ''u'' ModeOccupy, New []) = None
    \<and> (\<exists>ref s'. dgram_run [dg None, dg (Some ''a''), dg (Some ''b'')] (newDgramServer ''u'' ModeReplace, New []) =
         Some ((newDgramServer ''u'' ModeReplace)\<lparr>ds_peer := Some ''b'', ds_ref := ref\<rparr>, s'))"
  using dgram_server_peers [of "[]" "dg (Some ''a'')" "''a''" "[dg None]" "''u''" ModeOccupy "New []"]
    dgram_server_peers [of "[dg None]" "dg (Some ''a'')" "''a''" "[dg (Some ''b'')]" "''u''" ModeReplace "New []"]
  by (auto simp: sender_def dg_def peer_after_def simp del: dgram_run.simps)

end
