(* ===== verification/VhostPort.thy ===== *)
theory VhostPort
  imports Transports
begin

text \<open>
  The vhost-user port (\<^verbatim>\<open>internal/ports/vhostuser.go\<close>): which session of a VMM a port has, replacing it, and
  its state changes. Sessions are numbers; the device behind one is the subject of the vhost
  theories. The accept loop releases the lock between its parts, so each part is a step.
\<close>

section \<open>State\<close>

record vhostUserPort =
  vp_id :: string
  vp_mode :: string
  vp_accessPlatform :: bool
  vp_ln :: bool
  vp_dev :: "nat option"
  vp_up :: bool
  vp_peer :: string
  vp_closed :: bool

text \<open>Where the accept loop is: waiting; about to close the session it replaces; about to adopt; ended.\<close>

datatype vhost_pc = VWaiting | VKicking nat | VAdopting | VEnded

text \<open>\<open>v_open\<close> tells for every session made so far whether it is open; \<open>v_refused\<close> counts connections closed at once.\<close>

record vhost_world =
  v_port :: vhostUserPort
  v_sw :: switch
  v_open :: "bool list"
  v_pc :: vhost_pc
  v_refused :: nat

definition newVhostUserPort :: "string \<Rightarrow> string \<Rightarrow> bool \<Rightarrow> vhostUserPort" where
  "newVhostUserPort i mode ap = \<lparr>vp_id = i, vp_mode = mode, vp_accessPlatform = ap, vp_ln = False, vp_dev = None,
     vp_up = False, vp_peer = [], vp_closed = False\<rparr>"

definition close_session :: "nat \<Rightarrow> vhost_world \<Rightarrow> vhost_world" where
  "close_session n w = w\<lparr>v_open := (v_open w)[n := False]\<rparr>"

section \<open>Accepting and adopting\<close>

definition vhost_adopt :: "vhost_world \<Rightarrow> vhost_world" where
  "vhost_adopt w = w\<lparr>v_open := v_open w @ [True],
     v_port := (v_port w)\<lparr>vp_dev := Some (length (v_open w)), vp_peer := ''vhost-user''\<rparr>\<rparr>"

definition vhost_accept :: "vhost_world \<Rightarrow> vhost_world" where
  "vhost_accept w =
    (let p = v_port w in
     if v_pc w \<noteq> VWaiting then w
     else if vp_closed p then w\<lparr>v_pc := VEnded, v_refused := v_refused w + 1\<rparr>
     else case vp_dev p of
       Some old \<Rightarrow>
         if vp_mode p = ModeOccupy then w\<lparr>v_refused := v_refused w + 1\<rparr>
         else w\<lparr>v_port := p\<lparr>vp_dev := None\<rparr>, v_pc := VKicking old\<rparr>
     | None \<Rightarrow> w\<lparr>v_pc := VAdopting\<rparr>)"

definition vhost_continue :: "vhost_world \<Rightarrow> vhost_world" where
  "vhost_continue w = (case v_pc w of
       VKicking old \<Rightarrow>
         (let w1 = close_session old w in
          if vp_closed (v_port w1) \<or> vp_dev (v_port w1) \<noteq> None
          then w1\<lparr>v_pc := VWaiting, v_refused := v_refused w1 + 1\<rparr>
          else w1\<lparr>v_pc := VAdopting\<rparr>)
     | VAdopting \<Rightarrow> (vhost_adopt w)\<lparr>v_pc := VWaiting\<rparr>
     | _ \<Rightarrow> w)"

text \<open>The callback of a session: its transmit ring started, or it ended.\<close>

definition vhost_state :: "nat \<Rightarrow> bool \<Rightarrow> vhost_world \<Rightarrow> vhost_world" where
  "vhost_state n up w =
    (let p = v_port w in
     if vp_dev p \<noteq> Some n then w
     else (let p1 = p\<lparr>vp_up := up, vp_dev := (if up then vp_dev p else None)\<rparr>;
               w1 = w\<lparr>v_port := p1\<rparr>
           in if vp_up p \<and> \<not> up then w1\<lparr>v_sw := NotifyDown (vp_id p) (v_sw w)\<rparr> else w1))"

section \<open>The port interface\<close>

text \<open>Sending asks the device; \<open>ok\<close> is its answer.\<close>

definition VhostSend :: "(nat \<Rightarrow> bool) \<Rightarrow> vhost_world \<Rightarrow> bool" where
  "VhostSend ok w = (case vp_dev (v_port w) of None \<Rightarrow> False | Some n \<Rightarrow> ok n)"

definition VhostClose :: "vhost_world \<Rightarrow> vhost_world" where
  "VhostClose w =
    (let p = v_port w in
     if vp_closed p then w
     else (let w1 = w\<lparr>v_port := p\<lparr>vp_closed := True, vp_dev := None, vp_ln := False\<rparr>\<rparr>
           in case vp_dev p of None \<Rightarrow> w1 | Some n \<Rightarrow> close_session n w1))"

definition VhostStatus :: "vhostUserPort \<Rightarrow> Status" where
  "VhostStatus p = \<lparr>Online = (vp_dev p \<noteq> None \<and> vp_up p), Peer = (if vp_dev p = None then [] else vp_peer p), Connections = []\<rparr>"

section \<open>Runs\<close>

datatype vhost_op = VAccept | VContinue | VUp nat | VEnd nat | VClose

text \<open>A session that ends has closed itself before it reports.\<close>

fun exec_vhost :: "vhost_op \<Rightarrow> vhost_world \<Rightarrow> vhost_world" where
  "exec_vhost VAccept w = vhost_accept w"
| "exec_vhost VContinue w = vhost_continue w"
| "exec_vhost (VUp n) w = vhost_state n True w"
| "exec_vhost (VEnd n) w = vhost_state n False (close_session n w)"
| "exec_vhost VClose w = VhostClose w"

definition vhost_world0 :: "vhostUserPort \<Rightarrow> switch \<Rightarrow> vhost_world" where
  "vhost_world0 p sw = \<lparr>v_port = p\<lparr>vp_ln := True\<rparr>, v_sw = sw, v_open = [], v_pc = VWaiting, v_refused = 0\<rparr>"

definition session_open :: "vhost_world \<Rightarrow> nat \<Rightarrow> bool" where
  "session_open w n \<longleftrightarrow> n < length (v_open w) \<and> v_open w ! n"

text \<open>While nothing is half done, an open session is the one the port has.\<close>

definition vhost_inv :: "vhost_world \<Rightarrow> bool" where
  "vhost_inv w \<longleftrightarrow> (\<forall>n. session_open w n \<longrightarrow> vp_dev (v_port w) = Some n \<or> v_pc w = VKicking n)
     \<and> (vp_dev (v_port w) \<noteq> None \<longrightarrow> (\<forall>n. v_pc w \<noteq> VKicking n) \<and> v_pc w \<noteq> VAdopting)
     \<and> (\<forall>n. vp_dev (v_port w) = Some n \<longrightarrow> n < length (v_open w))"

lemma session_open_close [simp]: "session_open (close_session m w) n \<longleftrightarrow> session_open w n \<and> n \<noteq> m"
  by (cases "m = n") (auto simp: session_open_def close_session_def)

lemma session_open_adopt [simp]: "session_open (vhost_adopt w) n \<longleftrightarrow> session_open w n \<or> n = length (v_open w)"
  by (auto simp: session_open_def vhost_adopt_def nth_append)

lemma session_open_sel [simp]:
  "session_open (w\<lparr>v_port := p\<rparr>) n = session_open w n" "session_open (w\<lparr>v_pc := pc\<rparr>) n = session_open w n"
  "session_open (w\<lparr>v_sw := s\<rparr>) n = session_open w n" "session_open (w\<lparr>v_refused := r\<rparr>) n = session_open w n"
  by (simp_all add: session_open_def)

lemma adopt_sel [simp]:
  "v_port (vhost_adopt w) = (v_port w)\<lparr>vp_dev := Some (length (v_open w)), vp_peer := ''vhost-user''\<rparr>"
  "v_pc (vhost_adopt w) = v_pc w" "length (v_open (vhost_adopt w)) = Suc (length (v_open w))"
  by (simp_all add: vhost_adopt_def)

lemma close_session_sel [simp]:
  "v_port (close_session n w) = v_port w" "v_pc (close_session n w) = v_pc w" "v_sw (close_session n w) = v_sw w"
  "length (v_open (close_session n w)) = length (v_open w)"
  by (simp_all add: close_session_def)

lemma vhost_inv_state: "vhost_inv w \<Longrightarrow> up \<or> \<not> session_open w n \<Longrightarrow> vhost_inv (vhost_state n up w)"
  by (cases up) (auto simp: vhost_inv_def vhost_state_def Let_def)

lemma vhost_inv_exec: "vhost_inv w \<Longrightarrow> vhost_inv (exec_vhost op w)"
proof (cases op)
  case VContinue
  assume "vhost_inv w"
  then show ?thesis using VContinue
    by (cases "v_pc w") (auto simp: vhost_inv_def vhost_continue_def Let_def)
next
  case (VEnd n)
  assume "vhost_inv w"
  then have "vhost_inv (close_session n w)" by (auto simp: vhost_inv_def)
  then show ?thesis using VEnd vhost_inv_state by simp
next
  case (VUp n)
  then show "vhost_inv w \<Longrightarrow> ?thesis" using vhost_inv_state by simp
qed (auto simp: vhost_inv_def vhost_accept_def VhostClose_def Let_def split: option.splits)

interpretation vhost_port: invariant_system exec_vhost vhost_inv
  by unfold_locales (rule vhost_inv_exec)

lemma vhost_inv_new: "vhost_inv (vhost_world0 (newVhostUserPort i mode ap) sw)"
  by (simp add: vhost_inv_def vhost_world0_def newVhostUserPort_def session_open_def)

text \<open>At any time a port has at most one session besides the one it is replacing.\<close>

theorem vhost_sessions_accounted:
  "session_open w n \<Longrightarrow> w = fold exec_vhost ops (vhost_world0 (newVhostUserPort i mode ap) sw) \<Longrightarrow>
     vp_dev (v_port w) = Some n \<or> v_pc w = VKicking n"
  using vhost_port.inv_run [OF vhost_inv_new, of ops i mode ap sw] by (auto simp: vhost_inv_def)

text \<open>
  C22. Two interleavings a vhost-user port does not handle. Closing the port after its accept loop has
  looked at the closed flag and before it adopts the connection leaves an open session on a closed
  port, which nothing closes any more. And replacing a session that was up shows the port as online before
  the new session has started its rings, without the switch being told that the old peer went away.
\<close>

theorem vhost_session_races:
  assumes "mode \<noteq> ModeOccupy"
  shows "(\<exists>ops. let w = fold exec_vhost ops (vhost_world0 (newVhostUserPort i mode ap) sw) in
      vp_closed (v_port w) \<and> v_pc w = VWaiting \<and> session_open w 0)
    \<and> (\<exists>ops. let w = fold exec_vhost ops (vhost_world0 (newVhostUserPort i mode ap) sw) in
      VUp 1 \<notin> set ops \<and> vp_dev (v_port w) = Some 1 \<and> Online (VhostStatus (v_port w)) \<and> \<not> session_open w 0 \<and> v_sw w = sw)"
  by (intro conjI exI [of _ "[VAccept, VClose, VContinue]"]
      exI [of _ "[VAccept, VContinue, VUp 0, VAccept, VContinue, VEnd 0, VContinue]"])
    (use assms in \<open>simp_all add: vhost_world0_def newVhostUserPort_def vhost_accept_def vhost_continue_def vhost_adopt_def
      vhost_state_def VhostClose_def VhostStatus_def close_session_def session_open_def Let_def\<close>)

theorem vhost_session_races_witness:
  "(\<exists>ops. let w = fold exec_vhost ops (vhost_world0 (newVhostUserPort ''vm'' ModeReplace False) (New [])) in
      vp_closed (v_port w) \<and> v_pc w = VWaiting \<and> session_open w 0)
    \<and> (\<exists>ops. let w = fold exec_vhost ops (vhost_world0 (newVhostUserPort ''vm'' ModeReplace False) (New [])) in
      VUp 1 \<notin> set ops \<and> vp_dev (v_port w) = Some 1 \<and> Online (VhostStatus (v_port w)) \<and> \<not> session_open w 0 \<and> v_sw w = New [])"
  using vhost_session_races [of ModeReplace "''vm''" False "New []"] by (simp add: mode_defs)

end
