(* ===== verification/KernelPorts.thy ===== *)
theory KernelPorts
  imports Transports "HOL-Library.Multiset"
begin

text \<open>
  Ports on kernel devices: TAP interfaces (\<^verbatim>\<open>internal/ports/tap.go\<close>) and AF_XDP sockets
  (\<^verbatim>\<open>internal/ports/afxdp.go\<close>). The libraries the source calls (netlink, ebpf, xdp) answer through an
  argument. A construction that fails gives back what it acquired, and a lost interface is
  noticed.
\<close>

section \<open>TAP devices\<close>

record TapConfig =
  tap_ID :: string
  tap_Name :: string
  tap_Bridge :: string
  tap_AddToBr :: bool

text \<open>The device file: one read is one frame, into the same kind of buffer as a datagram socket's.\<close>

definition newTapIO :: "byte list list \<Rightarrow> frameIO" where
  "newTapIO arriving = Dgram (newDgramIO arriving)"

text \<open>Calls of the netlink library; the answer is an error text or none.\<close>

datatype tap_call = TLinkAdd | TQueueFd | TLinkByName | TIsBridge | TSetMaster | TSetUp

datatype tap_res = TapFds | TapLink

text \<open>The first result of a construction, what it acquired and what it released.\<close>

type_synonym ('e, 'p, 'r) built = "('e + 'p) \<times> 'r list \<times> 'r list"

definition tap_cleanup :: "string \<Rightarrow> (port_error, tapPort, tap_res) built" where
  "tap_cleanup e = (Inl (TapFailed e), [TapLink, TapFds], [TapFds, TapLink])"

definition tap_bridge :: "(tap_call \<Rightarrow> string option) \<Rightarrow> TapConfig \<Rightarrow> string option" where
  "tap_bridge os c =
    (if \<not> tap_AddToBr c then None
     else case os TLinkByName of
       Some e \<Rightarrow> Some e
     | None \<Rightarrow> (case os TIsBridge of Some e \<Rightarrow> Some e | None \<Rightarrow> os TSetMaster))"

definition NewTap :: "(tap_call \<Rightarrow> string option) \<Rightarrow> TapConfig \<Rightarrow> (port_error, tapPort, tap_res) built" where
  "NewTap os c =
    (if tap_Name c = [] then (Inl TapNeedsName, [], [])
     else if tap_AddToBr c \<and> tap_Bridge c = [] then (Inl TapNeedsBridge, [], [])
     else case os TLinkAdd of
       Some e \<Rightarrow> (Inl (TapFailed e), [], [])
     | None \<Rightarrow>
         (case os TQueueFd of
            Some e \<Rightarrow> (Inl (TapFailed e), [TapLink], [TapLink])
          | None \<Rightarrow>
              (case tap_bridge os c of
                 Some e \<Rightarrow> tap_cleanup e
               | None \<Rightarrow>
                   (case os TSetUp of
                      Some e \<Rightarrow> tap_cleanup e
                    | None \<Rightarrow>
                        (Inr \<lparr>tp_port = newClientPort (tap_ID c) (tap_Name c) (newTapIO []), tp_link = True\<rparr>,
                         [TapLink, TapFds], [])))))"

section \<open>AF_XDP sockets\<close>

record AFXDPConfig =
  xdp_ID :: string
  xdp_Interface :: string
  xdp_QueueID :: int

definition afxdpMaxQueues :: int where "afxdpMaxQueues = 64"

datatype xdp_call = XLinkByName | XLinkSetUp | XPromiscOn | XNewMap | XNewProgram | XAttachNative | XAttachGeneric
  | XNewSocket | XMapUpdate

datatype xdp_res = RPromisc | RMap | RProgram | RLink | RSocket

text \<open>\<open>ap_held\<close>: the kernel resources the fields of the port hold.\<close>

record afxdpPort =
  ap_id :: string
  ap_iface :: string
  ap_ref :: PortRef
  ap_held :: "xdp_res list"
  ap_closed :: bool

definition teardown :: "xdp_res list \<Rightarrow> xdp_res list" where
  "teardown h = filter (\<lambda>r. r \<in> set h) [RSocket, RLink, RProgram, RMap, RPromisc]"

definition xdp_fail :: "xdp_res list \<Rightarrow> string \<Rightarrow> (port_error, afxdpPort, xdp_res) built" where
  "xdp_fail h e = (Inl (XdpFailed e), h, teardown h)"

text \<open>\<^verbatim>\<open>buildRedirectObjects\<close>: the error, and what it acquired and released.\<close>

definition buildRedirectObjects :: "(xdp_call \<Rightarrow> string option) \<Rightarrow> string option \<times> xdp_res list \<times> xdp_res list" where
  "buildRedirectObjects os = (case os XNewMap of
       Some e \<Rightarrow> (Some e, [], [])
     | None \<Rightarrow> (case os XNewProgram of
         Some e \<Rightarrow> (Some e, [RMap], [RMap])
       | None \<Rightarrow> (None, [RMap, RProgram], [])))"

definition attachXDP :: "(xdp_call \<Rightarrow> string option) \<Rightarrow> string option" where
  "attachXDP os = (if os XAttachNative = None then None else os XAttachGeneric)"

definition NewAFXDP :: "(xdp_call \<Rightarrow> string option) \<Rightarrow> bool \<Rightarrow> AFXDPConfig \<Rightarrow> (port_error, afxdpPort, xdp_res) built" where
  "NewAFXDP os promisc c =
    (if xdp_Interface c = [] then (Inl XdpNeedsInterface, [], [])
     else if xdp_QueueID c < 0 \<or> xdp_QueueID c \<ge> afxdpMaxQueues then (Inl XdpQueueRange, [], [])
     else case os XLinkByName of Some e \<Rightarrow> (Inl (XdpFailed e), [], []) | None \<Rightarrow>
     (case os XLinkSetUp of Some e \<Rightarrow> (Inl (XdpFailed e), [], []) | None \<Rightarrow>
     (case (if promisc then None else os XPromiscOn) of Some e \<Rightarrow> xdp_fail [] e | None \<Rightarrow>
     (let h = (if promisc then [] else [RPromisc]) in
      case buildRedirectObjects os of
        (Some e, got, gave) \<Rightarrow> (Inl (XdpFailed e), h @ got, gave @ teardown h)
      | (None, got, gave) \<Rightarrow>
          (case attachXDP os of Some e \<Rightarrow> xdp_fail (h @ got) e | None \<Rightarrow>
          (case os XNewSocket of Some e \<Rightarrow> xdp_fail (h @ got @ [RLink]) e | None \<Rightarrow>
          (case os XMapUpdate of Some e \<Rightarrow> xdp_fail (h @ got @ [RLink, RSocket]) e | None \<Rightarrow>
             (Inr \<lparr>ap_id = xdp_ID c, ap_iface = xdp_Interface c, ap_ref = Ref (xdp_ID c),
                   ap_held = h @ got @ [RLink, RSocket], ap_closed = False\<rparr>,
              h @ got @ [RLink, RSocket], []))))))))"

text \<open>Closing; the second result is what it released.\<close>

definition XdpClose :: "afxdpPort \<Rightarrow> afxdpPort \<times> xdp_res list" where
  "XdpClose p = (if ap_closed p then (p, []) else (p\<lparr>ap_closed := True, ap_held := []\<rparr>, teardown (ap_held p)))"

definition linkGone :: "afxdpPort \<times> switch \<Rightarrow> afxdpPort \<times> switch" where
  "linkGone ps = (case ps of (p, s) \<Rightarrow> if ap_closed p then (p, s) else (fst (XdpClose p), NotifyDown (ap_id p) s))"

text \<open>Sending: \<open>room\<close> is whether the transmit ring has a free slot.\<close>

definition XdpSend :: "bool \<Rightarrow> frame \<Rightarrow> afxdpPort \<Rightarrow> bool" where
  "XdpSend room fr p = (if ap_closed p then False else if length fr > 3584 then False else room)"

definition XdpStatus :: "afxdpPort \<Rightarrow> Status" where
  "XdpStatus p = \<lparr>Online = (\<not> ap_closed p), Peer = ap_iface p, Connections = []\<rparr>"

text \<open>
  One turn of the receive loop. What \<^verbatim>\<open>poll\<close> and the rings report: an error other than an interrupted
  call, its result (\<open>-1\<close> when interrupted), the error flags, whether the interface exists, and the
  frames in the receive ring.
\<close>

record xdp_poll =
  pl_error :: bool
  pl_n :: int
  pl_hup :: bool
  pl_exists :: bool
  pl_frames :: "frame list"

record xdp_loop =
  xl_running :: bool
  xl_idle :: nat
  xl_port :: afxdpPort
  xl_sw :: switch

definition xdp_gone :: "xdp_loop \<Rightarrow> xdp_loop" where
  "xdp_gone x = (let (p, s) = linkGone (xl_port x, xl_sw x) in x\<lparr>xl_running := False, xl_port := p, xl_sw := s\<rparr>)"

definition xdp_deliver :: "clock \<Rightarrow> (eref \<Rightarrow> bool) \<Rightarrow> frame list \<Rightarrow> xdp_loop \<Rightarrow> xdp_loop" where
  "xdp_deliver clk accept frs x =
    (let (ref, s) = fold (RefDeliver clk accept) frs (ap_ref (xl_port x), xl_sw x)
     in x\<lparr>xl_port := (xl_port x)\<lparr>ap_ref := ref\<rparr>, xl_sw := s\<rparr>)"

definition xdpRx :: "clock \<Rightarrow> (eref \<Rightarrow> bool) \<Rightarrow> bool \<Rightarrow> xdp_poll \<Rightarrow> xdp_loop \<Rightarrow> xdp_loop" where
  "xdpRx clk accept pollFallback pl x =
    (if \<not> xl_running x then x
     else if pl_error pl then x\<lparr>xl_running := False\<rparr>
     else if ap_closed (xl_port x) then x\<lparr>xl_running := False\<rparr>
     else if pl_n pl > 0 \<and> pl_hup pl then
       (if \<not> pl_exists pl then xdp_gone x else xdp_deliver clk accept (pl_frames pl) x)
     else if pollFallback \<and> pl_n pl = 0 then
       (let idle = xl_idle x + 1 in
        if idle \<ge> 4 then (if \<not> pl_exists pl then xdp_gone (x\<lparr>xl_idle := 0\<rparr>) else x\<lparr>xl_idle := 0\<rparr>)
        else x\<lparr>xl_idle := idle\<rparr>)
     else if pl_n pl = 0 then x
     else xdp_deliver clk accept (pl_frames pl) x)"

text \<open>An update of the link watcher: the interface it names was deleted, or something else happened.\<close>

definition watchLink :: "bool \<Rightarrow> xdp_loop \<Rightarrow> xdp_loop" where
  "watchLink deleted x =
    (if ap_closed (xl_port x) then x
     else if deleted then (let (p, s) = linkGone (xl_port x, xl_sw x) in x\<lparr>xl_port := p, xl_sw := s\<rparr>)
     else x)"

section \<open>Resources are given back\<close>

lemma teardown_mset: "distinct h \<Longrightarrow> mset (teardown h) = mset h"
proof -
  assume d: "distinct h"
  have "r \<in> set (teardown h) \<longleftrightarrow> r \<in> set h" for r by (cases r) (simp_all add: teardown_def)
  then have "set (teardown h) = set h" by blast
  moreover have "distinct (teardown h)" by (simp add: teardown_def)
  ultimately show ?thesis using d by (simp add: set_eq_iff_mset_eq_distinct)
qed

lemma teardown_Nil [simp]: "teardown [] = []"
  by (simp add: teardown_def)

lemma afxdp_no_leak:
  "NewAFXDP os promisc c = (Inl e, got, gave) \<Longrightarrow> mset gave = mset got"
  by (auto simp: NewAFXDP_def buildRedirectObjects_def xdp_fail_def Let_def teardown_mset
      split: if_splits option.splits)

lemma afxdp_close_all:
  "NewAFXDP os promisc c = (Inr p, got, gave) \<Longrightarrow>
     gave = [] \<and> mset (snd (XdpClose p)) = mset got \<and> snd (XdpClose (fst (XdpClose p))) = []"
  by (auto simp: NewAFXDP_def buildRedirectObjects_def xdp_fail_def XdpClose_def Let_def teardown_mset
      split: if_splits option.splits)

lemma tap_no_leak: "NewTap os c = (Inl e, got, gave) \<Longrightarrow> mset gave = mset got"
  by (auto simp: NewTap_def tap_cleanup_def split: if_splits option.splits)

text \<open>
  Without link notifications a vanished interface is noticed: four quiet turns of the loop in a row take the port
  down, whatever the idle counter was.
\<close>

definition quiet_gone :: "xdp_poll \<Rightarrow> bool" where
  "quiet_gone pl \<longleftrightarrow> \<not> pl_error pl \<and> pl_n pl = 0 \<and> \<not> pl_exists pl"

lemma xdpRx_quiet:
  assumes "xl_running x" "\<not> ap_closed (xl_port x)" "quiet_gone pl"
  shows "xdpRx clk accept True pl x = (if xl_idle x \<ge> 3 then xdp_gone (x\<lparr>xl_idle := 0\<rparr>) else x\<lparr>xl_idle := xl_idle x + 1\<rparr>)"
  using assms by (simp add: xdpRx_def quiet_gone_def Let_def)

lemma xdpRx_stopped: "\<not> xl_running x \<Longrightarrow> fold (xdpRx clk accept fb) pls x = x"
  by (induction pls) (simp_all add: xdpRx_def)

lemma xdp_gone_down: "\<not> ap_closed (xl_port x) \<Longrightarrow>
    \<not> xl_running (xdp_gone x) \<and> ap_closed (xl_port (xdp_gone x))
    \<and> xl_sw (xdp_gone x) = NotifyDown (ap_id (xl_port x)) (xl_sw x)"
  by (simp add: xdp_gone_def linkGone_def XdpClose_def)

lemma vanished_link_noticed:
  assumes "xl_running x" "\<not> ap_closed (xl_port x)" "list_all quiet_gone pls" "length pls + xl_idle x \<ge> 4"
    "pls \<noteq> []"
  shows "\<not> xl_running (fold (xdpRx clk accept True) pls x)
    \<and> ap_closed (xl_port (fold (xdpRx clk accept True) pls x))
    \<and> xl_sw (fold (xdpRx clk accept True) pls x) = NotifyDown (ap_id (xl_port x)) (xl_sw x)"
  using assms
proof (induction pls arbitrary: x)
  case (Cons pl pls)
  show ?case
  proof (cases "xl_idle x \<ge> 3")
    case True
    then show ?thesis
      using Cons.prems xdp_gone_down [of "x\<lparr>xl_idle := 0\<rparr>"]
      by (simp add: xdpRx_quiet xdpRx_stopped)
  next
    case False
    then have "pls \<noteq> []" using Cons.prems by auto
    then show ?thesis
      using Cons.IH [of "x\<lparr>xl_idle := xl_idle x + 1\<rparr>"] Cons.prems False by (simp add: xdpRx_quiet)
  qed
qed simp

text \<open>
  A kernel port gives back every descriptor, program and flag it acquired exactly once: when its construction fails,
  at whatever call, what it released is what it had acquired; when it succeeds it holds all it acquired, closing it
  releases that and nothing else, and closing it again releases nothing.
\<close>

theorem afxdp_resources_balanced:
  "case NewAFXDP os promisc c of
     (Inl e, got, gave) \<Rightarrow> mset gave = mset got
   | (Inr p, got, gave) \<Rightarrow> gave = [] \<and> mset (snd (XdpClose p)) = mset got \<and> snd (XdpClose (fst (XdpClose p))) = []"
proof -
  obtain r got gave where n: "NewAFXDP os promisc c = (r, got, gave)" by (metis prod_cases3)
  show ?thesis
    using afxdp_no_leak [of os promisc c _ got gave] afxdp_close_all [of os promisc c _ got gave] n
    by (cases r) auto
qed

end
