(* ===== verification/ManagedPorts.thy ===== *)
theory ManagedPorts
  imports VhostPort KernelPorts
begin

text \<open>
  The constructors of the ports (\<^verbatim>\<open>NewServer\<close>, \<^verbatim>\<open>NewClient\<close>, \<^verbatim>\<open>NewVhostUser\<close> of \<^verbatim>\<open>internal/ports\<close>) and what the
  manager sees of a port: its status and, for stream servers, the attributes its subports inherit.
\<close>

section \<open>Managed ports\<close>

datatype ManagedPort = MStream streamServer | MDgram dgramServer | MClient clientPort | MTap tapPort | MVhost vhostUserPort
  | MXdp afxdpPort

definition port_Status :: "ManagedPort \<Rightarrow> Status" where
  "port_Status p = (case p of
       MStream s \<Rightarrow> ServerStatus s
     | MDgram d \<Rightarrow> DgramStatus d
     | MClient c \<Rightarrow> ClientStatus c
     | MTap t \<Rightarrow> TapStatus t
     | MVhost v \<Rightarrow> VhostStatus v
     | MXdp x \<Rightarrow> XdpStatus x)"

text \<open>
  Stream servers are the only ports with subports: the attributes new subports get, and the
  subports whose attributes the switch has to change.
\<close>

definition sub_updater :: "PortAttrs \<Rightarrow> ManagedPort \<Rightarrow> ManagedPort \<times> string list" where
  "sub_updater a p = (case p of MStream s \<Rightarrow> (MStream (s\<lparr>ss_attrs := a\<rparr>), map fst (ss_subs s)) | _ \<Rightarrow> (p, []))"

section \<open>Constructors\<close>

text \<open>The second result is the paths removed from the file system.\<close>

type_synonym new_port = "(port_error + ManagedPort) \<times> string list"

record ServerConfig =
  sc_ID :: string
  sc_Transport :: string
  sc_Listen :: string
  sc_Mode :: string
  sc_Attrs :: PortAttrs

definition start_stream :: "net_os \<Rightarrow> ServerConfig \<Rightarrow> new_port" where
  "start_stream os c = (case listenStream os (sc_Transport c) (sc_Listen c) of
       (Some e, rm) \<Rightarrow> (Inl (ListenFailed (sc_Transport c) (sc_Listen c) e), rm)
     | (None, rm) \<Rightarrow> (Inr (MStream (newStreamServer (sc_ID c) (sc_Mode c) (sc_Attrs c))), rm))"

definition start_dgram :: "net_os \<Rightarrow> ServerConfig \<Rightarrow> new_port" where
  "start_dgram os c = (case listenPacket os (sc_Transport c) (sc_Listen c) of
       (Some e, rm) \<Rightarrow> (Inl (ListenFailed (sc_Transport c) (sc_Listen c) e), rm)
     | (None, rm) \<Rightarrow> (Inr (MDgram (newDgramServer (sc_ID c) (sc_Mode c))), rm))"

definition NewServer :: "net_os \<Rightarrow> ServerConfig \<Rightarrow> new_port" where
  "NewServer os c = (case validateTransport (sc_Transport c) of
       Some e \<Rightarrow> (Inl e, [])
     | None \<Rightarrow>
         (let start = (\<lambda>c. if isDgramTransport (sc_Transport c) then start_dgram os c else start_stream os c) in
          if sc_Mode c = ModeReplace \<or> sc_Mode c = ModeOccupy then start c
          else if sc_Mode c = ModeMultiplex then
            (if isDgramTransport (sc_Transport c) then (Inl MultiplexDatagram, []) else start c)
          else if sc_Mode c = [] then start (c\<lparr>sc_Mode := ModeReplace\<rparr>)
          else (Inl (UnknownReplacingMode (sc_Mode c)), [])))"

record ClientConfig =
  cc_ID :: string
  cc_Transport :: string
  cc_Local :: string
  cc_Remote :: string

text \<open>\<open>peer\<close> is the text of the remote address of the connection.\<close>

definition NewClient :: "net_os \<Rightarrow> string \<Rightarrow> ClientConfig \<Rightarrow> new_port" where
  "NewClient os peer c = (case validateTransport (cc_Transport c) of
       Some e \<Rightarrow> (Inl e, [])
     | None \<Rightarrow>
         (let strm = isStreamTransport (cc_Transport c);
              (err, rm) = (if strm then dialStream os (cc_Transport c) (cc_Local c) (cc_Remote c)
                           else dialDgram os (cc_Transport c) (cc_Local c) (cc_Remote c)) in
          case err of
            Some e \<Rightarrow> (Inl (DialFailed (cc_Transport c) (cc_Remote c) e), rm)
          | None \<Rightarrow>
              (Inr (MClient (newClientPort (cc_ID c) peer
                 (if strm then Stream (newStreamIO []) else Dgram (newDgramIO [])))), rm)))"

record VhostUserConfig =
  vc_ID :: string
  vc_Mode :: string
  vc_Path :: string
  vc_ReplacingMode :: string
  vc_AccessPlatform :: bool

definition NewVhostUser :: "net_os \<Rightarrow> VhostUserConfig \<Rightarrow> new_port" where
  "NewVhostUser os c =
    (let p = newVhostUserPort (vc_ID c) (vc_ReplacingMode c) (vc_AccessPlatform c) in
     if vc_Mode c = ''client'' then
       (case answer (os_dial os ''unix'' [] (vc_Path c)) of
          Some e \<Rightarrow> (Inl (VhostDialFailed (vc_Path c) e), [])
        | None \<Rightarrow> (Inr (MVhost (p\<lparr>vp_dev := Some 0, vp_peer := ''vhost-user''\<rparr>)), []))
     else if vc_Mode c = ''server'' then
       (if vc_ReplacingMode c \<notin> {[], ModeReplace, ModeOccupy} then (Inl VhostReplacingMode, [])
        else (let rm = removeStaleSocket os (vc_Path c) in
              case answer (os_listen os 0 ''unix'' (vc_Path c)) of
                Some e \<Rightarrow> (Inl (VhostListenFailed (vc_Path c) e), rm)
              | None \<Rightarrow> (Inr (MVhost (p\<lparr>vp_ln := True\<rparr>)), rm)))
     else (Inl (VhostBadMode (vc_Mode c)), []))"

section \<open>Constructed ports\<close>

text \<open>
  A server port is built only with a mode its accept loop knows, and a datagram server never with
  the multiplexing one. It starts with nobody connected.
\<close>

lemma new_server_modes:
  assumes "NewServer os c = (Inr p, rm)"
  shows "(\<exists>s. p = MStream s \<and> ss_mode s \<in> {ModeReplace, ModeOccupy, ModeMultiplex} \<and> ss_id s = sc_ID c \<and> ss_attrs s = sc_Attrs c)
    \<or> (\<exists>d. p = MDgram d \<and> ds_mode d \<in> {ModeReplace, ModeOccupy} \<and> ds_id d = sc_ID c)"
  using assms
  by (auto simp: NewServer_def start_stream_def start_dgram_def newStreamServer_def newDgramServer_def Let_def
      split: option.splits if_splits prod.splits)

lemma new_server_offline:
  "NewServer os c = (Inr p, rm) \<Longrightarrow> \<not> Online (port_Status p) \<and> Connections (port_Status p) = []"
  by (auto simp: NewServer_def start_stream_def start_dgram_def newStreamServer_def newDgramServer_def Let_def
      port_Status_def ServerStatus_def DgramStatus_def split: option.splits if_splits prod.splits)

text \<open>A stream server never removes the socket of a process that still accepts on it.\<close>

lemma live_socket_kept: "os_alive os path \<Longrightarrow> path \<notin> set (snd (listenStream os transport path))"
  by (simp add: listenStream_def unixSocketIsStale_def Let_def)

end
