(* ===== verification/ApiTypes.thy ===== *)
theory ApiTypes
  imports Gateway ManagedPorts StpStatus
begin

text \<open>
  The requests and answers of the control plane (\<^verbatim>\<open>internal/api/types.go\<close> and the types of
  \<^verbatim>\<open>internal/api/gateway.go\<close>), and the conversions of their policy fields. They stand for the values JSON
  decoding gives; an omitted field that matters is \<^const>\<open>None\<close>.
\<close>

section \<open>Ports\<close>

text \<open>The identifier is matched as a whole against letters, digits, dot, underscore and dash.\<close>

definition id_char :: "char \<Rightarrow> bool" where
  "id_char c \<longleftrightarrow> (let n = (of_char c :: nat) in
     65 \<le> n \<and> n \<le> 90 \<or> 97 \<le> n \<and> n \<le> 122 \<or> 48 \<le> n \<and> n \<le> 57 \<or> c = CHR ''.'' \<or> c = CHR ''_'' \<or> c = CHR ''-'')"

datatype api_error = BadIdentifier | BadPortSecurityMAC string | BadPortSecurity

definition ValidateIdentifier :: "string \<Rightarrow> api_error option" where
  "ValidateIdentifier i = (if i \<noteq> [] \<and> list_all id_char i then None else Some BadIdentifier)"

record PortRequest =
  r_Identifier :: string
  r_VLAN :: "int option"
  r_Isolated :: bool
  r_PortSecurity :: "string option"
  r_Enabled :: "bool option"
  r_AutoRemove :: "bool option"
  r_Mode :: string
  r_Transport :: string
  r_Local :: string
  r_Remote :: string
  r_ReplacingMode :: string
  r_AccessPlatform :: bool
  r_TapName :: string
  r_Bridge :: string
  r_Interface :: string
  r_QueueID :: int
  r_BPDUGuard :: bool
  r_LoopDetect :: bool
  r_StormPPS :: u32
  r_STP :: bool
  r_STPCost :: u32
  r_STPPriority :: byte

definition Attrs :: "PortRequest \<Rightarrow> api_error + PortAttrs" where
  "Attrs r =
    (let a = \<lparr>SecurityMAC = None, Isolated = r_Isolated r,
              VLAN = (case r_VLAN r of None \<Rightarrow> VLANTrunk | Some v \<Rightarrow> v),
              Disabled = (case r_Enabled r of None \<Rightarrow> False | Some e \<Rightarrow> \<not> e),
              BPDUGuard = r_BPDUGuard r, LoopDetect = r_LoopDetect r, StormPPS = r_StormPPS r,
              STP = r_STP r, STPCost = r_STPCost r, STPPriority = r_STPPriority r\<rparr>
     in case r_PortSecurity r of
          None \<Rightarrow> Inr a
        | Some t \<Rightarrow> (case ParseMAC t of
              None \<Rightarrow> Inl (BadPortSecurityMAC t)
            | Some mac \<Rightarrow> Inr (a\<lparr>SecurityMAC := Some mac\<rparr>)))"

text \<open>A raw JSON value, which decoding has already checked to be one.\<close>

datatype json_value = JNull | JString string | JOther

record PortPatch =
  p_VLAN :: "int option"
  p_Isolated :: "bool option"
  p_PortSecurity :: "json_value option"
  p_Enabled :: "bool option"
  p_BPDUGuard :: "bool option"
  p_LoopDetect :: "bool option"
  p_StormPPS :: "u32 option"
  p_STP :: "bool option"
  p_STPCost :: "u32 option"
  p_STPPriority :: "byte option"

definition set_or :: "'a option \<Rightarrow> 'a \<Rightarrow> 'a" where
  "set_or v old = (case v of None \<Rightarrow> old | Some x \<Rightarrow> x)"

definition Apply :: "PortPatch \<Rightarrow> PortAttrs \<Rightarrow> api_error + PortAttrs" where
  "Apply p a0 =
    (let a = a0\<lparr>VLAN := set_or (p_VLAN p) (VLAN a0), Isolated := set_or (p_Isolated p) (Isolated a0),
                Disabled := (case p_Enabled p of None \<Rightarrow> Disabled a0 | Some e \<Rightarrow> \<not> e),
                BPDUGuard := set_or (p_BPDUGuard p) (BPDUGuard a0), LoopDetect := set_or (p_LoopDetect p) (LoopDetect a0),
                StormPPS := set_or (p_StormPPS p) (StormPPS a0), STP := set_or (p_STP p) (STP a0),
                STPCost := set_or (p_STPCost p) (STPCost a0), STPPriority := set_or (p_STPPriority p) (STPPriority a0)\<rparr>
     in case p_PortSecurity p of
          None \<Rightarrow> Inr a
        | Some JNull \<Rightarrow> Inr (a\<lparr>SecurityMAC := None\<rparr>)
        | Some (JString t) \<Rightarrow> (case ParseMAC t of
              None \<Rightarrow> Inl (BadPortSecurityMAC t)
            | Some mac \<Rightarrow> Inr (a\<lparr>SecurityMAC := Some mac\<rparr>))
        | Some JOther \<Rightarrow> Inl BadPortSecurity)"

record PortInfo =
  i_Identifier :: string
  i_VLAN :: int
  i_Isolated :: bool
  i_PortSecurity :: "string option"
  i_Enabled :: bool
  i_AutoRemove :: bool
  i_Mode :: string
  i_Transport :: string
  i_Local :: string
  i_Remote :: string
  i_ReplacingMode :: string
  i_TapName :: string
  i_Bridge :: string
  i_Interface :: string
  i_QueueID :: int
  i_BPDUGuard :: bool
  i_LoopDetect :: bool
  i_StormPPS :: u32
  i_STP :: bool
  i_STPCost :: u32
  i_STPPriority :: byte
  i_STPState :: string
  i_STPRole :: string
  i_BlockedReason :: string
  i_Online :: bool
  i_Peer :: string
  i_Connections :: "string list"
  i_Stats :: PortStats

section \<open>The forwarding database and the spanning tree\<close>

record FDBRow =
  row_VLAN :: int
  row_MAC :: string
  row_Port :: string
  row_AgeSeconds :: int
  row_Static :: bool

record StaticFDBRequest =
  sf_VLAN :: int
  sf_MAC :: string
  sf_Port :: string

record FDBFlushRequest =
  ff_Port :: string
  ff_VLAN :: "int option"

record FDBConfig =
  AgingSeconds :: int

record STPRequest =
  sr_Enabled :: bool
  sr_Priority :: u16
  sr_HelloSeconds :: int
  sr_MaxAgeSeconds :: int
  sr_ForwardDelaySeconds :: int

type_synonym STPResponse = "STPStatus \<times> (string, STPPortStatus) gomap"

section \<open>Gateways\<close>

record GatewayV4 =
  g4_Address :: string
  g4_PrefixLen :: int

record GatewayV6 =
  g6_Address :: string
  g6_PrefixLen :: int
  g6_LinkLocal :: string

record GatewayRequest =
  gr_VLAN :: int
  gr_MAC :: string
  gr_Isolated :: bool
  gr_MTU :: int
  gr_IPv4 :: "GatewayV4 option"
  gr_IPv6 :: "GatewayV6 option"
  gr_EnableInternetRouting :: bool
  gr_EnableHostRouting :: bool
  gr_Allow :: "string list"
  gr_Deny :: "string list"
  gr_DNSProxy :: bool

record GatewayInfo =
  gi_GatewayRequest :: GatewayRequest
  gi_MACEffective :: string
  gi_LinkLocalEffective :: string
  gi_Stats :: PortStats

record ForwardRequest =
  fq_Type :: string
  fq_Network :: string
  fq_Bind :: string
  fq_Host :: string

record ForwardInfo =
  fi_ID :: string
  fi_ForwardRequest :: ForwardRequest

record DHCP4Config =
  dc_Enabled :: bool
  dc_PoolStart :: string
  dc_PoolEnd :: string
  dc_LeaseSeconds :: int
  dc_DNS :: "string list"

type_synonym DHCP6Config = DHCP4Config

record DHCPStaticBinding =
  ab_ID :: string
  ab_Order :: int
  ab_PortIdentifier :: "string option"
  ab_MAC :: "string option"
  ab_ClientID :: "string option"
  ab_IP :: string

text \<open>The expiry is the time itself; its text form is not modelled.\<close>

record LeaseInfo =
  li_IP :: string
  li_MAC :: string
  li_ClientID :: string
  li_PortIdentifier :: string
  li_ExpiresAt :: time
  li_Static :: bool

record api_RAPrefix =
  ap_Prefix :: string
  ap_ValidLifetime :: int
  ap_PreferredLifetime :: int
  ap_OnLink :: bool
  ap_Autonomous :: bool

record api_SLAACConfig =
  as_Enabled :: bool
  as_IntervalSeconds :: int
  as_Managed :: bool
  as_Other :: bool
  as_RouterLifetimeSeconds :: int
  as_Prefixes :: "api_RAPrefix list"

section \<open>Identifiers\<close>

text \<open>The names of subports contain a character no identifier has.\<close>

lemma valid_identifier: "ValidateIdentifier i = None \<longleftrightarrow> i \<noteq> [] \<and> (\<forall>c\<in>set i. id_char c)"
  by (simp add: ValidateIdentifier_def list_all_iff)

lemma identifier_no_at: "ValidateIdentifier i = None \<Longrightarrow> CHR ''@'' \<notin> set i"
  by (auto simp: valid_identifier id_char_def)

end
