(* ===== verification/Registry.thy ===== *)
theory Registry
  imports SwitchInv
begin

text \<open>
  What only the management operations of the switch change: the registry and the policy of the
  ports. Neither frames nor the spanning tree nor the clocks touch them; loop protection changes
  whether a port is enabled and nothing else.
\<close>

definition entry_policy :: "portEntry \<Rightarrow> string \<times> PortAttrs" where
  "entry_policy e = (pe_id e, (attrs e)\<lparr>Disabled := False\<rparr>)"

definition registry :: "switch \<Rightarrow> (string, eref) gomap \<times> (string \<times> PortAttrs) list" where
  "registry s = (ports s, map entry_policy (store s))"

lemma registry_upd_ent:
  assumes "\<And>e. entry_policy (f e) = entry_policy e"
  shows "registry (upd_ent r f s) = registry s"
proof (cases "r < length (store s)")
  case True
  have "entry_policy (f (store s ! r)) = map entry_policy (store s) ! r" using True assms by simp
  then show ?thesis by (simp add: registry_def upd_ent_def map_update)
next
  case False
  then show ?thesis by (simp add: registry_def upd_ent_def list_update_beyond)
qed

lemma registry_simple [simp]:
  "registry (upd_fdb f s) = registry s" "registry (upd_stp g s) = registry s" "registry (emit ev s) = registry s"
  "registry (put_sp pid sp s) = registry s" "registry (s\<lparr>asyncs := n\<rparr>) = registry s" "registry (s\<lparr>sfdb := f'\<rparr>) = registry s"
  "registry (s\<lparr>downCB := cbs\<rparr>) = registry s"
  by (simp_all add: registry_def upd_defs)

lemma registry_state [simp]: "registry (set_state r st s) = registry s" "registry (upd_stats r h s) = registry s"
  by (simp_all add: set_state_def upd_stats_def registry_upd_ent entry_policy_def)

lemma registry_fold: "(\<And>x s. registry (f x s) = registry s) \<Longrightarrow> registry (fold f xs s) = registry s"
  by (induction xs arbitrary: s) simp_all

lemma registry_fold_snd:
  "(\<And>x vs. registry (snd (f x vs)) = registry (snd vs)) \<Longrightarrow> registry (snd (fold f xs vs)) = registry (snd vs)"
  by (induction xs arbitrary: vs) simp_all

section \<open>The spanning tree\<close>

lemma registry_enrol [simp]: "registry (enrol pr s) = registry s"
  by (auto simp: enrol_def split: prod.splits)

lemma registry_withdraw [simp]: "registry (withdraw seen pid s) = registry s"
  by (auto simp: withdraw_def split: option.splits)

lemma registry_resync [simp]: "registry (resyncPortsLocked s) = registry s"
  by (simp add: resyncPortsLocked_def Let_def registry_fold)

lemma registry_applyRole [simp]: "registry (applyRoleLocked pid sp s) = registry s"
  by (simp add: applyRoleLocked_def Let_def)

lemma registry_signal [simp]: "registry (signalTopologyChangeLocked s) = registry s"
  by (simp add: signalTopologyChangeLocked_def Let_def)

lemma registry_role_step: "registry (snd (role_step rt pid cs)) = registry (snd cs)"
  by (cases cs) (auto simp: role_step_def Let_def split: option.splits)

lemma registry_recompute [simp]: "registry (recomputeLocked s) = registry s"
proof -
  have "registry (snd (fold (role_step rt) ps (False, upd_stp g s))) = registry s" for rt ps g
    by (simp add: registry_fold_snd registry_role_step)
  then show ?thesis by (auto simp: recomputeLocked_def Let_def split: prod.splits if_splits) (metis snd_conv)+
qed

lemma registry_SetSTPConfig [simp]: "registry (SetSTPConfig c s) = registry s"
  by (auto simp: SetSTPConfig_def becomeRootLocked_def Let_def intro!: registry_fold [THEN trans])

lemma registry_stpAsync [simp]: "registry (stpAsync s) = registry s"
  by (simp add: stpAsync_def Let_def)

lemma registry_transmit [simp]: "registry (transmitConfigsLocked s) = registry s"
  by (auto simp: transmitConfigsLocked_def Let_def intro!: registry_fold)

lemma registry_ageInfo: "registry (snd (ageInfo dt s)) = registry s"
  by (simp add: ageInfo_def Let_def)

lemma registry_progress [simp]: "registry (progress_step dt pid s) = registry s"
  by (auto simp: progress_step_def Let_def split: option.splits stpState.splits)

lemma registry_hello [simp]: "registry (helloLocked s) = registry s"
  by (auto simp: helloLocked_def Let_def split: option.splits)

lemma registry_stpRun [simp]: "registry (stpRun tick s) = registry s"
proof -
  have "registry (tickLocked tick s) = registry s" for s
    using registry_ageInfo [of tick "resyncPortsLocked s"]
    by (auto simp: tickLocked_def Let_def registry_fold split: prod.splits)
  then show ?thesis by (simp add: stpRun_def)
qed

lemma registry_handleBPDU [simp]: "registry (handleBPDU src fr s) = registry s"
proof -
  have "registry (handleConfig src sp body s) = registry s" for sp body s by (simp add: handleConfig_def Let_def)
  then show ?thesis by (auto simp: handleBPDU_def Let_def split: option.splits)
qed

section \<open>The pipeline\<close>

lemma registry_blockPort [simp]: "registry (blockPort r why s) = registry s"
  by (simp add: blockPort_def Let_def registry_upd_ent entry_policy_def)

lemma registry_send: "registry (snd (send acc sid dst vs)) = registry (snd vs)"
  by (cases vs) (simp add: send_def Let_def split: prod.splits)

lemma registry_flood [simp]: "registry (flood acc now src sid sa key v s) = registry s"
proof -
  have "registry (snd (fold (\<lambda>p vs. if floods_to (snd vs) sid sa key p then send acc sid (snd p) vs else vs) ps (v, t))) = registry t"
    for ps t by (subst registry_fold_snd) (simp_all add: registry_send)
  then show ?thesis
    by (auto simp: flood_def Let_def registry_upd_ent entry_policy_def split: prod.splits if_splits)
qed

lemma registry_ingress [simp]: "registry (ingress clk acc src sid sa f s) = registry s"
proof -
  have "registry (forward clk acc src sid sa key f s) = registry s" for key s
    by (auto simp: forward_def Let_def registry_send split: prod.splits option.splits if_splits)
  then show ?thesis by (auto simp: ingress_def Let_def split: option.splits)
qed

lemma registry_deliver [simp]: "registry (deliver clk acc src fr s) = registry s"
  by (auto simp: deliver_def Let_def split: option.splits)

lemma registry_Deliver [simp]: "registry (Deliver clk acc pid fr s) = registry s"
  by (auto simp: Deliver_def split: option.splits)

lemma registry_portDown [simp]: "registry (portDown pid s) = registry s"
  by (simp add: portDown_def Let_def registry_fold)

section \<open>The rest of the interface\<close>

text \<open>The operations that may change the registry, with the identifier they change it for.\<close>

fun touches :: "sw_op \<Rightarrow> string option" where
  "touches (OpAddPort pid a) = Some pid"
| "touches (OpRemovePort pid) = Some pid"
| "touches (OpUpdatePortAttrs pid a) = Some pid"
| "touches _ = None"

lemma registry_exec:
  assumes "touches op = None" "op \<noteq> OpClose"
  shows "registry (exec_sw op s) = registry s"
proof (cases op)
  case (OpAddStaticFDB t v m pid)
  then show ?thesis by (auto simp: or_same_def AddStaticFDB_def split: sum.splits option.splits if_splits)
next
  case (OpRemoveStaticFDB v m)
  then show ?thesis by (auto simp: or_same_def RemoveStaticFDB_def split: sum.splits option.splits if_splits)
next
  case (OpDeleteFDBEntry v m)
  then show ?thesis by (auto simp: or_same_def DeleteFDBEntry_def split: sum.splits option.splits if_splits)
next
  case (OpFlushFDB pid v)
  then show ?thesis by (simp add: FlushFDB_def Let_def split: prod.splits)
next
  case (OpSetFDBMaxAge d)
  then show ?thesis by (simp add: or_same_def SetFDBMaxAge_def)
next
  case (OpSetLoopProbeInterval d)
  then show ?thesis by (simp add: SetLoopProbeInterval_def registry_def)
next
  case OpProbe
  then show ?thesis by (auto simp: loopProbe_def intro!: registry_fold)
qed (use assms in \<open>simp_all add: NotifyDown_def OnPortDown_def ageLoop_def\<close>)

text \<open>What the registry holds of a port.\<close>

definition policy_of :: "string \<Rightarrow> switch \<Rightarrow> PortAttrs option" where
  "policy_of pid s = map_option (\<lambda>r. snd (snd (registry s) ! r)) (mget (ports s) pid)"

lemma policy_of_registry: "registry s' = registry s \<Longrightarrow> policy_of pid s' = policy_of pid s"
  by (simp add: policy_of_def registry_def)

lemma policy_of_attrs:
  assumes "sw_wf s"
  shows "policy_of pid s = map_option (\<lambda>a. a\<lparr>Disabled := False\<rparr>) (PortAttrs_of pid s)"
proof (cases "mget (ports s) pid")
  case (Some r)
  then have "r < length (store s)" using sw_wfD(5) [OF assms] by (auto simp: entry_ok_def)
  then show ?thesis using Some by (simp add: policy_of_def PortAttrs_of_def registry_def entry_policy_def ent_def)
qed (simp add: policy_of_def PortAttrs_of_def)

text \<open>The management operations themselves.\<close>

lemma policy_of_AddPort:
  assumes "sw_wf s" "AddPort pid a s = Inr s'"
  shows "policy_of p s' = (if p = pid then Some (a\<lparr>Disabled := False\<rparr>) else policy_of p s)"
    and "mget (ports s) pid = None"
proof -
  show "mget (ports s) pid = None" using assms(2) by (auto simp: AddPort_def split: option.splits if_splits)
  have s': "s' = portChangedLocked (s\<lparr>portNumSeq := portNumSeq s + 1, store := store s @ [new_entry pid a (portNumSeq s + 1)],
      ports := mput pid (length (store s)) (ports s)\<rparr>)"
    using assms(2) by (auto simp: AddPort_def Let_def split: option.splits if_splits)
  have "r < length (store s)" if "mget (ports s) p = Some r" for r
    using sw_wfD(5) [OF assms(1) that] by (simp add: entry_ok_def)
  then show "policy_of p s' = (if p = pid then Some (a\<lparr>Disabled := False\<rparr>) else policy_of p s)"
    by (cases "mget (ports s) p")
      (auto simp: s' policy_of_def registry_def portChangedLocked_def go_map entry_policy_def new_entry_def nth_append)
qed

lemma policy_of_RemovePort: "policy_of p (RemovePort pid s) = (if p = pid then None else policy_of p s)"
proof (cases "mget (ports s) pid")
  case None
  then show ?thesis by (simp add: RemovePort_def policy_of_def)
next
  case (Some r)
  let ?t = "upd_ent r (\<lambda>e. e\<lparr>gone := True\<rparr>) (s\<lparr>ports := mdel pid (ports s)\<rparr>)"
  have "registry (RemovePort pid s) = registry ?t" using Some by (simp add: RemovePort_def)
  moreover have "registry ?t = registry (s\<lparr>ports := mdel pid (ports s)\<rparr>)"
    by (rule registry_upd_ent) (simp add: entry_policy_def)
  ultimately have "registry (RemovePort pid s) = registry (s\<lparr>ports := mdel pid (ports s)\<rparr>)" by simp
  from policy_of_registry [OF this] show ?thesis by (simp add: policy_of_def registry_def go_map)
qed

lemma policy_of_UpdatePortAttrs:
  assumes "sw_wf s" "UpdatePortAttrs pid a s = Inr s'"
  shows "policy_of p s' = (if p = pid then Some (a\<lparr>Disabled := False\<rparr>) else policy_of p s)"
    and "mget (ports s) pid \<noteq> None"
proof -
  obtain r where r: "mget (ports s) pid = Some r" and reg: "registry s' = registry (upd_ent r (\<lambda>e. e\<lparr>attrs := a\<rparr>) s)"
  proof -
    have "registry (upd_ent r (\<lambda>e. e\<lparr>attrs := a\<rparr>) (upd_ent r (\<lambda>e. e\<lparr>blockReason := b\<rparr>) s))
        = registry (upd_ent r (\<lambda>e. e\<lparr>attrs := a\<rparr>) s)" for r b
      by (cases "r < length (store s)") (simp_all add: registry_def upd_ent_def map_update entry_policy_def list_update_beyond)
    then show thesis using that assms(2)
      by (auto simp: UpdatePortAttrs_def portChangedLocked_def Let_def split: option.splits if_splits)
  qed
  then show "mget (ports s) pid \<noteq> None" by simp
  have l: "r < length (store s)" "pe_id (ent s r) = pid" using sw_wfD(5) [OF assms(1) r] by (simp_all add: entry_ok_def)
  have o: "q \<noteq> r" if "mget (ports s) p = Some q" "p \<noteq> pid" for q
    using sw_wfD(5) [OF assms(1) that(1)] that(2) l by (auto simp: entry_ok_def)
  have "q < length (store s)" if "mget (ports s) p = Some q" for q
    using sw_wfD(5) [OF assms(1) that] by (simp add: entry_ok_def)
  then show "policy_of p s' = (if p = pid then Some (a\<lparr>Disabled := False\<rparr>) else policy_of p s)"
    using r l o policy_of_registry [OF reg, of p]
    by (cases "mget (ports s) p") (auto simp: policy_of_def registry_def upd_ent_def map_update entry_policy_def)
qed

end
