(* ===== verification/Manager.thy ===== *)
theory Manager
  imports ApiTypes Registry
begin

text \<open>
  The manager (\<^verbatim>\<open>internal/manager/manager.go\<close>, \<^verbatim>\<open>fdb.go\<close>, and the life cycle of gateways in \<^verbatim>\<open>gateways.go\<close>): the
  registry of ports and gateways above the switch. A method that releases the manager's lock
  between two of its parts is two steps; \<open>m_creating\<close>, \<open>m_gcreating\<close> and \<open>m_removing\<close> hold what is half
  done, and \<open>m_deletes\<close> the removals that were started in the background. The transport behind a port
  changes by steps of its own, and so does the switch.
\<close>

section \<open>State\<close>

record portRecord =
  pr_req :: PortRequest
  pr_port :: ManagedPort

record gatewayRecord =
  gw_req :: GatewayRequest
  gw_gw :: Gateway

record Manager =
  m_sw :: switch
  m_ports :: "(string, portRecord) gomap"
  m_gateways :: "(int, gatewayRecord) gomap"
  m_creating :: "(PortRequest \<times> ManagedPort) list"
  m_gcreating :: "(GatewayRequest \<times> Gateway) list"
  m_removing :: "string list"
  m_deletes :: "string list"

definition NewManager :: "byte list \<Rightarrow> Manager" where
  "NewManager random8 = \<lparr>m_sw = OnPortDown 0 (New random8), m_ports = [], m_gateways = [], m_creating = [], m_gcreating = [],
     m_removing = [], m_deletes = []\<rparr>"

definition CloseManager :: "Manager \<Rightarrow> Manager" where
  "CloseManager m = m\<lparr>m_sw := Close (m_sw m)\<rparr>"

text \<open>The errors of the manager; those of the packages below keep their own form.\<close>

datatype mgr_error = ApiError api_error | PortDup string | PortErr port_error | SwErr sw_error | BadPortMode string
  | NoPort string | NotRegistered string | BadMac string
  | GatewayVLAN int | GatewayDup int | NoGateway int | BadIPv4 string | BadPrefix4 int | BadIPv6 string | BadPrefix6 int
  | BadLinkLocalText string | GwErr gateway_error | FwdErr fwd_error | BadPoolStart string | BadPoolEnd string | BadDNS string
  | DhcpErr dhcp_error | BadIP string | InBinding string mgr_error | RAErr ra_error | BadRAPrefix string

section \<open>Port-down hook\<close>

definition auto_remove :: "PortRequest \<Rightarrow> bool" where
  "auto_remove r = (case r_AutoRemove r of None \<Rightarrow> True | Some b \<Rightarrow> b)"

text \<open>The callback the manager installs: leases of the port are released, and a port that is offline is removed in the background.\<close>

definition portDownHook :: "string \<Rightarrow> Manager \<Rightarrow> Manager" where
  "portDownHook pid m =
    (let m1 = m\<lparr>m_gateways := map (\<lambda>(v, rec). (v, rec\<lparr>gw_gw := GwPortDown pid (gw_gw rec)\<rparr>)) (m_gateways m)\<rparr> in
     case mget (m_ports m) pid of
       None \<Rightarrow> m1
     | Some rec \<Rightarrow>
         if auto_remove (pr_req rec) \<and> \<not> Online (port_Status (pr_port rec))
         then m1\<lparr>m_deletes := m_deletes m @ [pid]\<rparr> else m1)"

text \<open>An operation of the switch, and the callbacks it makes.\<close>

fun hook_ids :: "event list \<Rightarrow> string list" where
  "hook_ids [] = []"
| "hook_ids (Hook cb pid # es) = (if cb = 0 then pid # hook_ids es else hook_ids es)"
| "hook_ids (e # es) = hook_ids es"

definition on_switch :: "(switch \<Rightarrow> switch) \<Rightarrow> Manager \<Rightarrow> Manager" where
  "on_switch f m =
    (let s' = f (m_sw m)
     in fold portDownHook (hook_ids (drop (length (events (m_sw m))) (events s'))) (m\<lparr>m_sw := s'\<rparr>))"

section \<open>Ports\<close>

text \<open>What the operating system answers while a port or gateway is built.\<close>

record mgr_env =
  me_os :: net_os
  me_peer :: string
  me_tap :: "tap_call \<Rightarrow> string option"
  me_xdp :: "xdp_call \<Rightarrow> string option"
  me_promisc :: bool

definition of_new :: "new_port \<Rightarrow> mgr_error + ManagedPort" where
  "of_new r = (case fst r of Inl e \<Rightarrow> Inl (PortErr e) | Inr p \<Rightarrow> Inr p)"

definition of_built :: "('p \<Rightarrow> ManagedPort) \<Rightarrow> (port_error, 'p, 'r) built \<Rightarrow> mgr_error + ManagedPort" where
  "of_built k r = (case fst r of Inl e \<Rightarrow> Inl (PortErr e) | Inr p \<Rightarrow> Inr (k p))"

definition build_port :: "mgr_env \<Rightarrow> PortRequest \<Rightarrow> PortAttrs \<Rightarrow> mgr_error + ManagedPort" where
  "build_port env r a =
    (if r_Transport r = ''vhost-user'' then
       of_new (NewVhostUser (me_os env) \<lparr>vc_ID = r_Identifier r, vc_Mode = r_Mode r,
         vc_Path = (if r_Mode r = ''client'' then r_Remote r else r_Local r),
         vc_ReplacingMode = r_ReplacingMode r, vc_AccessPlatform = r_AccessPlatform r\<rparr>)
     else if r_Mode r = ''client'' then
       (if r_Transport r = ''tap'' \<or> r_Transport r = ''tapbr'' then
          of_built MTap (NewTap (me_tap env) \<lparr>tap_ID = r_Identifier r, tap_Name = r_TapName r, tap_Bridge = r_Bridge r,
            tap_AddToBr = (r_Transport r = ''tapbr'')\<rparr>)
        else if r_Transport r = ''af_xdp'' then
          of_built MXdp (NewAFXDP (me_xdp env) (me_promisc env) \<lparr>xdp_ID = r_Identifier r, xdp_Interface = r_Interface r,
            xdp_QueueID = r_QueueID r\<rparr>)
        else of_new (NewClient (me_os env) (me_peer env) \<lparr>cc_ID = r_Identifier r, cc_Transport = r_Transport r,
               cc_Local = r_Local r, cc_Remote = r_Remote r\<rparr>))
     else if r_Mode r = ''server'' then
       of_new (NewServer (me_os env) \<lparr>sc_ID = r_Identifier r, sc_Transport = r_Transport r, sc_Listen = r_Local r,
         sc_Mode = r_ReplacingMode r, sc_Attrs = a\<rparr>)
     else Inl (BadPortMode (r_Mode r)))"

text \<open>
  Creating a port up to its registration with the switch, and recording it. A port the switch
  does not take is closed, that is, dropped.
\<close>

definition register_port :: "mgr_env \<Rightarrow> PortRequest \<Rightarrow> Manager \<Rightarrow> mgr_error + ManagedPort \<times> Manager" where
  "register_port env r m =
    (case ValidateIdentifier (r_Identifier r) of
       Some e \<Rightarrow> Inl (ApiError e)
     | None \<Rightarrow>
         (case Attrs r of
            Inl e \<Rightarrow> Inl (ApiError e)
          | Inr a \<Rightarrow>
              if mget (m_ports m) (r_Identifier r) \<noteq> None then Inl (PortDup (r_Identifier r))
              else (case build_port env r a of
                      Inl e \<Rightarrow> Inl e
                    | Inr p \<Rightarrow>
                        (case AddPort (r_Identifier r) a (m_sw m) of
                           Inl e \<Rightarrow> Inl (SwErr e)
                         | Inr s \<Rightarrow> Inr (p, m\<lparr>m_sw := s\<rparr>)))))"

definition record_port :: "PortRequest \<Rightarrow> ManagedPort \<Rightarrow> Manager \<Rightarrow> Manager" where
  "record_port r p m = m\<lparr>m_ports := mput (r_Identifier r) \<lparr>pr_req = r, pr_port = p\<rparr> (m_ports m)\<rparr>"

definition portInfoLocked :: "string \<Rightarrow> Manager \<Rightarrow> mgr_error + PortInfo" where
  "portInfoLocked pid m =
    (case mget (m_ports m) pid of
       None \<Rightarrow> Inl (NoPort pid)
     | Some rec \<Rightarrow>
         (let st = port_Status (pr_port rec); req = pr_req rec; s = m_sw m;
              a = PortAttrs_of pid s; (tree, inTree) = STPPortStatus_of pid s in
          Inr \<lparr>i_Identifier = r_Identifier req,
               i_VLAN = (case a of Some a \<Rightarrow> VLAN a | None \<Rightarrow> VLANTrunk),
               i_Isolated = r_Isolated req, i_PortSecurity = r_PortSecurity req,
               i_Enabled = (case a of Some a \<Rightarrow> \<not> Disabled a | None \<Rightarrow> True),
               i_AutoRemove = auto_remove req, i_Mode = r_Mode req, i_Transport = r_Transport req,
               i_Local = r_Local req, i_Remote = r_Remote req, i_ReplacingMode = r_ReplacingMode req,
               i_TapName = r_TapName req, i_Bridge = r_Bridge req, i_Interface = r_Interface req, i_QueueID = r_QueueID req,
               i_BPDUGuard = (case a of Some a \<Rightarrow> BPDUGuard a | None \<Rightarrow> False),
               i_LoopDetect = (case a of Some a \<Rightarrow> LoopDetect a | None \<Rightarrow> False),
               i_StormPPS = (case a of Some a \<Rightarrow> StormPPS a | None \<Rightarrow> 0),
               i_STP = (case a of Some a \<Rightarrow> STP a | None \<Rightarrow> False),
               i_STPCost = (case a of Some a \<Rightarrow> STPCost a | None \<Rightarrow> 0),
               i_STPPriority = (case a of Some a \<Rightarrow> STPPriority a | None \<Rightarrow> 0),
               i_STPState = (if inTree then State tree else []), i_STPRole = (if inTree then Role tree else []),
               i_BlockedReason = BlockReason pid s,
               i_Online = Online st, i_Peer = Peer st, i_Connections = Connections st,
               i_Stats = (case PortStats_of pid s of Some x \<Rightarrow> x | None \<Rightarrow> zeroStats)\<rparr>))"

definition CreatePort :: "mgr_env \<Rightarrow> PortRequest \<Rightarrow> Manager \<Rightarrow> (mgr_error + PortInfo) \<times> Manager" where
  "CreatePort env r m =
    (case register_port env r m of
       Inl e \<Rightarrow> (Inl e, m)
     | Inr (p, m1) \<Rightarrow> (let m2 = record_port r p m1 in (portInfoLocked (r_Identifier r) m2, m2)))"

definition GetPort :: "string \<Rightarrow> Manager \<Rightarrow> mgr_error + PortInfo" where
  "GetPort pid m = portInfoLocked pid m"

definition ListPorts :: "Manager \<Rightarrow> PortInfo list" where
  "ListPorts m = concat (map (\<lambda>pid. case portInfoLocked pid m of Inl e \<Rightarrow> [] | Inr i \<Rightarrow> [i]) (map fst (m_ports m)))"

text \<open>The record keeps what a later answer shows of the attributes.\<close>

definition patch_req :: "PortAttrs \<Rightarrow> PortRequest \<Rightarrow> PortRequest" where
  "patch_req a r = r\<lparr>r_VLAN := Some (VLAN a), r_Isolated := Isolated a,
     r_PortSecurity := map_option HardwareAddr_String (SecurityMAC a)\<rparr>"

definition PatchPort :: "string \<Rightarrow> PortPatch \<Rightarrow> Manager \<Rightarrow> (mgr_error + PortInfo) \<times> Manager" where
  "PatchPort pid patch m =
    (case mget (m_ports m) pid of
       None \<Rightarrow> (Inl (NoPort pid), m)
     | Some rec \<Rightarrow>
         (case PortAttrs_of pid (m_sw m) of
            None \<Rightarrow> (Inl (NotRegistered pid), m)
          | Some a0 \<Rightarrow>
              (case Apply patch a0 of
                 Inl e \<Rightarrow> (Inl (ApiError e), m)
               | Inr a \<Rightarrow>
                   (case UpdatePortAttrs pid a (m_sw m) of
                      Inl e \<Rightarrow> (Inl (SwErr e), m)
                    | Inr s \<Rightarrow>
                        (let (p, subs) = sub_updater a (pr_port rec);
                             s1 = fold (\<lambda>i t. or_same t (UpdatePortAttrs i a t)) subs s;
                             m1 = m\<lparr>m_sw := s1,
                               m_ports := mput pid \<lparr>pr_req = patch_req a (pr_req rec), pr_port = p\<rparr> (m_ports m)\<rparr>
                         in (portInfoLocked pid m1, m1))))))"

text \<open>Deleting: out of the record, then out of the switch, which closes the port.\<close>

definition unrecord_port :: "string \<Rightarrow> Manager \<Rightarrow> mgr_error + Manager" where
  "unrecord_port pid m =
    (if mget (m_ports m) pid = None then Inl (NoPort pid) else Inr (m\<lparr>m_ports := mdel pid (m_ports m)\<rparr>))"

definition DeletePort :: "string \<Rightarrow> Manager \<Rightarrow> mgr_error option \<times> Manager" where
  "DeletePort pid m = (case unrecord_port pid m of
       Inl e \<Rightarrow> (Some e, m)
     | Inr m1 \<Rightarrow> (None, on_switch (RemovePort pid) m1))"

section \<open>The forwarding database and the spanning tree\<close>

text \<open>The age in seconds goes through a floating-point number, which is exact below 2^23 seconds.\<close>

definition FDBRows :: "time \<Rightarrow> Manager \<Rightarrow> FDBRow list" where
  "FDBRows now m = map (\<lambda>e. \<lparr>row_VLAN = fe_VLAN e, row_MAC = fe_MAC e, row_Port = fe_PortID e,
      row_AgeSeconds = fe_Age e sdiv time_Second, row_Static = fe_Static e\<rparr>) (FDB now (m_sw m))"

definition sw_result :: "sw_error + switch \<Rightarrow> Manager \<Rightarrow> mgr_error option \<times> Manager" where
  "sw_result r m = (case r of Inl e \<Rightarrow> (Some (SwErr e), m) | Inr s \<Rightarrow> (None, m\<lparr>m_sw := s\<rparr>))"

definition DeleteFDBEntryM :: "int \<Rightarrow> string \<Rightarrow> Manager \<Rightarrow> mgr_error option \<times> Manager" where
  "DeleteFDBEntryM vlan mac m = (case ParseMAC mac of
       None \<Rightarrow> (Some (BadMac mac), m)
     | Some hw \<Rightarrow> sw_result (DeleteFDBEntry vlan hw (m_sw m)) m)"

definition FlushFDBM :: "FDBFlushRequest \<Rightarrow> Manager \<Rightarrow> nat \<times> Manager" where
  "FlushFDBM r m = (let (n, s) = FlushFDB (ff_Port r) (ff_VLAN r) (m_sw m) in (n, m\<lparr>m_sw := s\<rparr>))"

definition PutStaticFDB :: "time \<Rightarrow> StaticFDBRequest \<Rightarrow> Manager \<Rightarrow> mgr_error option \<times> Manager" where
  "PutStaticFDB now r m = (case ParseMAC (sf_MAC r) of
       None \<Rightarrow> (Some (BadMac (sf_MAC r)), m)
     | Some hw \<Rightarrow> sw_result (AddStaticFDB now (sf_VLAN r) hw (sf_Port r) (m_sw m)) m)"

definition DeleteStaticFDB :: "int \<Rightarrow> string \<Rightarrow> Manager \<Rightarrow> mgr_error option \<times> Manager" where
  "DeleteStaticFDB vlan mac m = (case ParseMAC mac of
       None \<Rightarrow> (Some (BadMac mac), m)
     | Some hw \<Rightarrow> sw_result (RemoveStaticFDB vlan hw (m_sw m)) m)"

text \<open>Seconds as a duration: the product of two 64-bit numbers.\<close>

definition dur_seconds :: "int \<Rightarrow> int" where
  "dur_seconds n = dur_mul n time_Second"

definition GetFDBConfig :: "Manager \<Rightarrow> FDBConfig" where
  "GetFDBConfig m = \<lparr>AgingSeconds = FDBMaxAge (m_sw m) sdiv time_Second\<rparr>"

definition SetFDBConfig :: "FDBConfig \<Rightarrow> Manager \<Rightarrow> mgr_error option \<times> Manager" where
  "SetFDBConfig c m = sw_result (SetFDBMaxAge (dur_seconds (AgingSeconds c)) (m_sw m)) m"

definition stp_config :: "STPRequest \<Rightarrow> STPConfig" where
  "stp_config r = \<lparr>STPConfig.Enabled = sr_Enabled r, Priority = sr_Priority r, HelloTime = dur_seconds (sr_HelloSeconds r),
     MaxAge = dur_seconds (sr_MaxAgeSeconds r), ForwardDelay = dur_seconds (sr_ForwardDelaySeconds r)\<rparr>"

definition SetSTP :: "STPRequest \<Rightarrow> Manager \<Rightarrow> Manager" where
  "SetSTP r m = m\<lparr>m_sw := SetSTPConfig (stp_config r) (m_sw m)\<rparr>"

definition GetSTP :: "Manager \<Rightarrow> STPResponse" where
  "GetSTP m = STPStatus_of (m_sw m)"

section \<open>Gateways\<close>

definition gatewayPortID :: "int \<Rightarrow> string" where
  "gatewayPortID vlan = ''gw-vlan'' @ decimal_int vlan"

definition defaultGatewayMAC :: "int \<Rightarrow> byte list" where
  "defaultGatewayMAC vlan = [0x52, 0x54, 0x00, 0x67, word_of_int (vlan div 256), word_of_int vlan]"

definition gateway_mac :: "GatewayRequest \<Rightarrow> mgr_error + byte list" where
  "gateway_mac r = (if gr_MAC r \<noteq> [] then (case ParseMAC (gr_MAC r) of None \<Rightarrow> Inl (BadMac (gr_MAC r)) | Some mac \<Rightarrow> Inr mac)
     else Inr (defaultGatewayMAC (gr_VLAN r)))"

definition gateway_v4 :: "GatewayV4 option \<Rightarrow> mgr_error + V4Config option" where
  "gateway_v4 q = (case q of
       None \<Rightarrow> Inr None
     | Some v \<Rightarrow>
         (case ParseIP (g4_Address v) of
            None \<Rightarrow> Inl (BadIPv4 (g4_Address v))
          | Some ip \<Rightarrow>
              if To4 ip = [] then Inl (BadIPv4 (g4_Address v))
              else if g4_PrefixLen v < 1 \<or> g4_PrefixLen v > 30 then Inl (BadPrefix4 (g4_PrefixLen v))
              else Inr (Some \<lparr>v4_Address = To4 ip, v4_PrefixLen = g4_PrefixLen v\<rparr>)))"

definition gateway_v6 :: "GatewayV6 option \<Rightarrow> mgr_error + V6Config option" where
  "gateway_v6 q = (case q of
       None \<Rightarrow> Inr None
     | Some v \<Rightarrow>
         (case ParseIP (g6_Address v) of
            None \<Rightarrow> Inl (BadIPv6 (g6_Address v))
          | Some ip \<Rightarrow>
              if To4 ip \<noteq> [] then Inl (BadIPv6 (g6_Address v))
              else if g6_PrefixLen v < 1 \<or> g6_PrefixLen v > 126 then Inl (BadPrefix6 (g6_PrefixLen v))
              else if g6_LinkLocal v = [] then Inr (Some \<lparr>v6_Address = ip, v6_PrefixLen = g6_PrefixLen v, v6_LinkLocal = []\<rparr>)
              else (case ParseIP (g6_LinkLocal v) of
                      None \<Rightarrow> Inl (BadLinkLocalText (g6_LinkLocal v))
                    | Some ll \<Rightarrow> Inr (Some \<lparr>v6_Address = ip, v6_PrefixLen = g6_PrefixLen v, v6_LinkLocal = ll\<rparr>))))"

definition gateway_config :: "GatewayRequest \<Rightarrow> mgr_error + gwConfig" where
  "gateway_config r =
    (case gateway_mac r of Inl e \<Rightarrow> Inl e | Inr mac \<Rightarrow>
    (case gateway_v4 (gr_IPv4 r) of Inl e \<Rightarrow> Inl e | Inr v4 \<Rightarrow>
    (case gateway_v6 (gr_IPv6 r) of Inl e \<Rightarrow> Inl e | Inr v6 \<Rightarrow>
      Inr \<lparr>gc_PortID = gatewayPortID (gr_VLAN r), gc_MAC = mac, gc_MTU = word_of_int (gr_MTU r), gc_IPv4 = v4, gc_IPv6 = v6,
           gc_EnableInternetRouting = gr_EnableInternetRouting r, gc_EnableHostRouting = gr_EnableHostRouting r,
           gc_Allow = gr_Allow r, gc_Deny = gr_Deny r, gc_DNSProxy = gr_DNSProxy r\<rparr>)))"

definition gateway_attrs :: "GatewayRequest \<Rightarrow> PortAttrs" where
  "gateway_attrs r = \<lparr>SecurityMAC = None, Isolated = gr_Isolated r, VLAN = gr_VLAN r, Disabled = False, BPDUGuard = False,
     LoopDetect = False, StormPPS = 0, STP = False, STPCost = 0, STPPriority = 0\<rparr>"

text \<open>Again in two parts, up to the registration and from where the lock is taken again.\<close>

definition register_gateway :: "sns_pkg \<Rightarrow> GatewayRequest \<Rightarrow> Manager \<Rightarrow> mgr_error + Gateway \<times> Manager" where
  "register_gateway sns r m =
    (if gr_VLAN r < 0 \<or> gr_VLAN r > 4094 then Inl (GatewayVLAN (gr_VLAN r))
     else if mget (m_gateways m) (gr_VLAN r) \<noteq> None then Inl (GatewayDup (gr_VLAN r))
     else (case gateway_config r of Inl e \<Rightarrow> Inl e | Inr c \<Rightarrow>
          (case NewGateway sns c of Inl e \<Rightarrow> Inl (GwErr e) | Inr g \<Rightarrow>
          (case AddPort (gc_PortID c) (gateway_attrs r) (m_sw m) of
             Inl e \<Rightarrow> Inl (SwErr e)
           | Inr s \<Rightarrow> Inr (g, m\<lparr>m_sw := s\<rparr>)))))"

definition record_gateway :: "GatewayRequest \<Rightarrow> Gateway \<Rightarrow> Manager \<Rightarrow> mgr_error option \<times> Manager" where
  "record_gateway r g m =
    (if mget (m_gateways m) (gr_VLAN r) \<noteq> None
     then (Some (GatewayDup (gr_VLAN r)), on_switch (RemovePort (gatewayPortID (gr_VLAN r))) m)
     else (None, m\<lparr>m_gateways := mput (gr_VLAN r) \<lparr>gw_req = r, gw_gw = g\<rparr> (m_gateways m)\<rparr>))"

definition gateway :: "int \<Rightarrow> Manager \<Rightarrow> mgr_error + gatewayRecord" where
  "gateway vlan m = (case mget (m_gateways m) vlan of None \<Rightarrow> Inl (NoGateway vlan) | Some rec \<Rightarrow> Inr rec)"

definition gatewayInfo :: "int \<Rightarrow> Manager \<Rightarrow> mgr_error + GatewayInfo" where
  "gatewayInfo vlan m = (case gateway vlan m of
       Inl e \<Rightarrow> Inl e
     | Inr rec \<Rightarrow>
         Inr \<lparr>gi_GatewayRequest = gw_req rec,
              gi_MACEffective = HardwareAddr_String (gc_MAC (g_cfg (gw_gw rec))),
              gi_LinkLocalEffective = (if gr_IPv6 (gw_req rec) \<noteq> None then IP_String (g_linkLocal (gw_gw rec)) else []),
              gi_Stats = (case PortStats_of (gc_PortID (g_cfg (gw_gw rec))) (m_sw m) of Some x \<Rightarrow> x | None \<Rightarrow> zeroStats)\<rparr>)"

definition CreateGateway :: "sns_pkg \<Rightarrow> GatewayRequest \<Rightarrow> Manager \<Rightarrow> (mgr_error + GatewayInfo) \<times> Manager" where
  "CreateGateway sns r m = (case register_gateway sns r m of
       Inl e \<Rightarrow> (Inl e, m)
     | Inr (g, m1) \<Rightarrow>
         (case record_gateway r g m1 of
            (Some e, m2) \<Rightarrow> (Inl e, m2)
          | (None, m2) \<Rightarrow> (gatewayInfo (gr_VLAN r) m2, m2)))"

definition ListGateways :: "Manager \<Rightarrow> GatewayInfo list" where
  "ListGateways m = concat (map (\<lambda>v. case gatewayInfo v m of Inl e \<Rightarrow> [] | Inr i \<Rightarrow> [i]) (map fst (m_gateways m)))"

definition GetGateway :: "int \<Rightarrow> Manager \<Rightarrow> mgr_error + GatewayInfo" where
  "GetGateway vlan m = gatewayInfo vlan m"

definition unrecord_gateway :: "int \<Rightarrow> Manager \<Rightarrow> mgr_error + gatewayRecord \<times> Manager" where
  "unrecord_gateway vlan m = (case mget (m_gateways m) vlan of
       None \<Rightarrow> Inl (NoGateway vlan)
     | Some rec \<Rightarrow> Inr (rec, m\<lparr>m_gateways := mdel vlan (m_gateways m)\<rparr>))"

definition DeleteGateway :: "int \<Rightarrow> Manager \<Rightarrow> mgr_error option \<times> Manager" where
  "DeleteGateway vlan m = (case unrecord_gateway vlan m of
       Inl e \<Rightarrow> (Some e, m)
     | Inr (rec, m1) \<Rightarrow> (None, on_switch (RemovePort (gc_PortID (g_cfg (gw_gw rec)))) m1))"

end
