(* ===== verification/ManagerInv.thy ===== *)
theory ManagerInv
  imports Manager
begin

text \<open>
  Runs of the manager: requests, the background removals, the transports and the switch, interleaved
  at the points where the manager releases its lock. Every identifier registered with the switch
  has exactly one owner.
\<close>

section \<open>Steps\<close>

definition drop_at :: "nat \<Rightarrow> 'a list \<Rightarrow> 'a list" where
  "drop_at n xs = take n xs @ drop (Suc n) xs"

text \<open>
  What others do to the switch: anything but closing it, and registering, changing or removing only
  the subports of multiplexing servers, whose names contain an at sign.
\<close>

definition subport :: "string \<Rightarrow> bool" where
  "subport pid \<longleftrightarrow> CHR ''@'' \<in> set pid"

definition foreign :: "sw_op \<Rightarrow> bool" where
  "foreign op \<longleftrightarrow> (case op of OpClose \<Rightarrow> False | _ \<Rightarrow> True) \<and> (case touches op of None \<Rightarrow> True | Some pid \<Rightarrow> subport pid)"

datatype mgr_op = MCreatePort mgr_env PortRequest | MRecordPort nat | MPatchPort string PortPatch | MDeletePort string
  | MRemove nat | MAuto nat | MCreateGateway sns_pkg GatewayRequest | MRecordGateway nat | MDeleteGateway int
  | MPortState string ManagedPort | MOnGateway int "Gateway \<Rightarrow> Gateway" | MSwitch sw_op

definition set_port :: "string \<Rightarrow> ManagedPort \<Rightarrow> Manager \<Rightarrow> Manager" where
  "set_port pid p m = m\<lparr>m_ports := map (\<lambda>(i, rec). (i, if i = pid then rec\<lparr>pr_port := p\<rparr> else rec)) (m_ports m),
     m_creating := map (\<lambda>(r, q). (r, if r_Identifier r = pid then p else q)) (m_creating m)\<rparr>"

text \<open>A stream server names its subports with an at sign, see \<^const>\<open>sub_name\<close>.\<close>

definition subs_ok :: "ManagedPort \<Rightarrow> bool" where
  "subs_ok p = (case p of MStream s \<Rightarrow> list_all (subport \<circ> fst) (ss_subs s) | _ \<Rightarrow> True)"

definition set_gateway :: "int \<Rightarrow> (Gateway \<Rightarrow> Gateway) \<Rightarrow> Manager \<Rightarrow> Manager" where
  "set_gateway vlan f m = m\<lparr>m_gateways := map (\<lambda>(v, rec). (v, if v = vlan then rec\<lparr>gw_gw := f (gw_gw rec)\<rparr> else rec)) (m_gateways m)\<rparr>"

definition start_delete :: "string \<Rightarrow> Manager \<Rightarrow> Manager" where
  "start_delete pid m = (case unrecord_port pid m of Inl e \<Rightarrow> m | Inr m1 \<Rightarrow> m1\<lparr>m_removing := m_removing m @ [pid]\<rparr>)"

fun exec_mgr :: "mgr_op \<Rightarrow> Manager \<Rightarrow> Manager" where
  "exec_mgr (MCreatePort env r) m = (case register_port env r m of
       Inl e \<Rightarrow> m | Inr (p, m1) \<Rightarrow> m1\<lparr>m_creating := m_creating m @ [(r, p)]\<rparr>)"
| "exec_mgr (MRecordPort n) m = (if n < length (m_creating m)
     then (let (r, p) = m_creating m ! n in record_port r p (m\<lparr>m_creating := drop_at n (m_creating m)\<rparr>)) else m)"
| "exec_mgr (MPatchPort pid patch) m = snd (PatchPort pid patch m)"
| "exec_mgr (MDeletePort pid) m = start_delete pid m"
| "exec_mgr (MRemove n) m = (if n < length (m_removing m)
     then on_switch (RemovePort (m_removing m ! n)) (m\<lparr>m_removing := drop_at n (m_removing m)\<rparr>) else m)"
| "exec_mgr (MAuto n) m = (if n < length (m_deletes m)
     then start_delete (m_deletes m ! n) (m\<lparr>m_deletes := drop_at n (m_deletes m)\<rparr>) else m)"
| "exec_mgr (MCreateGateway sns r) m = (case register_gateway sns r m of
       Inl e \<Rightarrow> m | Inr (g, m1) \<Rightarrow> m1\<lparr>m_gcreating := m_gcreating m @ [(r, g)]\<rparr>)"
| "exec_mgr (MRecordGateway n) m = (if n < length (m_gcreating m)
     then (let (r, g) = m_gcreating m ! n in snd (record_gateway r g (m\<lparr>m_gcreating := drop_at n (m_gcreating m)\<rparr>))) else m)"
| "exec_mgr (MDeleteGateway vlan) m = (case unrecord_gateway vlan m of
       Inl e \<Rightarrow> m | Inr (rec, m1) \<Rightarrow> m1\<lparr>m_removing := m_removing m @ [gc_PortID (g_cfg (gw_gw rec))]\<rparr>)"
| "exec_mgr (MPortState pid p) m = (if subs_ok p then set_port pid p m else m)"
| "exec_mgr (MOnGateway vlan f) m =
     set_gateway vlan (\<lambda>g. if g_cfg (f g) = g_cfg g then f g else g) m"
| "exec_mgr (MSwitch op) m = (if foreign op then on_switch (exec_sw op) m else m)"

section \<open>Owners\<close>

text \<open>The VLANs of gateways, and the identifiers that are somebody's: of recorded ports and gateways, of those being created, and of those being removed.\<close>

definition gateway_vlans :: "Manager \<Rightarrow> int list" where
  "gateway_vlans m = map fst (m_gateways m) @ map (gr_VLAN \<circ> fst) (m_gcreating m)"

definition owned :: "Manager \<Rightarrow> string list" where
  "owned m = map fst (m_ports m) @ map (r_Identifier \<circ> fst) (m_creating m) @ map gatewayPortID (gateway_vlans m) @ m_removing m"

text \<open>The VLAN a gateway's port is registered with.\<close>

definition serves :: "Manager \<Rightarrow> int \<Rightarrow> bool" where
  "serves m v \<longleftrightarrow> map_option VLAN (policy_of (gatewayPortID v) (m_sw m)) = Some v"

definition registered :: "Manager \<Rightarrow> string \<Rightarrow> bool" where
  "registered m pid \<longleftrightarrow> \<not> subport pid \<and> policy_of pid (m_sw m) \<noteq> None"

text \<open>The names in the records agree with the keys.\<close>

definition book_ok :: "Manager \<Rightarrow> bool" where
  "book_ok m \<longleftrightarrow> (\<forall>(i, rec)\<in>set (m_ports m). r_Identifier (pr_req rec) = i \<and> subs_ok (pr_port rec))
     \<and> (\<forall>(r, p)\<in>set (m_creating m). subs_ok p)
     \<and> (\<forall>(v, rec)\<in>set (m_gateways m). gc_PortID (g_cfg (gw_gw rec)) = gatewayPortID v)
     \<and> (\<forall>(r, g)\<in>set (m_gcreating m). gc_PortID (g_cfg g) = gatewayPortID (gr_VLAN r))"

definition accounts :: "Manager \<Rightarrow> bool" where
  "accounts m \<longleftrightarrow> (\<forall>pid. count_list (owned m) pid = (if registered m pid then 1 else 0))"

text \<open>A request shows the policy of its port, as far as answers take it from the request.\<close>

definition shows_policy :: "PortRequest \<Rightarrow> PortAttrs option \<Rightarrow> bool" where
  "shows_policy r pol \<longleftrightarrow> map_option (\<lambda>a. (Isolated a, map_option Some (SecurityMAC a))) pol
     = Some (r_Isolated r, map_option ParseMAC (r_PortSecurity r))"

definition requests :: "Manager \<Rightarrow> PortRequest list" where
  "requests m = map (pr_req \<circ> snd) (m_ports m) @ map fst (m_creating m)"

definition shown :: "Manager \<Rightarrow> bool" where
  "shown m \<longleftrightarrow> (\<forall>r\<in>set (requests m). shows_policy r (policy_of (r_Identifier r) (m_sw m)))"

definition mgr_wf :: "Manager \<Rightarrow> bool" where
  "mgr_wf m \<longleftrightarrow> sw_wf (m_sw m) \<and> accounts m \<and> (\<forall>v\<in>set (gateway_vlans m). serves m v) \<and> book_ok m \<and> shown m"

lemma count_drop_at:
  assumes "n < length xs"
  shows "count_list (map f xs) p = count_list (map f (drop_at n xs)) p + (if f (xs ! n) = p then 1 else 0)"
proof -
  have "xs = take n xs @ xs ! n # drop (Suc n) xs" using assms by (rule id_take_nth_drop)
  then have "map f xs = map f (take n xs) @ f (xs ! n) # map f (drop (Suc n) xs)" by (metis list.simps(9) map_append)
  then show ?thesis by (simp add: drop_at_def)
qed

lemma set_drop_at: "set (drop_at n xs) \<subseteq> set xs"
  using set_take_subset [of n xs] set_drop_subset [of "Suc n" xs] by (auto simp: drop_at_def)

lemma keys_mput: "map fst (mput k v m) = (if k \<in> fst ` set m then map fst m else map fst m @ [k])"
  by (induction m) (auto simp: mput_def)

lemma keys_mdel: "map fst (mdel k m) = filter (\<lambda>i. i \<noteq> k) (map fst m)"
  by (induction m) (auto simp: mdel_def)

lemma count_filter: "count_list (filter P xs) p = (if P p then count_list xs p else 0)"
  by (induction xs) auto

lemma count_map_filter_inj:
  "inj_on f (set (k # xs)) \<Longrightarrow> count_list (map f (filter (\<lambda>i. i \<noteq> k) xs)) p = (if p = f k then 0 else count_list (map f xs) p)"
  by (induction xs) (auto simp: inj_on_def)

lemma subport_gateway [simp]: "\<not> subport (gatewayPortID v)"
proof -
  have "c \<noteq> CHR ''@''" if "c \<in> set (decimal n)" for c n using decimal_digits [OF that] by (auto simp: is_digit_def)
  then show ?thesis by (auto simp: subport_def gatewayPortID_def decimal_int_def)
qed

lemma gatewayPortID_inj [simp]: "gatewayPortID v = gatewayPortID w \<longleftrightarrow> v = w"
proof -
  have "decimal_int v = decimal_int w \<longleftrightarrow> v = w"
  proof -
    have d: "decimal n \<noteq> CHR ''-'' # ds" for n ds
      using decimal_digits [of "CHR ''-''" n] by (auto simp: is_digit_def)
    show ?thesis using d d [symmetric] by (auto simp: decimal_int_def decimal_inj)
  qed
  then show ?thesis by (simp add: gatewayPortID_def)
qed

lemma inj_gatewayPortID: "inj gatewayPortID"
  by (simp add: inj_def)

section \<open>Hardware addresses\<close>

text \<open>A printed hardware address is read back.\<close>

lemma hex_val_digit: "n < 16 \<Longrightarrow> hex_val (Ingress.hex_digit n) = Some n"
proof -
  assume "n < 16"
  then have "n \<in> set [0..<16]" by simp
  then show ?thesis by (auto simp: upt_rec hex_val_def Ingress.hex_digit_def)
qed

lemma pairs_sep_String: "bs \<noteq> [] \<Longrightarrow> pairs_sep CHR '':'' (HardwareAddr_String bs) = Some bs"
proof (induction bs rule: HardwareAddr_String.induct)
  case (2 b)
  have "xtoi2 (Ingress.hex_digit (unat b div 16)) (Ingress.hex_digit (unat b mod 16)) = Some b"
    using unat_bound(1) [of b] by (simp add: xtoi2_def hex_val_digit less_mult_imp_div_less)
  then show ?case by (simp add: Ingress.hex_byte_def)
next
  case (3 b c bs)
  have "xtoi2 (Ingress.hex_digit (unat b div 16)) (Ingress.hex_digit (unat b mod 16)) = Some b"
    using unat_bound(1) [of b] by (simp add: xtoi2_def hex_val_digit less_mult_imp_div_less)
  then show ?case using 3 by (simp add: Ingress.hex_byte_def)
qed simp

lemma length_HardwareAddr_String: "bs \<noteq> [] \<Longrightarrow> length (HardwareAddr_String bs) + 1 = 3 * length bs"
  by (induction bs rule: HardwareAddr_String.induct) (auto simp: Ingress.hex_byte_def)

lemma ParseMAC_String:
  assumes "length mac = 6"
  shows "ParseMAC (HardwareAddr_String mac) = Some mac"
proof -
  obtain a b bs where m: "mac = a # b # bs" using assms by (cases mac; cases "tl mac") auto
  have "length (HardwareAddr_String mac) = 17" using length_HardwareAddr_String [of mac] assms m by auto
  moreover have "HardwareAddr_String mac ! 2 = CHR '':''" by (simp add: m Ingress.hex_byte_def)
  ultimately show ?thesis using pairs_sep_String [of mac] assms m by (simp add: ParseMAC_def)
qed

section \<open>Preservation\<close>

text \<open>The hook leaves everything the invariant speaks of alone.\<close>

definition same_book :: "Manager \<Rightarrow> Manager \<Rightarrow> bool" where
  "same_book m m' \<longleftrightarrow> m_sw m' = m_sw m \<and> m_ports m' = m_ports m \<and> m_creating m' = m_creating m \<and> m_gcreating m' = m_gcreating m
     \<and> m_removing m' = m_removing m
     \<and> map (\<lambda>(v, rec). (v, gc_PortID (g_cfg (gw_gw rec)))) (m_gateways m') = map (\<lambda>(v, rec). (v, gc_PortID (g_cfg (gw_gw rec)))) (m_gateways m)"

lemma same_book_hook: "same_book m (portDownHook pid m)"
  by (auto simp: same_book_def portDownHook_def Let_def GwPortDown_def split: option.splits)

lemma same_book_hooks: "same_book m (fold portDownHook pids m)"
proof (induction pids arbitrary: m)
  case (Cons p pids)
  then show ?case using same_book_hook [of m p] by (auto simp: same_book_def)
qed (simp add: same_book_def)

lemma gateways_same:
  assumes "map (\<lambda>(v, rec). (v, f rec)) xs = map (\<lambda>(v, rec). (v, f rec)) ys"
  shows "map fst xs = map fst ys" "(\<forall>(v, rec)\<in>set xs. Q v (f rec)) \<longleftrightarrow> (\<forall>(v, rec)\<in>set ys. Q v (f rec))"
proof -
  have "map fst (map (\<lambda>(v, rec). (v, f rec)) xs) = map fst (map (\<lambda>(v, rec). (v, f rec)) ys)" using assms by simp
  then show "map fst xs = map fst ys" by (simp add: comp_def case_prod_beta)
  have "(\<forall>(v, rec)\<in>set zs. Q v (f rec)) \<longleftrightarrow> (\<forall>(v, x)\<in>set (map (\<lambda>(v, rec). (v, f rec)) zs). Q v x)" for zs by auto
  then show "(\<forall>(v, rec)\<in>set xs. Q v (f rec)) \<longleftrightarrow> (\<forall>(v, rec)\<in>set ys. Q v (f rec))" using assms by metis
qed

lemma mgr_wf_same:
  assumes "same_book m m'" "mgr_wf m"
  shows "mgr_wf m'"
proof -
  note b = assms(1) [unfolded same_book_def]
  note h = b [THEN conjunct2, THEN conjunct2, THEN conjunct2, THEN conjunct2, THEN conjunct2]
  have g: "map fst (m_gateways m') = map fst (m_gateways m)" by (rule gateways_same(1) [OF h])
  have "book_ok m' = book_ok m"
    using b gateways_same(2) [OF h, of "\<lambda>v x. x = gatewayPortID v"] by (simp add: book_ok_def)
  moreover have vs: "gateway_vlans m' = gateway_vlans m" using b g by (simp add: gateway_vlans_def)
  moreover have "owned m' = owned m" using b vs by (simp add: owned_def)
  then have "accounts m' = accounts m" using b by (simp add: accounts_def registered_def)
  moreover have "serves m' = serves m" using b by (simp add: serves_def fun_eq_iff)
  moreover have "shown m' = shown m" using b by (simp add: shown_def requests_def)
  ultimately show ?thesis using assms(2) b by (simp add: mgr_wf_def)
qed

lemma mgr_wf_on_switch: "mgr_wf (m\<lparr>m_sw := f (m_sw m)\<rparr>) \<Longrightarrow> mgr_wf (on_switch f m)"
  by (simp add: on_switch_def Let_def mgr_wf_same [OF same_book_hooks])

lemma request_owned:
  assumes "book_ok m" "r \<in> set (requests m)"
  shows "r_Identifier r \<in> set (map fst (m_ports m) @ map (r_Identifier \<circ> fst) (m_creating m))"
proof -
  from assms(2) consider i rec where "(i, rec) \<in> set (m_ports m)" "r = pr_req rec" | q where "(r, q) \<in> set (m_creating m)"
    by (auto simp: requests_def)
  then show ?thesis
  proof cases
    case 1
    then have "i = r_Identifier r" using assms(1) by (auto simp: book_ok_def)
    then show ?thesis using 1 by (auto simp: image_iff intro!: bexI [of _ "(i, rec)"])
  next
    case 2
    then show ?thesis by (auto simp: image_iff intro!: bexI [of _ "(r, q)"])
  qed
qed

lemma request_registered: "mgr_wf m \<Longrightarrow> r \<in> set (requests m) \<Longrightarrow> registered m (r_Identifier r)"
proof (rule ccontr)
  assume wf: "mgr_wf m" and r: "r \<in> set (requests m)" and n: "\<not> registered m (r_Identifier r)"
  then have "count_list (owned m) (r_Identifier r) = 0" by (simp add: mgr_wf_def accounts_def)
  moreover have "book_ok m" using wf by (simp add: mgr_wf_def)
  then have "r_Identifier r \<in> set (owned m)" using request_owned [OF _ r] by (auto simp: owned_def)
  ultimately show False using count_list_0_iff by metis
qed

text \<open>The switch may do what keeps the policy of all registered ports but subports.\<close>

lemma mgr_wf_switch:
  assumes "mgr_wf m" "sw_wf s" "\<And>pid. \<not> subport pid \<Longrightarrow> policy_of pid s = policy_of pid (m_sw m)"
  shows "mgr_wf (m\<lparr>m_sw := s\<rparr>)"
proof -
  have "owned (m\<lparr>m_sw := s\<rparr>) = owned m" "gateway_vlans (m\<lparr>m_sw := s\<rparr>) = gateway_vlans m" "book_ok (m\<lparr>m_sw := s\<rparr>) = book_ok m"
    by (simp_all add: owned_def gateway_vlans_def book_ok_def)
  moreover have "serves (m\<lparr>m_sw := s\<rparr>) v = serves m v" for v by (simp add: serves_def assms(3))
  moreover have "registered (m\<lparr>m_sw := s\<rparr>) pid = registered m pid" for pid
    using assms(3) [of pid] by (cases "subport pid") (simp_all add: registered_def)
  moreover have "shown (m\<lparr>m_sw := s\<rparr>)"
    using assms(1) request_registered [OF assms(1)] assms(3) by (auto simp: mgr_wf_def shown_def requests_def registered_def)
  ultimately show ?thesis using assms(1,2) by (simp add: mgr_wf_def accounts_def)
qed

lemma policy_foreign:
  assumes "sw_wf s" "foreign op" "\<not> subport pid"
  shows "policy_of pid (exec_sw op s) = policy_of pid s"
proof (cases "touches op")
  case None
  then have "registry (exec_sw op s) = registry s" using assms(2) by (intro registry_exec) (auto simp: foreign_def)
  then show ?thesis by (rule policy_of_registry)
next
  case (Some q)
  then have q: "q \<noteq> pid" using assms(2,3) by (auto simp: foreign_def)
  show ?thesis
  proof (cases op)
    case (OpAddPort i a)
    then show ?thesis using Some q policy_of_AddPort(1) [OF assms(1)] by (auto simp: or_same_def split: sum.splits)
  next
    case (OpUpdatePortAttrs i a)
    then show ?thesis using Some q policy_of_UpdatePortAttrs(1) [OF assms(1)] by (auto simp: or_same_def split: sum.splits)
  qed (use Some q in \<open>simp_all add: policy_of_RemovePort\<close>)
qed

lemma mgr_wf_foreign:
  assumes "mgr_wf m" "foreign op"
  shows "mgr_wf (on_switch (exec_sw op) m)"
proof -
  have w: "sw_wf (m_sw m)" using assms(1) by (simp add: mgr_wf_def)
  show ?thesis
    by (intro mgr_wf_on_switch mgr_wf_switch assms(1) sw_wf_exec w policy_foreign [OF w assms(2)])
qed

text \<open>Moving an identifier from one owner to another.\<close>

lemma mgr_wf_move:
  assumes "mgr_wf m" "m_sw m' = m_sw m" "\<And>p. count_list (owned m') p = count_list (owned m) p"
    "set (gateway_vlans m') \<subseteq> set (gateway_vlans m)" "book_ok m'" "set (requests m') \<subseteq> set (requests m)"
  shows "mgr_wf m'"
proof -
  have "registered m' = registered m" "serves m' = serves m" using assms(2) by (simp_all add: registered_def serves_def fun_eq_iff)
  moreover have "shown m'" using assms(1,2,6) by (auto simp: mgr_wf_def shown_def)
  ultimately show ?thesis using assms by (auto simp: mgr_wf_def accounts_def)
qed

lemma owned_le_one: "mgr_wf m \<Longrightarrow> count_list (owned m) pid \<le> 1"
  by (simp add: mgr_wf_def accounts_def)

lemma distinct_counts: "(\<And>x. count_list xs x \<le> 1) \<Longrightarrow> distinct xs"
proof (induction xs)
  case (Cons y xs)
  have "count_list xs x \<le> 1" for x using Cons.prems [of x] by (simp split: if_splits)
  moreover have "count_list xs y = 0" using Cons.prems [of y] by simp
  ultimately show ?case using Cons.IH by (simp add: count_list_0_iff)
qed simp

lemma count_key: "k \<in> fst ` set xs \<longleftrightarrow> count_list (map fst xs) k \<noteq> 0"
  by (simp add: count_list_0_iff)

lemma owned_count:
  "count_list (owned m) p = count_list (map fst (m_ports m)) p + count_list (map (r_Identifier \<circ> fst) (m_creating m)) p
     + count_list (map gatewayPortID (gateway_vlans m)) p + count_list (m_removing m) p"
  by (simp add: owned_def)

text \<open>An identifier has one owner only.\<close>

lemma one_owner:
  assumes "mgr_wf m" "v \<in> set (gateway_vlans m)"
  shows "gatewayPortID v \<notin> fst ` set (m_ports m)" "gatewayPortID v \<notin> set (m_removing m)" "count_list (gateway_vlans m) v = 1"
proof -
  have "count_list (map gatewayPortID vs) (gatewayPortID v) = count_list vs v" for vs by (induction vs) auto
  then have "count_list (map fst (m_ports m)) (gatewayPortID v) + count_list (gateway_vlans m) v + count_list (m_removing m) (gatewayPortID v) \<le> 1"
    using owned_le_one [OF assms(1), of "gatewayPortID v"] by (simp add: owned_count)
  moreover have "count_list (gateway_vlans m) v \<noteq> 0" using assms(2) by (simp add: count_list_0_iff)
  ultimately have "count_list (map fst (m_ports m)) (gatewayPortID v) = 0" "count_list (m_removing m) (gatewayPortID v) = 0"
    "count_list (gateway_vlans m) v = 1" by linarith+
  then show "gatewayPortID v \<notin> fst ` set (m_ports m)" "gatewayPortID v \<notin> set (m_removing m)" "count_list (gateway_vlans m) v = 1"
    by (simp_all add: count_list_0_iff)
qed

lemma count_keys_mput: "k \<notin> fst ` set xs \<Longrightarrow> count_list (map fst (mput k v xs)) p = count_list (map fst xs) p + (if k = p then 1 else 0)"
  by (simp add: keys_mput)

lemma mput_mem: "x \<in> set (mput k v xs) \<Longrightarrow> x = (k, v) \<or> x \<in> set xs"
  by (induction xs) (auto simp: mput_def split: if_splits)

lemma mdel_mem: "x \<in> set (mdel k xs) \<Longrightarrow> x \<in> set xs"
  by (simp add: mdel_def)

lemma map_o_fst: "map (f \<circ> fst) xs = map f (map fst xs)"
  by simp

section \<open>Ports\<close>

lemma build_port_subs: "build_port env r a = Inr p \<Longrightarrow> subs_ok p"
  by (auto simp: build_port_def of_new_def of_built_def NewServer_def start_stream_def start_dgram_def newStreamServer_def
      NewClient_def NewVhostUser_def subs_ok_def Let_def split: sum.splits if_splits option.splits prod.splits)

lemma register_port_cases:
  assumes "register_port env r m = Inr (p, m1)"
  obtains a s where "Attrs r = Inr a" "AddPort (r_Identifier r) a (m_sw m) = Inr s" "m1 = m\<lparr>m_sw := s\<rparr>"
    "\<not> subport (r_Identifier r)" "subs_ok p" "mget (m_ports m) (r_Identifier r) = None"
  using assms identifier_no_at build_port_subs
  by (auto simp: register_port_def subport_def split: option.splits sum.splits if_splits)

lemma mgr_wf_added:
  assumes wf: "mgr_wf m" and add: "AddPort pid a (m_sw m) = Inr s" and sub: "\<not> subport pid"
    and sw: "m_sw m' = s" and own: "\<And>p. count_list (owned m') p = count_list (owned m) p + (if p = pid then 1 else 0)"
    and gw: "\<And>v. v \<in> set (gateway_vlans m') \<Longrightarrow> v \<in> set (gateway_vlans m) \<or> gatewayPortID v = pid \<and> VLAN a = v"
    and book: "book_ok m'"
    and req: "\<And>r. r \<in> set (requests m') \<Longrightarrow> r \<in> set (requests m) \<or> r_Identifier r = pid \<and> shows_policy r (Some a)"
  shows "mgr_wf m'"
proof -
  have w: "sw_wf (m_sw m)" using wf by (simp add: mgr_wf_def)
  note pol = policy_of_AddPort [OF w add]
  have new: "policy_of pid (m_sw m) = None" using pol(2) by (simp add: policy_of_def)
  have "sw_wf s" by (rule sw_wf_AddPort [OF w add])
  moreover have "registered m' p \<longleftrightarrow> registered m p \<or> p = pid" for p
    using sub new by (auto simp: registered_def sw pol(1))
  then have "accounts m'" using wf own new by (auto simp: mgr_wf_def accounts_def registered_def)
  moreover have "serves m' v" if "v \<in> set (gateway_vlans m')" for v
    using gw [OF that] wf new by (auto simp: mgr_wf_def serves_def sw pol(1))
  moreover have "shows_policy r (policy_of (r_Identifier r) (m_sw m'))" if r: "r \<in> set (requests m')" for r
  proof (cases "r \<in> set (requests m)")
    case True
    then have "policy_of (r_Identifier r) (m_sw m') = policy_of (r_Identifier r) (m_sw m)"
      using request_registered [OF wf True] new by (auto simp: registered_def sw pol(1))
    then show ?thesis using wf True by (simp add: mgr_wf_def shown_def)
  next
    case False
    then show ?thesis using req [OF r] by (simp add: sw pol(1) shows_policy_def)
  qed
  ultimately show ?thesis using book sw by (simp add: mgr_wf_def shown_def)
qed

lemma Attrs_shown: "Attrs r = Inr a \<Longrightarrow> shows_policy r (Some a)"
  by (auto simp: Attrs_def shows_policy_def Let_def split: option.splits)

lemma mgr_wf_create:
  assumes "mgr_wf m" "register_port env r m = Inr (p, m1)"
  shows "mgr_wf (m1\<lparr>m_creating := m_creating m @ [(r, p)]\<rparr>)"
proof -
  obtain a s where c: "AddPort (r_Identifier r) a (m_sw m) = Inr s" "m1 = m\<lparr>m_sw := s\<rparr>" "\<not> subport (r_Identifier r)" "subs_ok p"
    "Attrs r = Inr a" by (rule register_port_cases [OF assms(2)])
  show ?thesis
    by (rule mgr_wf_added [OF assms(1) c(1,3)])
      (use assms(1) c Attrs_shown [OF c(5)] in \<open>auto simp: owned_count gateway_vlans_def book_ok_def mgr_wf_def requests_def\<close>)
qed

lemma mgr_wf_record:
  assumes wf: "mgr_wf m" and n: "n < length (m_creating m)" "m_creating m ! n = (r, p)"
  shows "mgr_wf (record_port r p (m\<lparr>m_creating := drop_at n (m_creating m)\<rparr>))"
proof -
  let ?i = "r_Identifier r"
  note d = count_drop_at [OF n(1), of "r_Identifier \<circ> fst", unfolded n(2)]
  have "r_Identifier r \<notin> fst ` set (m_ports m)"
    using owned_le_one [OF wf, of ?i] d [of ?i] by (auto simp: owned_count count_key)
  then have "count_list (owned (record_port r p (m\<lparr>m_creating := drop_at n (m_creating m)\<rparr>))) q = count_list (owned m) q" for q
    using d [of q] by (simp add: owned_count gateway_vlans_def record_port_def count_keys_mput)
  moreover have mem: "(r, p) \<in> set (m_creating m)" using n nth_mem by metis
  then have "book_ok (record_port r p (m\<lparr>m_creating := drop_at n (m_creating m)\<rparr>))"
    using wf set_drop_at [of n "m_creating m"] by (auto simp: mgr_wf_def book_ok_def record_port_def dest!: mput_mem)
  moreover have "set (requests (record_port r p (m\<lparr>m_creating := drop_at n (m_creating m)\<rparr>))) \<subseteq> set (requests m)"
    using mem set_drop_at [of n "m_creating m"] by (force simp: requests_def record_port_def dest!: mput_mem)
  ultimately show ?thesis by (intro mgr_wf_move [OF wf]) (simp_all add: record_port_def gateway_vlans_def)
qed

lemma mgr_wf_start_delete:
  assumes wf: "mgr_wf m"
  shows "mgr_wf (start_delete pid m)"
proof (cases "mget (m_ports m) pid")
  case (Some rec)
  then have "pid \<in> fst ` set (m_ports m)" by (metis mget_None_iff option.distinct(1))
  then have one: "count_list (map fst (m_ports m)) pid = 1"
    using owned_le_one [OF wf, of pid] by (simp add: count_key owned_count)
  have "count_list (owned (start_delete pid m)) q = count_list (owned m) q" for q
    using one by (cases "q = pid")
      (simp_all add: start_delete_def unrecord_port_def Some owned_count gateway_vlans_def keys_mdel count_filter)
  moreover have "book_ok (start_delete pid m)"
    using wf by (auto simp: mgr_wf_def book_ok_def start_delete_def unrecord_port_def Some dest!: mdel_mem)
  ultimately show ?thesis
    by (intro mgr_wf_move [OF wf])
      (auto simp: start_delete_def unrecord_port_def Some gateway_vlans_def requests_def dest!: mdel_mem)
qed (simp add: start_delete_def unrecord_port_def assms)

lemma mgr_wf_remove:
  assumes wf: "mgr_wf m" and n: "n < length (m_removing m)"
  shows "mgr_wf (on_switch (RemovePort (m_removing m ! n)) (m\<lparr>m_removing := drop_at n (m_removing m)\<rparr>))"
proof (rule mgr_wf_on_switch)
  let ?p = "m_removing m ! n"
  let ?m = "m\<lparr>m_removing := drop_at n (m_removing m), m_sw := RemovePort ?p (m_sw m)\<rparr>"
  note d = count_drop_at [OF n, of "\<lambda>x. x", simplified]
  have own: "count_list (owned m) q = count_list (owned ?m) q + (if ?p = q then 1 else 0)" for q
    using d [of q] by (simp add: owned_count gateway_vlans_def)
  have one: "count_list (owned ?m) ?p = 0" "registered m ?p"
    using own [of ?p] wf by (auto simp: mgr_wf_def accounts_def split: if_splits)
  have "count_list (owned ?m) q = (if registered ?m q then 1 else 0)" for q
  proof -
    have "registered ?m q \<longleftrightarrow> registered m q \<and> q \<noteq> ?p" by (auto simp: registered_def policy_of_RemovePort)
    moreover have "count_list (owned m) q = (if registered m q then 1 else 0)" using wf by (simp add: mgr_wf_def accounts_def)
    ultimately show ?thesis using own [of q] one by (cases "q = ?p") simp_all
  qed
  then have "accounts ?m" by (simp add: accounts_def)
  moreover have "serves ?m v" if v: "v \<in> set (gateway_vlans m)" for v
  proof -
    have "gatewayPortID v \<noteq> ?p" using one_owner(2) [OF wf v] nth_mem [OF n] by metis
    then show ?thesis using wf v by (simp add: mgr_wf_def serves_def policy_of_RemovePort)
  qed
  moreover have "shown ?m"
    unfolding shown_def
  proof
    fix r
    assume "r \<in> set (requests ?m)"
    then have r: "r \<in> set (requests m)" by (simp add: requests_def)
    have "?p \<noteq> r_Identifier r"
    proof
      assume e: "?p = r_Identifier r"
      have "book_ok m" using wf by (simp add: mgr_wf_def)
      then have "?p \<in> set (owned ?m)" using request_owned [OF _ r] e by (auto simp: owned_def)
      then show False using one(1) count_list_0_iff by metis
    qed
    then show "shows_policy r (policy_of (r_Identifier r) (m_sw ?m))"
      using wf r by (simp add: mgr_wf_def shown_def policy_of_RemovePort)
  qed
  ultimately show "mgr_wf (m\<lparr>m_removing := drop_at n (m_removing m),
      m_sw := RemovePort ?p (m_sw (m\<lparr>m_removing := drop_at n (m_removing m)\<rparr>))\<rparr>)"
    using wf sw_wf_RemovePort by (auto simp: mgr_wf_def gateway_vlans_def book_ok_def)
qed

section \<open>Attributes\<close>

lemma update_all:
  assumes "sw_wf s" "list_all subport subs"
  shows "sw_wf (fold (\<lambda>i t. or_same t (UpdatePortAttrs i a t)) subs s)
    \<and> (\<forall>pid. \<not> subport pid \<longrightarrow> policy_of pid (fold (\<lambda>i t. or_same t (UpdatePortAttrs i a t)) subs s) = policy_of pid s)"
  using assms
proof (induction subs arbitrary: s)
  case (Cons i subs)
  have w: "sw_wf (or_same s (UpdatePortAttrs i a s))"
    using Cons.prems(1) sw_wf_UpdatePortAttrs by (blast intro: sw_wf_or_same)
  have "policy_of pid (or_same s (UpdatePortAttrs i a s)) = policy_of pid s" if "\<not> subport pid" for pid
    using that Cons.prems policy_of_UpdatePortAttrs(1) [OF Cons.prems(1)] by (auto simp: or_same_def split: sum.splits)
  then show ?case using Cons.IH [OF w] Cons.prems(2) by simp
qed simp

lemma patch_cases:
  assumes "PatchPort pid patch m = (Inr i, m')"
  obtains rec a0 a s p subs where "mget (m_ports m) pid = Some rec" "PortAttrs_of pid (m_sw m) = Some a0" "Apply patch a0 = Inr a"
    "UpdatePortAttrs pid a (m_sw m) = Inr s" "sub_updater a (pr_port rec) = (p, subs)"
    "m' = m\<lparr>m_sw := fold (\<lambda>i t. or_same t (UpdatePortAttrs i a t)) subs s,
           m_ports := mput pid \<lparr>pr_req = patch_req a (pr_req rec), pr_port = p\<rparr> (m_ports m)\<rparr>" "portInfoLocked pid m' = Inr i"
  using assms by (auto simp: PatchPort_def Let_def split: option.splits sum.splits prod.splits)

lemma patch_error: "PatchPort pid patch m = (Inl e, m') \<Longrightarrow> m' = m"
  by (auto simp: PatchPort_def portInfoLocked_def go_map Let_def split: option.splits sum.splits prod.splits)

lemma subs_updater: "subs_ok p \<Longrightarrow> sub_updater a p = (q, subs) \<Longrightarrow> subs_ok q \<and> list_all subport subs"
  by (auto simp: sub_updater_def subs_ok_def list_all_iff split: ManagedPort.splits)

lemma mput_mem_wf: "distinct (map fst xs) \<Longrightarrow> x \<in> set (mput k v xs) \<Longrightarrow> x = (k, v) \<or> x \<in> set xs \<and> fst x \<noteq> k"
  by (induction xs) (auto simp: mput_def split: if_splits)

lemma ports_distinct:
  assumes "mgr_wf m"
  shows "distinct (map fst (m_ports m))"
proof (rule distinct_counts)
  show "count_list (map fst (m_ports m)) x \<le> 1" for x
    using owned_le_one [OF assms, of x] by (simp add: owned_count)
qed

lemma patched_shown:
  assumes "UpdatePortAttrs pid a s = Inr s'"
  shows "shows_policy (patch_req a r) (Some (a\<lparr>Disabled := False\<rparr>))"
proof -
  have "length mac = 6" if "SecurityMAC a = Some mac" for mac
    using assms that by (auto simp: UpdatePortAttrs_def validate_def macLen_def split: option.splits if_splits)
  then show ?thesis
    by (cases "SecurityMAC a") (auto simp: shows_policy_def patch_req_def ParseMAC_String)
qed

lemma shown_patch:
  assumes wf: "mgr_wf m" and c: "mget (m_ports m) pid = Some rec" "UpdatePortAttrs pid a (m_sw m) = Inr s"
      "sub_updater a (pr_port rec) = (p, subs)"
      "m' = m\<lparr>m_sw := fold (\<lambda>i t. or_same t (UpdatePortAttrs i a t)) subs s,
           m_ports := mput pid \<lparr>pr_req = patch_req a (pr_req rec), pr_port = p\<rparr> (m_ports m)\<rparr>"
    and pol: "\<And>q. \<not> subport q \<Longrightarrow> policy_of q (m_sw m') = (if q = pid then Some (a\<lparr>Disabled := False\<rparr>) else policy_of q (m_sw m))"
  shows "shown m'"
  unfolding shown_def
proof
  fix r
  assume r: "r \<in> set (requests m')"
  have b: "book_ok m" using wf by (simp add: mgr_wf_def)
  have mem: "(pid, rec) \<in> set (m_ports m)" by (rule mget_Some_mem [OF c(1)])
  have i: "r_Identifier (pr_req rec) = pid" using b mem by (auto simp: book_ok_def)
  have ns: "\<not> subport pid"
    using request_registered [OF wf, of "pr_req rec"] mem i by (force simp: requests_def registered_def)
  have nc: "pid \<notin> set (map (r_Identifier \<circ> fst) (m_creating m))"
  proof
    assume "pid \<in> set (map (r_Identifier \<circ> fst) (m_creating m))"
    then have "count_list (map (r_Identifier \<circ> fst) (m_creating m)) pid \<noteq> 0" using count_list_0_iff by metis
    moreover have "pid \<in> fst ` set (m_ports m)" using mem by force
    ultimately show False using owned_le_one [OF wf, of pid] by (simp add: owned_count count_key)
  qed
  have d: "distinct (map fst (m_ports m))" by (rule ports_distinct [OF wf])
  from r consider (new) i rec' where "(i, rec') \<in> set (mput pid \<lparr>pr_req = patch_req a (pr_req rec), pr_port = p\<rparr> (m_ports m))"
      "r = pr_req rec'" | (old) q where "(r, q) \<in> set (m_creating m)"
    by (auto simp: requests_def c(4))
  then consider "r = patch_req a (pr_req rec)" | "r \<in> set (requests m)" "r_Identifier r \<noteq> pid"
  proof cases
    case (new i rec')
    from mput_mem_wf [OF d new(1)] show thesis
    proof
      assume "(i, rec') = (pid, \<lparr>pr_req = patch_req a (pr_req rec), pr_port = p\<rparr>)"
      then show thesis using that(1) new(2) by simp
    next
      assume o: "(i, rec') \<in> set (m_ports m) \<and> fst (i, rec') \<noteq> pid"
      then have "r_Identifier r = i" using b new(2) by (auto simp: book_ok_def)
      moreover have "r \<in> set (requests m)" using o new(2) by (auto simp: requests_def image_iff intro!: bexI [of _ "(i, rec')"])
      ultimately show thesis using that(2) o by simp
    qed
  next
    case (old q)
    then have "r_Identifier r \<noteq> pid" using nc by (auto simp: image_iff)
    moreover have "r \<in> set (requests m)" using old by (auto simp: requests_def image_iff intro!: bexI [of _ "(r, q)"])
    ultimately show thesis by (rule that(2) [rotated])
  qed
  then show "shows_policy r (policy_of (r_Identifier r) (m_sw m'))"
  proof cases
    case 1
    then show ?thesis using i ns patched_shown [OF c(2)] by (simp add: pol patch_req_def)
  next
    case 2
    then have "\<not> subport (r_Identifier r)" using request_registered [OF wf] by (simp add: registered_def)
    then show ?thesis using 2 wf by (simp add: pol mgr_wf_def shown_def)
  qed
qed

lemma mgr_wf_patch:
  assumes wf: "mgr_wf m"
  shows "mgr_wf (snd (PatchPort pid patch m))"
proof (cases "fst (PatchPort pid patch m)")
  case (Inl e)
  then show ?thesis using wf patch_error [of pid patch m e] by (metis prod.collapse)
next
  case (Inr i)
  obtain m' where r: "PatchPort pid patch m = (Inr i, m')" using Inr by (metis prod.collapse)
  obtain rec a s p subs where c: "mget (m_ports m) pid = Some rec" "UpdatePortAttrs pid a (m_sw m) = Inr s"
      "sub_updater a (pr_port rec) = (p, subs)"
      "m' = m\<lparr>m_sw := fold (\<lambda>i t. or_same t (UpdatePortAttrs i a t)) subs s,
           m_ports := mput pid \<lparr>pr_req = patch_req a (pr_req rec), pr_port = p\<rparr> (m_ports m)\<rparr>"
    by (rule patch_cases [OF r])
  have w: "sw_wf (m_sw m)" and b: "book_ok m" using wf by (simp_all add: mgr_wf_def)
  have mem: "(pid, rec) \<in> set (m_ports m)" by (rule mget_Some_mem [OF c(1)])
  then have "subs_ok (pr_port rec)" using b by (auto simp: book_ok_def)
  from subs_updater [OF this c(3)] have subs: "subs_ok p" "list_all subport subs" by auto
  have s: "sw_wf s" by (rule sw_wf_UpdatePortAttrs [OF w c(2)])
  note u = update_all [OF s subs(2), of a]
  have in_ports: "pid \<in> fst ` set (m_ports m)" using mem by force
  have own: "owned m' = owned m" using in_ports by (simp add: owned_def gateway_vlans_def c(4) keys_mput)
  have pol: "policy_of q (m_sw m') = (if q = pid then Some (a\<lparr>Disabled := False\<rparr>) else policy_of q (m_sw m))" if "\<not> subport q" for q
    using that u policy_of_UpdatePortAttrs(1) [OF w c(2), of q] by (simp add: c(4))
  have reg: "registered m' q = registered m q" for q
    using pol [of q] policy_of_UpdatePortAttrs(2) [OF w c(2)] by (cases "subport q") (auto simp: registered_def policy_of_def)
  have "accounts m'" using wf own reg by (simp add: mgr_wf_def accounts_def)
  moreover have "serves m' v" if v: "v \<in> set (gateway_vlans m')" for v
  proof -
    have v': "v \<in> set (gateway_vlans m)" using v by (simp add: gateway_vlans_def c(4))
    have "gatewayPortID v \<noteq> pid" using one_owner(1) [OF wf v'] in_ports by metis
    then show ?thesis using wf v' pol [of "gatewayPortID v"] by (simp add: mgr_wf_def serves_def)
  qed
  moreover have "book_ok m'"
    using b mem subs(1) by (auto simp: book_ok_def c(4) patch_req_def dest!: mput_mem)
  moreover have "shown m'" by (rule shown_patch [OF wf c pol])
  ultimately show ?thesis using r u by (simp add: mgr_wf_def c(4))
qed

section \<open>Gateways\<close>

lemma NewGateway_PortID: "NewGateway sns c = Inr g \<Longrightarrow> gc_PortID (g_cfg g) = gc_PortID c"
  by (auto simp: NewGateway_def blank_gateway_def Let_def split: if_splits option.splits)

lemma gateway_config_PortID: "gateway_config r = Inr c \<Longrightarrow> gc_PortID c = gatewayPortID (gr_VLAN r)"
  by (auto simp: gateway_config_def split: sum.splits)

lemma register_gateway_cases:
  assumes "register_gateway sns r m = Inr (g, m1)"
  obtains s where "AddPort (gatewayPortID (gr_VLAN r)) (gateway_attrs r) (m_sw m) = Inr s" "m1 = m\<lparr>m_sw := s\<rparr>"
    "gc_PortID (g_cfg g) = gatewayPortID (gr_VLAN r)" "mget (m_gateways m) (gr_VLAN r) = None"
proof -
  obtain c s where c: "gateway_config r = Inr c" "NewGateway sns c = Inr g" "AddPort (gc_PortID c) (gateway_attrs r) (m_sw m) = Inr s"
      "m1 = m\<lparr>m_sw := s\<rparr>" "mget (m_gateways m) (gr_VLAN r) = None"
    using assms by (auto simp: register_gateway_def split: if_splits sum.splits)
  then show thesis using that gateway_config_PortID [OF c(1)] NewGateway_PortID [OF c(2)] by simp
qed

lemma mgr_wf_create_gateway:
  assumes "mgr_wf m" "register_gateway sns r m = Inr (g, m1)"
  shows "mgr_wf (m1\<lparr>m_gcreating := m_gcreating m @ [(r, g)]\<rparr>)"
proof -
  obtain s where c: "AddPort (gatewayPortID (gr_VLAN r)) (gateway_attrs r) (m_sw m) = Inr s" "m1 = m\<lparr>m_sw := s\<rparr>"
      "gc_PortID (g_cfg g) = gatewayPortID (gr_VLAN r)" by (rule register_gateway_cases [OF assms(2)])
  show ?thesis
    by (rule mgr_wf_added [OF assms(1) c(1)])
      (use assms(1) c in \<open>auto simp: owned_count gateway_vlans_def book_ok_def mgr_wf_def gateway_attrs_def requests_def\<close>)
qed

text \<open>The second look for a duplicate never finds one.\<close>

lemma gateway_recheck:
  assumes wf: "mgr_wf m" and n: "n < length (m_gcreating m)" "m_gcreating m ! n = (r, g)"
  shows "mget (m_gateways m) (gr_VLAN r) = None"
proof (rule ccontr)
  assume "mget (m_gateways m) (gr_VLAN r) \<noteq> None"
  then have "count_list (map fst (m_gateways m)) (gr_VLAN r) \<noteq> 0" by (simp add: mget_None_iff count_key)
  moreover have mem: "(r, g) \<in> set (m_gcreating m)" using n nth_mem by metis
  then have "gr_VLAN r \<in> set (map (gr_VLAN \<circ> fst) (m_gcreating m))" by force
  then have "count_list (map (gr_VLAN \<circ> fst) (m_gcreating m)) (gr_VLAN r) \<noteq> 0" using count_list_0_iff by metis
  moreover have "gr_VLAN r \<in> set (gateway_vlans m)" using mem by (force simp: gateway_vlans_def)
  ultimately show False using one_owner(3) [OF wf] by (fastforce simp: gateway_vlans_def)
qed

lemma mgr_wf_record_gateway:
  assumes wf: "mgr_wf m" and n: "n < length (m_gcreating m)" "m_gcreating m ! n = (r, g)"
  shows "mgr_wf (snd (record_gateway r g (m\<lparr>m_gcreating := drop_at n (m_gcreating m)\<rparr>)))" (is "mgr_wf ?m")
proof -
  have none: "mget (m_gateways m) (gr_VLAN r) = None" by (rule gateway_recheck [OF wf n])
  then have new: "gr_VLAN r \<notin> fst ` set (m_gateways m)" by (simp add: mget_None_iff)
  have mem: "(r, g) \<in> set (m_gcreating m)" using n nth_mem by metis
  have "count_list (gateway_vlans ?m) v = count_list (gateway_vlans m) v" for v
    using count_drop_at [OF n(1), of "gr_VLAN \<circ> fst" v] new n(2)
    by (simp add: record_gateway_def none gateway_vlans_def count_keys_mput)
  then have "mset (gateway_vlans ?m) = mset (gateway_vlans m)"
    by (simp add: multiset_eq_iff count_mset)
  then have vs: "mset (map gatewayPortID (gateway_vlans ?m)) = mset (map gatewayPortID (gateway_vlans m))"
    "set (gateway_vlans ?m) = set (gateway_vlans m)" by (simp_all add: mset_map) (metis set_mset_mset)
  have "count_list (map gatewayPortID (gateway_vlans ?m)) p = count_list (map gatewayPortID (gateway_vlans m)) p" for p
    using arg_cong [OF vs(1), of "\<lambda>M. count M p"] by (simp only: count_mset)
  then have "count_list (owned ?m) p = count_list (owned m) p" for p
    by (simp add: owned_count record_gateway_def none)
  moreover have "book_ok ?m"
    using wf mem set_drop_at [of n "m_gcreating m"]
    by (auto simp: mgr_wf_def book_ok_def record_gateway_def none dest!: mput_mem)
  ultimately show ?thesis using vs(2) by (intro mgr_wf_move [OF wf]) (simp_all add: record_gateway_def none requests_def)
qed

lemma mgr_wf_delete_gateway:
  assumes wf: "mgr_wf m" and u: "unrecord_gateway vlan m = Inr (rec, m1)"
  shows "mgr_wf (m1\<lparr>m_removing := m_removing m @ [gc_PortID (g_cfg (gw_gw rec))]\<rparr>)" (is "mgr_wf ?m")
proof -
  have g: "mget (m_gateways m) vlan = Some rec" "m1 = m\<lparr>m_gateways := mdel vlan (m_gateways m)\<rparr>"
    using u by (auto simp: unrecord_gateway_def split: option.splits)
  have mem: "(vlan, rec) \<in> set (m_gateways m)" by (rule mget_Some_mem [OF g(1)])
  have i: "gc_PortID (g_cfg (gw_gw rec)) = gatewayPortID vlan" using wf mem by (auto simp: mgr_wf_def book_ok_def)
  have "vlan \<in> fst ` set (m_gateways m)" using mem by force
  then have v: "vlan \<in> set (gateway_vlans m)" "count_list (map fst (m_gateways m)) vlan \<noteq> 0"
    by (simp_all add: gateway_vlans_def count_key)
  have one: "count_list (map fst (m_gateways m)) vlan = 1" "count_list (map (gr_VLAN \<circ> fst) (m_gcreating m)) vlan = 0"
    using one_owner(3) [OF wf v(1)] v(2) by (simp_all add: gateway_vlans_def)
  have "count_list (owned ?m) p = count_list (owned m) p" for p
  proof (cases "p = gatewayPortID vlan")
    case True
    have n: "count_list (map gatewayPortID vs) (gatewayPortID vlan) = count_list vs vlan" for vs by (induction vs) auto
    show ?thesis using one True n [of "map fst (m_gateways m)"]
      by (simp add: owned_count gateway_vlans_def g(2) i keys_mdel count_filter n)
  next
    case False
    have "count_list (map gatewayPortID (filter (\<lambda>v. v \<noteq> vlan) vs)) p = count_list (map gatewayPortID vs) p" for vs
      using False by (induction vs) auto
    then show ?thesis using False by (simp add: owned_count gateway_vlans_def g(2) i keys_mdel)
  qed
  moreover have "book_ok ?m" using wf by (auto simp: mgr_wf_def book_ok_def g(2) dest!: mdel_mem)
  ultimately show ?thesis
    by (intro mgr_wf_move [OF wf]) (auto simp: gateway_vlans_def g(2) requests_def dest!: mdel_mem)
qed

section \<open>All steps\<close>

lemma mgr_wf_set_port:
  assumes wf: "mgr_wf m" and "subs_ok p"
  shows "mgr_wf (set_port pid p m)"
proof -
  have "map fst (m_ports (set_port pid p m)) = map fst (m_ports m)"
    "map (r_Identifier \<circ> fst) (m_creating (set_port pid p m)) = map (r_Identifier \<circ> fst) (m_creating m)"
    by (simp_all add: set_port_def comp_def case_prod_beta)
  then have "owned (set_port pid p m) = owned m" by (simp add: owned_def gateway_vlans_def set_port_def)
  moreover have "book_ok (set_port pid p m)" using assms by (auto simp: mgr_wf_def book_ok_def set_port_def)
  moreover have "requests (set_port pid p m) = requests m" by (auto simp: requests_def set_port_def)
  ultimately show ?thesis by (intro mgr_wf_move [OF wf]) (simp_all add: set_port_def gateway_vlans_def)
qed

lemma mgr_wf_set_gateway:
  assumes "mgr_wf m" "\<And>g. g_cfg (f g) = g_cfg g"
  shows "mgr_wf (set_gateway vlan f m)"
  by (rule mgr_wf_same [OF _ assms(1)]) (auto simp: same_book_def set_gateway_def assms(2))

lemma mgr_wf_exec:
  assumes "mgr_wf m"
  shows "mgr_wf (exec_mgr op m)"
proof (cases op)
  case (MCreatePort env r)
  then show ?thesis using assms mgr_wf_create [OF assms] by (auto split: sum.splits)
next
  case (MRecordPort n)
  then show ?thesis using assms mgr_wf_record [OF assms] by (auto split: prod.splits)
next
  case (MPatchPort pid patch)
  then show ?thesis using mgr_wf_patch [OF assms] by simp
next
  case (MDeletePort pid)
  then show ?thesis using mgr_wf_start_delete [OF assms] by simp
next
  case (MRemove n)
  then show ?thesis using assms mgr_wf_remove [OF assms] by simp
next
  case (MAuto n)
  have "mgr_wf (m\<lparr>m_deletes := drop_at n (m_deletes m)\<rparr>)"
    by (rule mgr_wf_same [OF _ assms]) (simp add: same_book_def)
  then show ?thesis using MAuto assms mgr_wf_start_delete by simp
next
  case (MCreateGateway sns r)
  then show ?thesis using assms mgr_wf_create_gateway [OF assms] by (auto split: sum.splits)
next
  case (MRecordGateway n)
  then show ?thesis using assms mgr_wf_record_gateway [OF assms] by (auto split: prod.splits)
next
  case (MDeleteGateway vlan)
  then show ?thesis using assms mgr_wf_delete_gateway [OF assms] by (auto split: sum.splits)
next
  case (MPortState pid p)
  then show ?thesis using assms mgr_wf_set_port [OF assms] by simp
next
  case (MOnGateway vlan f)
  then show ?thesis by (simp add: mgr_wf_set_gateway [OF assms])
next
  case (MSwitch op)
  then show ?thesis using assms mgr_wf_foreign [OF assms] by simp
qed

interpretation mgr: invariant_system exec_mgr mgr_wf
  by unfold_locales (rule mgr_wf_exec)

lemma mgr_wf_New: "mgr_wf (NewManager random8)"
proof -
  have "sw_wf (OnPortDown 0 (New random8))" using sw_wf_exec [OF sw_wf_New, of "OpOnPortDown 0"] by simp
  then show ?thesis
    by (simp add: mgr_wf_def accounts_def registered_def owned_def gateway_vlans_def book_ok_def NewManager_def policy_of_def
        shown_def requests_def)
      (simp add: OnPortDown_def New_def Let_def)
qed

lemma reachable_mgr_wf: "mgr_wf (fold exec_mgr ops (NewManager random8))"
  by (rule mgr.inv_run [OF mgr_wf_New])

section \<open>Properties\<close>


end
