(* ===== verification/ManagerProps.thy ===== *)
theory ManagerProps
  imports ManagerInv
begin

text \<open>
  What clients of the manager see: answers show the policy the switch enforces, changes of attributes
  happen completely or not at all, and the two races of automatic removal.
\<close>

section \<open>Attributes under changes\<close>

lemma PortAttrs_UpdatePortAttrs:
  assumes "sw_wf s" "UpdatePortAttrs pid a s = Inr s'"
  shows "PortAttrs_of p s' = (if p = pid then Some a else PortAttrs_of p s)"
proof -
  obtain r where r: "mget (ports s) pid = Some r"
    and s': "ports s' = ports s" "map attrs (store s') = (map attrs (store s))[r := a]"
    using assms(2) by (auto simp: UpdatePortAttrs_def portChangedLocked_def upd_ent_def upd_fdb_def map_update Let_def
        split: option.splits if_splits)
  have l: "r < length (store s)" "pe_id (ent s r) = pid" using sw_wfD(5) [OF assms(1) r] by (simp_all add: entry_ok_def)
  have len: "length (store s') = length (store s)" using arg_cong [OF s'(2), of length] by simp
  have at: "attrs (store s' ! q) = (if q = r then a else attrs (store s ! q))" if "q < length (store s)" for q
  proof -
    have "map attrs (store s') ! q = (map attrs (store s))[r := a] ! q" using s'(2) by simp
    then show ?thesis using that len by (simp add: nth_list_update)
  qed
  show ?thesis
  proof (cases "mget (ports s) p")
    case (Some q)
    have q: "q < length (store s)" "pe_id (ent s q) = p" using sw_wfD(5) [OF assms(1) Some] by (simp_all add: entry_ok_def)
    have "q = r \<longleftrightarrow> p = pid" using l(2) q(2) r Some by (metis option.inject)
    then show ?thesis using at [OF q(1)] Some s'(1) r by (simp add: PortAttrs_of_def ent_def)
  qed (use r s'(1) in \<open>auto simp: PortAttrs_of_def\<close>)
qed

lemma UpdatePortAttrs_registered: "validate a = None \<Longrightarrow> PortAttrs_of i s \<noteq> None \<Longrightarrow> \<exists>s'. UpdatePortAttrs i a s = Inr s'"
  by (auto simp: UpdatePortAttrs_def PortAttrs_of_def Let_def)

lemma UpdatePortAttrs_ok: "UpdatePortAttrs i a s = Inr s' \<Longrightarrow> validate a = None"
  by (auto simp: UpdatePortAttrs_def split: option.splits)

text \<open>The subports that are registered get the attributes; nothing else changes.\<close>

lemma update_subs:
  assumes "sw_wf s" "validate a = None"
  shows "PortAttrs_of p (fold (\<lambda>i t. or_same t (UpdatePortAttrs i a t)) subs s)
    = (if p \<in> set subs \<and> PortAttrs_of p s \<noteq> None then Some a else PortAttrs_of p s)"
  using assms(1)
proof (induction subs arbitrary: s)
  case (Cons i subs)
  let ?t = "or_same s (UpdatePortAttrs i a s)"
  have w: "sw_wf ?t" using Cons.prems sw_wf_UpdatePortAttrs by (blast intro: sw_wf_or_same)
  have t: "PortAttrs_of q ?t = (if q = i \<and> PortAttrs_of q s \<noteq> None then Some a else PortAttrs_of q s)" for q
  proof (cases "UpdatePortAttrs i a s")
    case (Inl e)
    then have "PortAttrs_of i s = None" using UpdatePortAttrs_registered [OF assms(2), of i s] by fastforce
    then show ?thesis using Inl by (auto simp: or_same_def)
  next
    case (Inr s')
    then have "PortAttrs_of i s \<noteq> None" by (auto simp: UpdatePortAttrs_def PortAttrs_of_def split: option.splits)
    then show ?thesis using Inr PortAttrs_UpdatePortAttrs [OF Cons.prems Inr] by (auto simp: or_same_def)
  qed
  show ?case using Cons.IH [OF w] t by auto
qed simp

section \<open>Properties\<close>



text \<open>A request that succeeds, for a client of a stream socket.\<close>

definition ex_env :: mgr_env where
  "ex_env = \<lparr>me_os = \<lparr>os_listen = \<lambda>_ _ _. SysOk, os_dial = \<lambda>_ _ _. SysOk, os_resolves = \<lambda>_ _. True, os_alive = \<lambda>_. True,
       os_socket = \<lambda>_. False, os_vsock_dgram = SysOk\<rparr>,
     me_peer = ''peer'', me_tap = \<lambda>_. None, me_xdp = \<lambda>_. None, me_promisc = False\<rparr>"

definition ex_req :: PortRequest where
  "ex_req = \<lparr>r_Identifier = ''p'', r_VLAN = None, r_Isolated = False, r_PortSecurity = None, r_Enabled = None, r_AutoRemove = None,
     r_Mode = ''client'', r_Transport = ''tcp'', r_Local = [], r_Remote = ''h'', r_ReplacingMode = [], r_AccessPlatform = False,
     r_TapName = [], r_Bridge = [], r_Interface = [], r_QueueID = 0, r_BPDUGuard = False, r_LoopDetect = False, r_StormPPS = 0,
     r_STP = False, r_STPCost = 0, r_STPPriority = 0\<rparr>"

definition ex_down :: ManagedPort where
  "ex_down = MClient ((newClientPort ''p'' ''peer'' (Stream (newStreamIO [])))\<lparr>cp_set := False\<rparr>)"

definition port_online :: "Manager \<Rightarrow> string \<Rightarrow> bool option" where
  "port_online m pid = map_option (\<lambda>rec. Online (port_Status (pr_port rec))) (mget (m_ports m) pid)"


end
