(* ===== verification/Spec2Isabelle.thy ===== *)
theory Spec2Isabelle
  imports VS_Prelude Vlan Fdb Storm Protect SwitchState Stp Switch SwitchInv Pipeline Guards Handles StpProps
    NetAddr Bindings Ingress DhcpServer Dhcp4 Dhcp6 RouterAdv NetText Forwards Gateway GuestMem Vring VhostProto VhostDevice VhostData VhostTx VhostRx VhostInv VhostFds StpStatus
    Framing Pump StreamServer StreamServerInv Transports VhostPort KernelPorts ManagedPorts
    ApiTypes Registry Manager ManagerInv ManagerProps
begin

text \<open>
  A user-space virtual switch (\<^verbatim>\<open>src/cmd/gvswitch\<close>, \<^verbatim>\<open>src/internal\<close>): an Ethernet switch whose ports are sockets,
  TAP devices, AF_XDP sockets and vhost-user virtual machines, per-VLAN gateways with DHCP, router advertisements and
  port forwards, and a REST control plane.

  \<^bold>\<open>Parts and how they interact.\<close> The switch core (\<^verbatim>\<open>internal/switchcore\<close>) forwards frames between registered ports.
  A port transport (\<^verbatim>\<open>internal/ports\<close>) hands the frames of its peer to the switch and sends what the switch gives it; the
  vhost-user transport runs a virtio network device over guest memory (\<^verbatim>\<open>internal/vhostuser\<close>). A gateway
  (\<^verbatim>\<open>internal/gateway\<close>) is a port too: its worker offers each frame to its services before the
  netstack. The manager (\<^verbatim>\<open>internal/manager\<close>) creates and removes ports and gateways for the REST
  interface (\<^verbatim>\<open>internal/api\<close>), and is called back by the switch when a port goes down.

  \<^bold>\<open>Conventions.\<close> A struct is a record, a Go map an association list with distinct keys (\<^verbatim>\<open>gomap\<close>), a machine integer a word
  or an integer with the wrap-around written out, a time an integer in nanoseconds. An error
  is a left injection or an option; \<^const>\<open>None\<close> where a result is expected means the code panics. A pointer to
  an object that is shared is an index into a store. A method that holds one lock throughout is one step;
  one that releases it is several, with a program counter or a list of pending tasks between
  them. Third-party packages and the operating system are arguments, mostly records of functions; clocks
  and random bytes are arguments too. \<^verbatim>\<open>VS_Prelude\<close> has the shared types, map lemmas, byte orders, reading from
  a fragmented stream, and the locales \<^verbatim>\<open>invariant_system\<close> and \<^verbatim>\<open>frame_system\<close>, which every transition system of the
  library interprets.

  \<^bold>\<open>Switch core.\<close> \<^verbatim>\<open>Vlan\<close> models \<^verbatim>\<open>vlan.go\<close> and the attributes of \<^verbatim>\<open>port.go\<close>; \<^verbatim>\<open>Fdb\<close> the forwarding database and its
  refinement of an abstract table; \<^verbatim>\<open>Storm\<close> and \<^verbatim>\<open>Protect\<close> the storm limiter, loop probes and BPDU
  recognition of \<^verbatim>\<open>protect.go\<close>; \<^verbatim>\<open>SwitchState\<close>, \<^verbatim>\<open>Stp\<close> and \<^verbatim>\<open>Switch\<close> the state, \<^verbatim>\<open>stp.go\<close> and \<^verbatim>\<open>switch.go\<close>; \<^verbatim>\<open>StpStatus\<close>
  the status views. \<^verbatim>\<open>SwitchInv\<close> shows every reachable switch well formed, \<^verbatim>\<open>Pipeline\<close> that the pipeline is a learning
  bridge and respects VLANs and isolation, \<^verbatim>\<open>Guards\<close> the loop and BPDU protection, \<^verbatim>\<open>Handles\<close> that
  cached handles change nothing, \<^verbatim>\<open>StpProps\<close> the election and the port roles, \<^verbatim>\<open>Registry\<close> that only management changes
  the registry.

  \<^bold>\<open>vhost-user.\<close> \<^verbatim>\<open>GuestMem\<close>, \<^verbatim>\<open>Vring\<close>, \<^verbatim>\<open>VhostProto\<close>, \<^verbatim>\<open>VhostDevice\<close> and \<^verbatim>\<open>VhostData\<close> model \<^verbatim>\<open>memory.go\<close>, \<^verbatim>\<open>queue.go\<close>, \<^verbatim>\<open>proto.go\<close> and
  \<^verbatim>\<open>device.go\<close>. \<^verbatim>\<open>VhostTx\<close> and \<^verbatim>\<open>VhostRx\<close> show what the two directions of the data path do, \<^verbatim>\<open>VhostInv\<close> the invariant of
  the device and that it stays within shared memory, \<^verbatim>\<open>VhostFds\<close> that descriptors are closed once.

  \<^bold>\<open>Gateways.\<close> \<^verbatim>\<open>NetAddr\<close> and \<^verbatim>\<open>NetText\<close> model the address types and texts of Go's library; \<^verbatim>\<open>Bindings\<close> is \<^verbatim>\<open>binding.go\<close>, \<^verbatim>\<open>Ingress\<close> the
  dissection of frames in \<^verbatim>\<open>craft.go\<close>, \<^verbatim>\<open>DhcpServer\<close>, \<^verbatim>\<open>Dhcp4\<close> and \<^verbatim>\<open>Dhcp6\<close> the two DHCP servers over one locale, \<^verbatim>\<open>RouterAdv\<close>
  \<^verbatim>\<open>ra.go\<close>, \<^verbatim>\<open>Forwards\<close> \<^verbatim>\<open>forwards.go\<close>, \<^verbatim>\<open>Gateway\<close> \<^verbatim>\<open>gateway.go\<close>. The lemmas show exclusive leases, honoured offers,
  isolation of clients, convergence of declarative forwards, and that no frame is lost or reordered on its
  way to the netstack.

  \<^bold>\<open>Transports.\<close> \<^verbatim>\<open>Framing\<close> and \<^verbatim>\<open>Pump\<close> model \<^verbatim>\<open>framing.go\<close> and \<^verbatim>\<open>pump.go\<close> and show that the peer reads the accepted frames in
  order. \<^verbatim>\<open>StreamServer\<close> models the stream half of \<^verbatim>\<open>server.go\<close> at the granularity of its lock; \<^verbatim>\<open>StreamServerInv\<close>
  accounts for its connections in every interleaving. \<^verbatim>\<open>Transports\<close> has addresses, dialing and listening
  (\<^verbatim>\<open>net.go\<close>, \<^verbatim>\<open>vsock.go\<close>), datagram servers, clients and TAP ports; \<^verbatim>\<open>VhostPort\<close> the sessions of \<^verbatim>\<open>vhostuser.go\<close>; \<^verbatim>\<open>KernelPorts\<close> the
  construction of TAP and AF_XDP ports and that it leaks nothing; \<^verbatim>\<open>ManagedPorts\<close> the constructors.

  \<^bold>\<open>Control plane.\<close> \<^verbatim>\<open>ApiTypes\<close> has the types of \<^verbatim>\<open>types.go\<close> and \<^verbatim>\<open>api/gateway.go\<close>, \<^verbatim>\<open>Manager\<close> the manager; \<^verbatim>\<open>ManagerInv\<close> shows that every
  registration has exactly one owner, whatever the interleaving.

  \<^bold>\<open>Bounds and fuel.\<close> Loops are structural recursion, folds over finite maps, or functions with a termination proof
  (allocation of an address). Fuel occurs in three places. Reading a message from a fragmented stream takes as many
  reads as bytes are missing, and \<^verbatim>\<open>read_rest_concat\<close> shows that enough. The search for an anonymous number takes
  the size of its table, which \<^verbatim>\<open>allocAnon_first_free\<close> shows enough. The drain loops of the virtqueues may run for
  ever on overlapping rings, so they take fuel; \<^verbatim>\<open>drain_delivers_available\<close> shows that the number of
  pending chains is enough on sane rings, and \<^verbatim>\<open>overlapping_rings_livelock\<close> that nothing is enough on the others.

  \<^bold>\<open>Not modelled.\<close> The netstack, the DHCP message codecs, netlink, eBPF and the AF_XDP rings are third-party and
  arguments; so is the byte layout of crafted frames, whose headers and checksums are encoded by
  gVisor's packages. Within a step other goroutines do not run: the guest does not write to its rings
  during a drain. Raw vsock datagram sockets are system calls only. The REST handlers, decoding of JSON,
  the services of gateways as the manager configures them, and the command line are not modelled.
\<close>

end
